(* ===== verification/Prelude.thy ===== *)
theory Prelude
  imports Main "HOL-Library.Word" "HOL-Library.Char_ord" "HOL-Library.List_Lexorder"
    "HOL-Library.Multiset" "HOL-Library.Signed_Division" "HOL-Library.Code_Target_Numeral"
begin

text \<open>
  The vocabulary every component shares: Go strings and byte slices, fallible results,
  64-bit signed integers, instants and durations, the big-endian encoders of
  \<^verbatim>\<open>encoding/binary\<close>, and Go's comparison sorts with the interface that makes their result
  independent of the input order.

  A Go string is a sequence of bytes, and so is a \<^verbatim>\<open>[]byte\<close>; both are the HOL type
  \<^typ>\<open>string\<close>, whose characters are exactly the 256 byte values.
\<close>

section \<open>Shared simplification sets\<close>

named_theorems result_simps "evaluation of fallible computations"
named_theorems model_defs "definitions of the modelled operations, unfolded on demand"

section \<open>Types\<close>

type_synonym bytes = string

text \<open>
  An instant is the number of nanoseconds since January 1 of year 1, 00:00:00 UTC, the zero
  value of \<^verbatim>\<open>time.Time\<close>; locations and monotonic readings carry no information the code
  compares. A duration is a signed 64-bit number of nanoseconds.
\<close>

type_synonym instant = int
type_synonym duration = int

section \<open>Fallible results\<close>

text \<open>
  A Go function returning \<^verbatim>\<open>(T, error)\<close> is a function into \<open>'e + 'a\<close>: \<^term>\<open>Inl\<close> is
  a non-nil error, \<^term>\<open>Inr\<close> the value. The early return on a non-nil error is
  \<open>and_then\<close>.
\<close>

definition and_then :: "'e + 'a \<Rightarrow> ('a \<Rightarrow> 'e + 'b) \<Rightarrow> 'e + 'b" where
  "and_then m f = (case m of Inl e \<Rightarrow> Inl e | Inr a \<Rightarrow> f a)"

definition is_ok :: "'e + 'a \<Rightarrow> bool" where
  "is_ok m = (case m of Inl _ \<Rightarrow> False | Inr _ \<Rightarrow> True)"

definition on_error :: "('e \<Rightarrow> 'd) \<Rightarrow> 'e + 'a \<Rightarrow> 'd + 'a" where
  "on_error f m = (case m of Inl e \<Rightarrow> Inl (f e) | Inr a \<Rightarrow> Inr a)"

fun map_result :: "('a \<Rightarrow> 'e + 'b) \<Rightarrow> 'a list \<Rightarrow> 'e + 'b list" where
  "map_result f [] = Inr []"
| "map_result f (x # xs) =
     and_then (f x) (\<lambda>y. and_then (map_result f xs) (\<lambda>ys. Inr (y # ys)))"

section \<open>Sixty-four bit signed integers\<close>

definition wrap64 :: "int \<Rightarrow> int" where
  "wrap64 x = (x + 2 ^ 63) mod 2 ^ 64 - 2 ^ 63"

definition max_int64 :: int where
  "max_int64 = 9223372036854775807"

definition min_int64 :: int where
  "min_int64 = - 9223372036854775808"

definition in_int64 :: "int \<Rightarrow> bool" where
  "in_int64 x \<longleftrightarrow> min_int64 \<le> x \<and> x \<le> max_int64"

text \<open>Conversion to \<^verbatim>\<open>uint64\<close>.\<close>

definition to_uint64 :: "int \<Rightarrow> nat" where
  "to_uint64 x = nat (x mod 2 ^ 64)"

section \<open>Instants and durations\<close>

definition nanosecond :: duration where "nanosecond = 1"
definition millisecond :: duration where "millisecond = 1000000"
definition second :: duration where "second = 1000000000"
definition minute :: duration where "minute = 60000000000"
definition hour :: duration where "hour = 3600000000000"

lemmas duration_defs = nanosecond_def millisecond_def second_def minute_def hour_def

definition time_IsZero :: "instant \<Rightarrow> bool" where
  "time_IsZero t \<longleftrightarrow> t = 0"

definition time_Add :: "instant \<Rightarrow> duration \<Rightarrow> instant" where
  "time_Add t d = t + d"

text \<open>\<^verbatim>\<open>Time.Sub\<close> saturates at the extreme durations.\<close>

definition time_Sub :: "instant \<Rightarrow> instant \<Rightarrow> duration" where
  "time_Sub t u = max min_int64 (min max_int64 (t - u))"

text \<open>Nanoseconds between the zero instant and the Unix epoch.\<close>

definition unix_epoch :: instant where
  "unix_epoch = 62135596800 * 1000000000"

definition time_UnixNano :: "instant \<Rightarrow> int" where
  "time_UnixNano t = wrap64 (t - unix_epoch)"

definition time_Unix :: "int \<Rightarrow> instant" where
  "time_Unix ns = unix_epoch + ns"

section \<open>Bytes and strings\<close>

definition byte :: "nat \<Rightarrow> char" where
  "byte n = char_of n"

definition code :: "char \<Rightarrow> nat" where
  "code c = of_char c"

definition is_lower :: "char \<Rightarrow> bool" where
  "is_lower c \<longleftrightarrow> 97 \<le> code c \<and> code c \<le> 122"

definition is_upper :: "char \<Rightarrow> bool" where
  "is_upper c \<longleftrightarrow> 65 \<le> code c \<and> code c \<le> 90"

definition is_digit :: "char \<Rightarrow> bool" where
  "is_digit c \<longleftrightarrow> 48 \<le> code c \<and> code c \<le> 57"

definition to_lower_char :: "char \<Rightarrow> char" where
  "to_lower_char c = (if is_upper c then byte (code c + 32) else c)"

definition has_prefix :: "string \<Rightarrow> string \<Rightarrow> bool" where
  "has_prefix s p \<longleftrightarrow> take (length p) s = p"

definition has_suffix :: "string \<Rightarrow> string \<Rightarrow> bool" where
  "has_suffix s p \<longleftrightarrow> length p \<le> length s \<and> drop (length s - length p) s = p"

definition trim_suffix :: "string \<Rightarrow> string \<Rightarrow> string" where
  "trim_suffix s p = (if has_suffix s p then take (length s - length p) s else s)"

definition contains_any :: "string \<Rightarrow> string \<Rightarrow> bool" where
  "contains_any s cs \<longleftrightarrow> list_ex (\<lambda>c. c \<in> set cs) s"

text \<open>\<^verbatim>\<open>strings.Split(s, sep)\<close> for a one-byte separator.\<close>

fun split_on :: "char \<Rightarrow> string \<Rightarrow> string list" where
  "split_on c [] = [[]]"
| "split_on c (x # xs) =
     (if x = c then [] # split_on c xs
      else (case split_on c xs of [] \<Rightarrow> [[x]] | w # ws \<Rightarrow> (x # w) # ws))"

text \<open>\<^verbatim>\<open>strings.Compare\<close> and \<^verbatim>\<open>bytes.Compare\<close>.\<close>

definition bytes_Compare :: "bytes \<Rightarrow> bytes \<Rightarrow> int" where
  "bytes_Compare s t = (if s = t then 0 else if s < t then -1 else 1)"

section \<open>Big-endian encoders\<close>

fun be_bytes :: "nat \<Rightarrow> nat \<Rightarrow> bytes" where
  "be_bytes 0 n = []"
| "be_bytes (Suc k) n = be_bytes k (n div 256) @ [byte n]"

definition put_uint16 :: "nat \<Rightarrow> bytes" where "put_uint16 n = be_bytes 2 n"
definition put_uint32 :: "nat \<Rightarrow> bytes" where "put_uint32 n = be_bytes 4 n"
definition put_uint64 :: "nat \<Rightarrow> bytes" where "put_uint64 n = be_bytes 8 n"

text \<open>The length-prefixed string every digest of the program writes.\<close>

definition write_string :: "string \<Rightarrow> bytes" where
  "write_string s = put_uint32 (length s) @ s"

section \<open>Comparison sorts\<close>

text \<open>
  \<^verbatim>\<open>sort.Slice\<close> and \<^verbatim>\<open>sort.SliceStable\<close> take a strict comparison. The model is the
  stable insertion sort; the interface \<open>strict_weak\<close> below shows where the result does
  not depend on the algorithm.
\<close>

fun insert_by :: "('a \<Rightarrow> 'a \<Rightarrow> bool) \<Rightarrow> 'a \<Rightarrow> 'a list \<Rightarrow> 'a list" where
  "insert_by lt x [] = [x]"
| "insert_by lt x (y # ys) = (if lt y x then y # insert_by lt x ys else x # y # ys)"

fun sort_by :: "('a \<Rightarrow> 'a \<Rightarrow> bool) \<Rightarrow> 'a list \<Rightarrow> 'a list" where
  "sort_by lt [] = []"
| "sort_by lt (x # xs) = insert_by lt x (sort_by lt xs)"

definition sort_strings :: "string list \<Rightarrow> string list" where
  "sort_strings xs = sort_by (<) xs"

section \<open>Facts on results\<close>

lemma and_then_simps [simp, result_simps]:
  "and_then (Inl e) f = Inl e"
  "and_then (Inr a) f = f a"
  by (simp_all add: and_then_def)

lemma and_then_Inr_iff [result_simps]:
  "and_then m f = Inr b \<longleftrightarrow> (\<exists>a. m = Inr a \<and> f a = Inr b)"
  by (cases m) auto

lemma and_then_Inl_iff:
  "and_then m f = Inl e \<longleftrightarrow> m = Inl e \<or> (\<exists>a. m = Inr a \<and> f a = Inl e)"
  by (cases m) auto

lemma and_then_InrE [elim?]:
  assumes "and_then m f = Inr b"
  obtains a where "m = Inr a" "f a = Inr b"
  using assms by (auto simp: and_then_Inr_iff)

lemma is_ok_simps [simp, result_simps]:
  "is_ok (Inl e) = False"
  "is_ok (Inr a) = True"
  by (simp_all add: is_ok_def)

lemma is_ok_iff: "is_ok m \<longleftrightarrow> (\<exists>a. m = Inr a)"
  by (cases m) auto

lemma on_error_simps [simp, result_simps]:
  "on_error f (Inl e) = Inl (f e)"
  "on_error f (Inr a) = Inr a"
  by (simp_all add: on_error_def)

lemma on_error_Inr_iff [result_simps]: "on_error f m = Inr a \<longleftrightarrow> m = Inr a"
  by (cases m) auto

lemma map_result_Inr_iff: "map_result f xs = Inr ys \<longleftrightarrow> list_all2 (\<lambda>x y. f x = Inr y) xs ys"
  by (induction xs arbitrary: ys) (auto simp: and_then_Inr_iff list_all2_Cons1)

lemma if_Inl_Inr_iff [result_simps]:
  "(if b then Inl e else m) = Inr a \<longleftrightarrow> \<not> b \<and> m = Inr a"
  by auto

section \<open>Facts on integers and instants\<close>

lemma wrap64_id: "in_int64 x \<Longrightarrow> wrap64 x = x"
  by (simp add: wrap64_def in_int64_def min_int64_def max_int64_def)

lemma wrap64_range: "in_int64 (wrap64 x)"
proof -
  have "0 \<le> (x + 2 ^ 63) mod 2 ^ 64" and "(x + 2 ^ 63) mod 2 ^ 64 < 2 ^ 64"
    by (simp_all del: power_numeral)
  then show ?thesis
    by (simp add: wrap64_def in_int64_def min_int64_def max_int64_def)
qed

lemma sdiv_nonneg: "0 \<le> a \<Longrightarrow> 0 \<le> (b::int) \<Longrightarrow> a sdiv b = a div b"
  by (cases "b = 0"; cases "a = 0") (auto simp: signed_divide_int_def sgn_if)

lemma to_uint64_less: "to_uint64 x < 2 ^ 64"
proof -
  have "x mod 2 ^ 64 < 2 ^ 64" by (simp del: power_numeral)
  then have "nat (x mod 2 ^ 64) < nat (2 ^ 64)" by (subst nat_less_eq_zless) simp_all
  then show ?thesis by (simp add: to_uint64_def)
qed

lemma to_uint64_inj: "in_int64 x \<Longrightarrow> in_int64 y \<Longrightarrow> to_uint64 x = to_uint64 y \<Longrightarrow> x = y"
proof -
  assume x: "in_int64 x" and y: "in_int64 y" and eq: "to_uint64 x = to_uint64 y"
  have "0 \<le> x mod 2 ^ 64" "0 \<le> y mod 2 ^ 64" by simp_all
  then have m: "x mod 2 ^ 64 = y mod 2 ^ 64"
    using eq unfolding to_uint64_def by (simp only: eq_nat_nat_iff)
  have "wrap64 x = (x mod 2 ^ 64 + 2 ^ 63) mod 2 ^ 64 - 2 ^ 63"
    "wrap64 y = (y mod 2 ^ 64 + 2 ^ 63) mod 2 ^ 64 - 2 ^ 63"
    by (simp_all only: wrap64_def mod_add_left_eq)
  with m have "wrap64 x = wrap64 y" by simp
  then show "x = y" using x y by (simp add: wrap64_id)
qed

lemma time_Unix_UnixNano:
  "in_int64 (t - unix_epoch) \<Longrightarrow> time_Unix (time_UnixNano t) = t"
  by (simp add: time_Unix_def time_UnixNano_def wrap64_id)

section \<open>Facts on bytes and strings\<close>

lemma code_byte [simp]: "code (byte n) = n mod 256"
  by (simp add: code_def byte_def)

lemma byte_code [simp]: "byte (code c) = c"
  by (simp add: code_def byte_def)

lemma code_less [simp]: "code c < 256"
  by (metis byte_code code_byte mod_less_divisor zero_less_numeral)

lemma code_inj: "code c = code d \<Longrightarrow> c = d"
  by (metis byte_code)

lemma byte_inj: "m < 256 \<Longrightarrow> n < 256 \<Longrightarrow> byte m = byte n \<Longrightarrow> m = n"
  by (metis code_byte mod_less)

lemma split_on_neq_Nil [simp]: "split_on c xs \<noteq> []"
  by (induction xs) (auto split: list.splits)

lemma split_on_none: "c \<notin> set xs \<Longrightarrow> split_on c xs = [xs]"
  by (induction xs) auto

lemma split_on_append: "c \<notin> set xs \<Longrightarrow> split_on c (xs @ c # ys) = xs # split_on c ys"
  by (induction xs) auto

lemma bytes_Compare_simps:
  "bytes_Compare s t = 0 \<longleftrightarrow> s = t"
  "bytes_Compare s t < 0 \<longleftrightarrow> s < t"
  "0 < bytes_Compare s t \<longleftrightarrow> t < s"
  by (auto simp: bytes_Compare_def)

section \<open>Encoders are self-delimiting\<close>

text \<open>
  An encoder is self-delimiting on a domain when a reader that knows only the encoding
  rule recovers both the value and the rest of the input. Concatenations of such encodings
  are injective, which is what makes a digest of the concatenation an identity.
\<close>

locale self_delimiting =
  fixes enc :: "'a \<Rightarrow> bytes" and admissible :: "'a \<Rightarrow> bool"
  assumes cancel: "admissible x \<Longrightarrow> admissible y \<Longrightarrow> enc x @ r = enc y @ s \<Longrightarrow> x = y \<and> r = s"
begin

lemma inj: "admissible x \<Longrightarrow> admissible y \<Longrightarrow> enc x = enc y \<Longrightarrow> x = y"
  using cancel [of x y "[]" "[]"] by simp

lemma cancel_iff: "admissible x \<Longrightarrow> admissible y \<Longrightarrow> enc x @ r = enc y @ s \<longleftrightarrow> x = y \<and> r = s"
  using cancel by blast

lemma concat_cancel:
  "length xs = length ys \<Longrightarrow> list_all admissible xs \<Longrightarrow> list_all admissible ys \<Longrightarrow>
   concat (map enc xs) @ r = concat (map enc ys) @ s \<Longrightarrow> xs = ys \<and> r = s"
proof (induction xs ys rule: list_induct2)
  case Nil
  then show ?case by simp
next
  case (Cons x xs y ys)
  then have "x = y \<and> concat (map enc xs) @ r = concat (map enc ys) @ s"
    by (intro cancel) simp_all
  with Cons show ?case by simp
qed

end

lemma length_be_bytes [simp]: "length (be_bytes k n) = k"
  by (induction k arbitrary: n) auto

lemma be_bytes_inj: "m < 256 ^ k \<Longrightarrow> n < 256 ^ k \<Longrightarrow> be_bytes k m = be_bytes k n \<Longrightarrow> m = n"
proof (induction k arbitrary: m n)
  case 0
  then show ?case by simp
next
  case (Suc k)
  from Suc.prems(3) have high: "be_bytes k (m div 256) = be_bytes k (n div 256)"
    and low: "m mod 256 = n mod 256"
    by (auto dest: arg_cong [where f = code])
  have "m div 256 = n div 256"
    using Suc.prems(1,2) by (intro Suc.IH high) (simp_all add: less_mult_imp_div_less mult.commute)
  with low show ?case by (metis div_mult_mod_eq)
qed

lemma be_bytes_self_delimiting: "self_delimiting (be_bytes k) (\<lambda>n. n < 256 ^ k)"
  by unfold_locales (metis append_eq_append_conv be_bytes_inj length_be_bytes)

interpretation u16: self_delimiting put_uint16 "\<lambda>n. n < 256 ^ 2"
  using be_bytes_self_delimiting [of 2] by (simp add: put_uint16_def [abs_def])

interpretation u32: self_delimiting put_uint32 "\<lambda>n. n < 256 ^ 4"
  using be_bytes_self_delimiting [of 4] by (simp add: put_uint32_def [abs_def])

interpretation u64: self_delimiting put_uint64 "\<lambda>n. n < 256 ^ 8"
  using be_bytes_self_delimiting [of 8] by (simp add: put_uint64_def [abs_def])

interpretation ws: self_delimiting write_string "\<lambda>s. length s < 256 ^ 4"
proof unfold_locales
  fix x y r s :: bytes
  assume "length x < 256 ^ 4" "length y < 256 ^ 4" "write_string x @ r = write_string y @ s"
  then have "length x = length y \<and> x @ r = y @ s"
    by (intro u32.cancel) (simp_all add: write_string_def)
  then show "x = y \<and> r = s" by (metis append_eq_append_conv)
qed

section \<open>Sorting by a strict comparison\<close>

lemma mset_insert_by [simp]: "mset (insert_by lt x xs) = add_mset x (mset xs)"
  by (induction xs) auto

lemma mset_sort_by [simp]: "mset (sort_by lt xs) = mset xs"
  by (induction xs) auto

lemma set_sort_by [simp]: "set (sort_by lt xs) = set xs"
  by (metis mset_sort_by set_mset_mset)

lemma length_sort_by [simp]: "length (sort_by lt xs) = length xs"
  by (metis mset_sort_by size_mset)

lemma sort_by_eq_Nil [simp]: "sort_by lt xs = [] \<longleftrightarrow> xs = []"
  by (metis length_0_conv length_sort_by)

lemma distinct_sort_by [simp]: "distinct (sort_by lt xs) \<longleftrightarrow> distinct xs"
  by (metis distinct_count_atmost_1 mset_sort_by set_sort_by)

lemma set_insert_by [simp]: "set (insert_by lt x xs) = insert x (set xs)"
  by (induction xs) auto

text \<open>
  The contract a Go \<^verbatim>\<open>less\<close> function must meet on the elements it is called on: a strict
  weak order. Where it is also total (two elements it cannot separate are equal) the sorted
  list is a function of the multiset alone.
\<close>

locale strict_weak =
  fixes lt :: "'a \<Rightarrow> 'a \<Rightarrow> bool" and carrier :: "'a \<Rightarrow> bool"
  assumes asym: "carrier x \<Longrightarrow> carrier y \<Longrightarrow> lt x y \<Longrightarrow> \<not> lt y x"
    and weak_trans: "carrier x \<Longrightarrow> carrier y \<Longrightarrow> carrier z \<Longrightarrow>
      \<not> lt y x \<Longrightarrow> \<not> lt z y \<Longrightarrow> \<not> lt z x"
begin

lemma insert_by_sorted:
  "carrier x \<Longrightarrow> list_all carrier xs \<Longrightarrow> sorted_wrt (\<lambda>a b. \<not> lt b a) xs \<Longrightarrow>
   sorted_wrt (\<lambda>a b. \<not> lt b a) (insert_by lt x xs)"
proof (induction xs)
  case Nil
  then show ?case by simp
next
  case (Cons y ys)
  show ?case
  proof (cases "lt y x")
    case True
    with Cons show ?thesis by (auto dest: asym)
  next
    case False
    have "\<not> lt b x" if "b \<in> set ys" for b
      using Cons.prems False that weak_trans [of x y b] by (auto simp: list_all_iff)
    with Cons.prems False show ?thesis by auto
  qed
qed

lemma sort_by_sorted:
  "list_all carrier xs \<Longrightarrow> sorted_wrt (\<lambda>a b. \<not> lt b a) (sort_by lt xs)"
  by (induction xs) (auto intro!: insert_by_sorted simp: list_all_iff)

lemma insert_by_front:
  "(\<And>y. y \<in> set xs \<Longrightarrow> \<not> lt y x) \<Longrightarrow> insert_by lt x xs = x # xs"
  by (cases xs) auto

lemma sort_by_id:
  "sorted_wrt (\<lambda>a b. \<not> lt b a) xs \<Longrightarrow> sort_by lt xs = xs"
  by (induction xs) (auto intro: insert_by_front)

end

locale strict_total = strict_weak +
  assumes total: "carrier x \<Longrightarrow> carrier y \<Longrightarrow> \<not> lt x y \<Longrightarrow> \<not> lt y x \<Longrightarrow> x = y"
begin

lemma sorted_unique:
  "list_all carrier xs \<Longrightarrow> mset xs = mset ys \<Longrightarrow>
   sorted_wrt (\<lambda>a b. \<not> lt b a) xs \<Longrightarrow> sorted_wrt (\<lambda>a b. \<not> lt b a) ys \<Longrightarrow> xs = ys"
proof (induction xs arbitrary: ys)
  case Nil
  then show ?case by simp
next
  case (Cons x xs)
  then obtain y ys' where ys: "ys = y # ys'" by (cases ys) auto
  have sets: "set (x # xs) = set ys" using Cons.prems(2) by (metis set_mset_mset)
  have "carrier x" "carrier y" using Cons.prems(1) sets ys by (auto simp: list_all_iff)
  moreover have "\<not> lt x y"
  proof (cases "x = y")
    case True
    then show ?thesis using asym \<open>carrier x\<close> by blast
  next
    case False
    then have "x \<in> set ys'" using sets ys by auto
    then show ?thesis using Cons.prems(4) ys by simp
  qed
  moreover have "\<not> lt y x"
  proof (cases "x = y")
    case True
    then show ?thesis using asym \<open>carrier x\<close> by blast
  next
    case False
    then have "y \<in> set xs" using sets ys by auto
    then show ?thesis using Cons.prems(3) by simp
  qed
  ultimately have "x = y" by (intro total)
  with Cons ys show ?case by simp
qed

lemma sort_by_permutation:
  assumes "list_all carrier xs" "mset xs = mset ys"
  shows "sort_by lt xs = sort_by lt ys"
proof -
  have "set xs = set ys" using assms(2) by (metis set_mset_mset)
  then show ?thesis
    using assms by (intro sorted_unique sort_by_sorted) (auto simp: list_all_iff)
qed

lemma sorted_strict:
  "list_all carrier xs \<Longrightarrow> distinct xs \<Longrightarrow> sorted_wrt (\<lambda>a b. \<not> lt b a) xs \<Longrightarrow> sorted_wrt lt xs"
  by (induction xs) (auto simp: list_all_iff dest: total)

lemma sort_by_strict: "list_all carrier xs \<Longrightarrow> distinct xs \<Longrightarrow> sorted_wrt lt (sort_by lt xs)"
  by (intro sorted_strict sort_by_sorted) (auto simp: list_all_iff)

end

lemma strict_total_linorder: "strict_total ((<) :: 'a::linorder \<Rightarrow> 'a \<Rightarrow> bool) (\<lambda>_. True)"
  by unfold_locales auto

interpretation str: strict_total "(<) :: string \<Rightarrow> string \<Rightarrow> bool" "\<lambda>_. True"
  by (rule strict_total_linorder)

text \<open>A strictly sorted list is determined by its elements.\<close>

lemma strictly_sorted_unique:
  assumes asym: "\<And>x y. R x y \<Longrightarrow> \<not> R y x"
  shows "sorted_wrt R xs \<Longrightarrow> sorted_wrt R ys \<Longrightarrow> set xs = set ys \<Longrightarrow> xs = ys"
proof (induction xs arbitrary: ys)
  case Nil
  then show ?case by simp
next
  case (Cons x xs)
  then obtain y ys' where ys: "ys = y # ys'" by (cases ys) auto
  have "x = y"
  proof (rule ccontr)
    assume "x \<noteq> y"
    then have "x \<in> set ys'" "y \<in> set xs" using Cons.prems(3) ys by auto
    then have "R y x" "R x y" using Cons.prems(1,2) ys by auto
    with asym show False by blast
  qed
  moreover have "x \<notin> set xs" "y \<notin> set ys'" using Cons.prems(1,2) ys asym by auto
  ultimately have "set xs = set ys'" using Cons.prems(3) ys by auto
  with Cons ys \<open>x = y\<close> show ?case by simp
qed

lemma sort_strings_set: "sort_strings (remdups xs) = sorted_list_of_set (set xs)"
proof (rule strictly_sorted_unique [where R = "(<)"])
  show "sorted_wrt (<) (sort_strings (remdups xs))"
    unfolding sort_strings_def by (rule str.sort_by_strict) (simp_all add: list_all_iff)
qed (simp_all add: sort_strings_def)

end
