(* ===== verification/Text.thy ===== *)
theory Text
  imports Prelude
begin

text \<open>
  The text routines of Go's standard library the program calls: UTF-8 validity, case mapping,
  white space, decimal and hexadecimal numbers, and the base32 and base64url codecs. Each is
  written to return what the library returns on the strings the callers pass, errors included.
\<close>

section \<open>UTF-8\<close>

definition in_range :: "nat \<Rightarrow> nat \<Rightarrow> char \<Rightarrow> bool" where
  "in_range lo hi c \<longleftrightarrow> lo \<le> code c \<and> code c \<le> hi"

abbreviation continuation :: "char \<Rightarrow> bool" where
  "continuation c \<equiv> in_range 128 191 c"

text \<open>\<^verbatim>\<open>utf8.ValidString\<close>: the well-formed sequences of the Unicode standard, table 3-7.\<close>

fun utf8_valid :: "string \<Rightarrow> bool" where
  "utf8_valid [] = True"
| "utf8_valid (a # s) =
     (if code a < 128 then utf8_valid s
      else case s of [] \<Rightarrow> False
      | b # s2 \<Rightarrow>
        if in_range 194 223 a then continuation b \<and> utf8_valid s2
        else case s2 of [] \<Rightarrow> False
        | c # s3 \<Rightarrow>
          if in_range 224 239 a then
            (if code a = 224 then in_range 160 191 b
             else if code a = 237 then in_range 128 159 b else continuation b)
            \<and> continuation c \<and> utf8_valid s3
          else case s3 of [] \<Rightarrow> False
          | d # s4 \<Rightarrow>
            in_range 240 244 a
            \<and> (if code a = 240 then in_range 144 191 b
               else if code a = 244 then in_range 128 143 b else continuation b)
            \<and> continuation c \<and> continuation d \<and> utf8_valid s4)"

section \<open>Case mapping and white space\<close>

text \<open>
  \<^verbatim>\<open>strings.ToLower\<close> maps code points. Two code points outside ASCII have an ASCII letter
  as their lower case, U+212A (Kelvin sign) and U+0130; two have one as their upper case,
  U+0131 and U+017F. They are mapped as the library maps them. The other code points outside
  ASCII stay outside ASCII and are kept as they are: every caller rejects them.
\<close>

fun to_lower :: "string \<Rightarrow> string" where
  "to_lower [] = []"
| "to_lower (a # s) =
     (if code a = 226 \<and> map code (take 2 s) = [132, 170] then CHR ''k'' # to_lower (drop 2 s)
      else if code a = 196 \<and> map code (take 1 s) = [176] then CHR ''i'' # to_lower (drop 1 s)
      else to_lower_char a # to_lower s)"

definition to_upper_char :: "char \<Rightarrow> char" where
  "to_upper_char c = (if is_lower c then byte (code c - 32) else c)"

fun to_upper :: "string \<Rightarrow> string" where
  "to_upper [] = []"
| "to_upper (a # s) =
     (if code a = 196 \<and> map code (take 1 s) = [177] then CHR ''I'' # to_upper (drop 1 s)
      else if code a = 197 \<and> map code (take 1 s) = [191] then CHR ''S'' # to_upper (drop 1 s)
      else to_upper_char a # to_upper s)"

text \<open>The UTF-8 encodings of the code points with the White\_Space property.\<close>

definition white_space :: "string list" where
  "white_space = map (map byte)
     ([[9], [10], [11], [12], [13], [32], [194, 133], [194, 160], [225, 154, 128],
       [226, 128, 168], [226, 128, 169], [226, 128, 175], [226, 129, 159], [227, 128, 128]]
      @ map (\<lambda>n. [226, 128, n]) [128 ..< 139])"

text \<open>\<^verbatim>\<open>strings.TrimSpace(s) != s\<close>.\<close>

definition has_outer_space :: "string \<Rightarrow> bool" where
  "has_outer_space s \<longleftrightarrow> list_ex (\<lambda>w. has_prefix s w \<or> has_suffix s w) white_space"

section \<open>Decimal numbers\<close>

definition digit_char :: "nat \<Rightarrow> char" where
  "digit_char d = byte (48 + d)"

fun dec_digits :: "nat \<Rightarrow> string" where
  "dec_digits n = (if n < 10 then [digit_char n] else dec_digits (n div 10) @ [digit_char (n mod 10)])"

declare dec_digits.simps [simp del]

text \<open>\<^verbatim>\<open>strconv.Itoa\<close>.\<close>

definition itoa :: "int \<Rightarrow> string" where
  "itoa i = (if i < 0 then CHR ''-'' # dec_digits (nat (- i)) else dec_digits (nat i))"

definition dec_value :: "string \<Rightarrow> nat" where
  "dec_value s = foldl (\<lambda>v c. 10 * v + (code c - 48)) 0 s"

definition parse_digits :: "string \<Rightarrow> nat option" where
  "parse_digits s = (if s \<noteq> [] \<and> list_all is_digit s then Some (dec_value s) else None)"

text \<open>\<^verbatim>\<open>strconv.Atoi\<close>: an optional sign, digits, and a value of 64 bits.\<close>

definition atoi :: "string \<Rightarrow> int option" where
  "atoi s =
     (let signed = (case s of c # r \<Rightarrow> c = CHR ''-'' \<or> c = CHR ''+'' | [] \<Rightarrow> False);
          digits = (if signed then tl s else s)
      in case parse_digits digits of
           None \<Rightarrow> None
         | Some n \<Rightarrow>
             let v = (if signed \<and> hd s = CHR ''-'' then - int n else int n)
             in if in_int64 v then Some v else None)"

section \<open>Hexadecimal\<close>

definition hex_digit :: "nat \<Rightarrow> char" where
  "hex_digit d = (if d < 10 then byte (48 + d) else byte (87 + d))"

definition hex_value :: "char \<Rightarrow> nat option" where
  "hex_value c =
     (if is_digit c then Some (code c - 48)
      else if 97 \<le> code c \<and> code c \<le> 102 then Some (code c - 87)
      else if 65 \<le> code c \<and> code c \<le> 70 then Some (code c - 55)
      else None)"

text \<open>\<^verbatim>\<open>hex.EncodeToString\<close> and \<^verbatim>\<open>hex.Decode\<close> (an odd length is an error).\<close>

definition hex_encode :: "bytes \<Rightarrow> string" where
  "hex_encode bs = concat (map (\<lambda>c. [hex_digit (code c div 16), hex_digit (code c mod 16)]) bs)"

fun hex_decode :: "string \<Rightarrow> bytes option" where
  "hex_decode [] = Some []"
| "hex_decode [a] = None"
| "hex_decode (a # b # s) =
     (case (hex_value a, hex_value b) of
        (Some x, Some y) \<Rightarrow> map_option ((#) (byte (16 * x + y))) (hex_decode s)
      | _ \<Rightarrow> None)"

section \<open>Radix codecs\<close>

text \<open>
  base32 and base64 without padding cut the input into groups of five or six bits, most
  significant first, the last group filled with zeros. Bits are lists of booleans.
\<close>

definition nat_bits :: "nat \<Rightarrow> nat \<Rightarrow> bool list" where
  "nat_bits k n = map (\<lambda>i. odd (n div 2 ^ (k - Suc i))) [0..<k]"

definition bits_nat :: "bool list \<Rightarrow> nat" where
  "bits_nat bs = foldl (\<lambda>v b. 2 * v + (if b then 1 else 0)) 0 bs"

definition byte_bits :: "bytes \<Rightarrow> bool list" where
  "byte_bits bs = concat (map (\<lambda>c. nat_bits 8 (code c)) bs)"

text \<open>Groups of \<open>k\<close> bits; the last is filled up.\<close>

fun group_bits :: "nat \<Rightarrow> nat \<Rightarrow> bool list \<Rightarrow> bool list list" where
  "group_bits 0 k bs = []"
| "group_bits (Suc fuel) k bs =
     (if bs = [] then []
      else let g = take k bs in (g @ replicate (k - length g) False) # group_bits fuel k (drop k bs))"

text \<open>Whole bytes of a bit string; the rest is dropped.\<close>

fun whole_bytes :: "nat \<Rightarrow> bool list \<Rightarrow> bytes" where
  "whole_bytes 0 bs = []"
| "whole_bytes (Suc fuel) bs =
     (if length bs < 8 then [] else byte (bits_nat (take 8 bs)) # whole_bytes fuel (drop 8 bs))"

definition radix_encode :: "nat \<Rightarrow> string \<Rightarrow> bytes \<Rightarrow> string" where
  "radix_encode k alphabet bs =
     (let bits = byte_bits bs in map (\<lambda>g. alphabet ! bits_nat g) (group_bits (length bits) k bits))"

fun index_of :: "'a list \<Rightarrow> 'a \<Rightarrow> nat option" where
  "index_of [] x = None"
| "index_of (y # ys) x = (if x = y then Some 0 else map_option Suc (index_of ys x))"

fun radix_bits :: "nat \<Rightarrow> string \<Rightarrow> string \<Rightarrow> bool list option" where
  "radix_bits k alphabet [] = Some []"
| "radix_bits k alphabet (c # s) =
     (case index_of alphabet c of
        None \<Rightarrow> None
      | Some v \<Rightarrow> map_option (\<lambda>bits. nat_bits k v @ bits) (radix_bits k alphabet s))"

definition base32_alphabet :: string where
  "base32_alphabet = ''ABCDEFGHIJKLMNOPQRSTUVWXYZ234567''"

definition base64url_alphabet :: string where
  "base64url_alphabet = ''ABCDEFGHIJKLMNOPQRSTUVWXYZabcdefghijklmnopqrstuvwxyz0123456789-_''"

text \<open>The decoders of \<^verbatim>\<open>encoding/base32\<close> and \<^verbatim>\<open>encoding/base64\<close> skip line breaks.\<close>

definition strip_newlines :: "string \<Rightarrow> string" where
  "strip_newlines s = filter (\<lambda>c. code c \<noteq> 10 \<and> code c \<noteq> 13) s"

definition base32_encode :: "bytes \<Rightarrow> string" where
  "base32_encode bs = radix_encode 5 base32_alphabet bs"

text \<open>
  A final base32 quantum of one, three or six digits yields no byte and no error; the bytes of
  the other quanta are the whole bytes of the bit string.
\<close>

definition base32_decode :: "string \<Rightarrow> bytes option" where
  "base32_decode s =
     (let t = strip_newlines s; r = length t mod 8;
          kept = (if r = 1 \<or> r = 3 \<or> r = 6 then length t - r else length t)
      in case radix_bits 5 base32_alphabet t of
           None \<Rightarrow> None
         | Some bits \<Rightarrow> Some (whole_bytes (length bits) (take (5 * kept) bits)))"

definition base64url_encode :: "bytes \<Rightarrow> string" where
  "base64url_encode bs = radix_encode 6 base64url_alphabet bs"

text \<open>A final base64 quantum of one digit is an error.\<close>

definition base64url_decode :: "string \<Rightarrow> bytes option" where
  "base64url_decode s =
     (let t = strip_newlines s
      in if length t mod 4 = 1 then None
         else case radix_bits 6 base64url_alphabet t of
                None \<Rightarrow> None
              | Some bits \<Rightarrow> Some (whole_bytes (length bits) bits))"

section \<open>Decimal round trips\<close>

lemma code_digit_char [simp]: "d < 10 \<Longrightarrow> code (digit_char d) = 48 + d"
  by (simp add: digit_char_def)

lemma is_digit_digit_char [simp]: "d < 10 \<Longrightarrow> is_digit (digit_char d)"
  by (simp add: is_digit_def)

lemma dec_digits_neq_Nil [simp]: "dec_digits n \<noteq> []"
  by (subst dec_digits.simps) simp

lemma dec_digits_is_digit: "list_all is_digit (dec_digits n)"
proof (induction n rule: dec_digits.induct)
  case (1 n)
  then show ?case by (subst dec_digits.simps) simp
qed

lemma dec_value_snoc: "dec_value (s @ [c]) = 10 * dec_value s + (code c - 48)"
  by (simp add: dec_value_def)

lemma dec_value_dec_digits [simp]: "dec_value (dec_digits n) = n"
proof (induction n rule: dec_digits.induct)
  case (1 n)
  then show ?case
    by (subst dec_digits.simps) (simp add: dec_value_snoc, simp add: dec_value_def)
qed

lemma parse_digits_dec_digits [simp]: "parse_digits (dec_digits n) = Some n"
  by (simp add: parse_digits_def dec_digits_is_digit)

lemma dec_digits_inj: "dec_digits m = dec_digits n \<Longrightarrow> m = n"
  by (metis dec_value_dec_digits)

lemma hd_dec_digits_not_sign:
  "hd (dec_digits n) \<noteq> CHR ''-''" "hd (dec_digits n) \<noteq> CHR ''+''"
proof -
  have "is_digit (hd (dec_digits n))"
    using dec_digits_is_digit [of n] by (cases "dec_digits n") auto
  then show "hd (dec_digits n) \<noteq> CHR ''-''" "hd (dec_digits n) \<noteq> CHR ''+''"
    by (auto simp: is_digit_def code_def)
qed

lemma atoi_itoa: "in_int64 i \<Longrightarrow> atoi (itoa i) = Some i"
  using hd_dec_digits_not_sign [of "nat i"]
  by (auto simp: atoi_def itoa_def Let_def split: list.split)

lemma itoa_atoi_inj: "in_int64 i \<Longrightarrow> in_int64 j \<Longrightarrow> itoa i = itoa j \<Longrightarrow> i = j"
  by (metis atoi_itoa option.inject)

section \<open>Hexadecimal round trip\<close>

lemma hex_value_hex_digit [simp]: "d < 16 \<Longrightarrow> hex_value (hex_digit d) = Some d"
  by (auto simp: hex_value_def hex_digit_def is_digit_def)

lemma hex_decode_encode: "hex_decode (hex_encode bs) = Some bs"
proof (induction bs)
  case Nil
  then show ?case by (simp add: hex_encode_def)
next
  case (Cons c bs)
  have "code c div 16 < 16" using code_less [of c] by linarith
  moreover have "16 * (code c div 16) + code c mod 16 = code c" by simp
  ultimately show ?case using Cons by (simp add: hex_encode_def)
qed

lemma length_hex_encode [simp]: "length (hex_encode bs) = 2 * length bs"
  by (induction bs) (simp_all add: hex_encode_def)

lemma hex_digit_lower: "d < 16 \<Longrightarrow> is_digit (hex_digit d) \<or> is_lower (hex_digit d)"
  by (auto simp: hex_digit_def is_digit_def is_lower_def)

section \<open>Radix round trips\<close>

lemma length_nat_bits [simp]: "length (nat_bits k n) = k"
  by (simp add: nat_bits_def)

lemma nat_bits_Suc: "nat_bits (Suc k) n = nat_bits k (n div 2) @ [odd n]"
proof -
  have "map (\<lambda>i. odd (n div 2 ^ (Suc k - Suc i))) [0..<k] = map (\<lambda>i. odd (n div 2 div 2 ^ (k - Suc i))) [0..<k]"
  proof (rule map_cong)
    fix i assume "i \<in> set [0..<k]"
    then have "Suc k - Suc i = Suc (k - Suc i)" by auto
    then show "odd (n div 2 ^ (Suc k - Suc i)) = odd (n div 2 div 2 ^ (k - Suc i))"
      by (simp add: div_mult2_eq)
  qed simp
  then show ?thesis by (simp add: nat_bits_def)
qed

lemma nat_bits_0 [simp]: "nat_bits 0 n = []"
  by (simp add: nat_bits_def)

lemma bits_nat_snoc: "bits_nat (bs @ [b]) = 2 * bits_nat bs + (if b then 1 else 0)"
  by (simp add: bits_nat_def)

lemma bits_nat_Nil [simp]: "bits_nat [] = 0"
  by (simp add: bits_nat_def)

lemma bits_nat_nat_bits: "n < 2 ^ k \<Longrightarrow> bits_nat (nat_bits k n) = n"
proof (induction k arbitrary: n)
  case 0
  then show ?case by simp
next
  case (Suc k)
  then have "n div 2 < 2 ^ k" by auto
  with Suc.IH show ?case by (simp add: nat_bits_Suc bits_nat_snoc)
qed

lemma bits_nat_less: "bits_nat bs < 2 ^ length bs"
  by (induction bs rule: rev_induct) (auto simp: bits_nat_snoc)

lemma nat_bits_bits_nat: "nat_bits (length bs) (bits_nat bs) = bs"
  by (induction bs rule: rev_induct) (auto simp: bits_nat_snoc nat_bits_Suc)

lemma index_of_nth: "distinct xs \<Longrightarrow> i < length xs \<Longrightarrow> index_of xs (xs ! i) = Some i"
proof (induction xs arbitrary: i)
  case Nil
  then show ?case by simp
next
  case (Cons x xs)
  then show ?case by (cases i) auto
qed

lemma group_bits_concat:
  "0 < k \<Longrightarrow> length bs \<le> fuel \<Longrightarrow>
   \<exists>pad < k. concat (group_bits fuel k bs) = bs @ replicate pad False
     \<and> list_all (\<lambda>g. length g = k) (group_bits fuel k bs)"
proof (induction fuel k bs rule: group_bits.induct)
  case (1 k bs)
  then show ?case by auto
next
  case (2 fuel k bs)
  show ?case
  proof (cases "bs = []")
    case True
    then show ?thesis using "2.prems" by auto
  next
    case False
    have "length (drop k bs) \<le> fuel" using "2.prems" False by (cases bs) auto
    then obtain pad where pad: "pad < k"
      "concat (group_bits fuel k (drop k bs)) = drop k bs @ replicate pad False"
      "list_all (\<lambda>g. length g = k) (group_bits fuel k (drop k bs))"
      using "2.IH" [OF False refl] "2.prems"(1) by auto
    show ?thesis
    proof (cases "length bs < k")
      case True
      then have "group_bits fuel k (drop k bs) = []" by (cases fuel) auto
      then show ?thesis using True False
        by (intro exI [of _ "k - length bs"]) (auto simp: Let_def)
    next
      case ge: False
      then show ?thesis using pad False by (intro exI [of _ pad]) (auto simp: Let_def)
    qed
  qed
qed

lemma radix_bits_map_nth:
  "distinct alphabet \<Longrightarrow> length alphabet = 2 ^ k \<Longrightarrow> list_all (\<lambda>g. length g = k) gs \<Longrightarrow>
   radix_bits k alphabet (map (\<lambda>g. alphabet ! bits_nat g) gs) = Some (concat gs)"
proof (induction gs)
  case Nil
  then show ?case by simp
next
  case (Cons g gs)
  then have "bits_nat g < length alphabet" using bits_nat_less [of g] by simp
  then have "index_of alphabet (alphabet ! bits_nat g) = Some (bits_nat g)"
    using Cons.prems by (simp add: index_of_nth)
  moreover have "nat_bits k (bits_nat g) = g" using Cons.prems(3) nat_bits_bits_nat [of g] by simp
  ultimately show ?case using Cons by simp
qed

lemma whole_bytes_byte_bits:
  "length bs \<le> fuel \<Longrightarrow> length tail < 8 \<Longrightarrow> whole_bytes fuel (byte_bits bs @ tail) = bs"
proof (induction bs arbitrary: fuel)
  case Nil
  then show ?case by (cases fuel) (auto simp: byte_bits_def)
next
  case (Cons c bs)
  then obtain fuel' where "fuel = Suc fuel'" by (cases fuel) auto
  moreover have "byte (bits_nat (nat_bits 8 (code c))) = c"
    by (subst bits_nat_nat_bits) simp_all
  ultimately show ?case using Cons by (simp add: byte_bits_def)
qed

lemma length_byte_bits [simp]: "length (byte_bits bs) = 8 * length bs"
  by (induction bs) (simp_all add: byte_bits_def)

lemma distinct_alphabets: "distinct base32_alphabet" "distinct base64url_alphabet"
  by (simp_all add: base32_alphabet_def base64url_alphabet_def)

lemma length_alphabets: "length base32_alphabet = 2 ^ 5" "length base64url_alphabet = 2 ^ 6"
  by (simp_all add: base32_alphabet_def base64url_alphabet_def)

lemma radix_encode_alphabet:
  assumes "length alphabet = 2 ^ k" "0 < k" "c \<in> set (radix_encode k alphabet bs)"
  shows "c \<in> set alphabet"
proof -
  obtain g where g: "g \<in> set (group_bits (8 * length bs) k (byte_bits bs))" "c = alphabet ! bits_nat g"
    using assms(3) by (auto simp: radix_encode_def Let_def)
  then have "length g = k"
    using group_bits_concat [OF assms(2), of "byte_bits bs" "8 * length bs"] by (auto simp: list_all_iff)
  then show ?thesis using g bits_nat_less [of g] assms(1) by simp
qed

lemma length_concat_uniform: "list_all (\<lambda>g. length g = k) gs \<Longrightarrow> length (concat gs) = k * length gs"
  by (induction gs) auto

lemma radix_bits_encode:
  assumes "distinct alphabet" "length alphabet = 2 ^ k" "0 < k"
  shows "\<exists>pad < k. radix_bits k alphabet (radix_encode k alphabet bs) = Some (byte_bits bs @ replicate pad False)
    \<and> k * length (radix_encode k alphabet bs) = 8 * length bs + pad"
proof -
  let ?gs = "group_bits (8 * length bs) k (byte_bits bs)"
  obtain pad where pad: "pad < k" "concat ?gs = byte_bits bs @ replicate pad False"
    "list_all (\<lambda>g. length g = k) ?gs"
    using group_bits_concat [OF assms(3), of "byte_bits bs" "8 * length bs"] by auto
  have len: "k * length ?gs = length (concat ?gs)"
    using pad(3) by (simp add: length_concat_uniform)
  show ?thesis
    using radix_bits_map_nth [OF assms(1,2) pad(3)] pad len
    by (auto simp: radix_encode_def Let_def)
qed

text \<open>Encoded text contains no line break, so the decoders see it unchanged.\<close>

lemma strip_newlines_id: "list_all (\<lambda>c. 32 \<le> code c) s \<Longrightarrow> strip_newlines s = s"
  by (auto simp: strip_newlines_def list_all_iff intro!: filter_True)

end
