(* ===== verification/NetIP.thy ===== *)
theory NetIP
  imports Text
begin

text \<open>
  The part of Go's \<^verbatim>\<open>net/netip\<close> the program uses: addresses as their bytes in network order,
  the parser, the canonical text form, the address classes, prefixes and the order. A parse
  error carries no information any caller looks at, so it is \<^term>\<open>None\<close>.
\<close>

section \<open>Addresses\<close>

datatype netip_addr =
    AddrZero
  | Addr4 bytes
  | Addr6 bytes string \<comment> \<open>sixteen bytes and a zone, empty when there is none\<close>

fun addr_wf :: "netip_addr \<Rightarrow> bool" where
  "addr_wf AddrZero = True"
| "addr_wf (Addr4 bs) = (length bs = 4)"
| "addr_wf (Addr6 bs z) = (length bs = 16)"

definition mapped_prefix :: bytes where
  "mapped_prefix = replicate 10 (byte 0) @ replicate 2 (byte 255)"

fun addr_IsValid :: "netip_addr \<Rightarrow> bool" where
  "addr_IsValid AddrZero = False"
| "addr_IsValid _ = True"

fun addr_Is4 :: "netip_addr \<Rightarrow> bool" where
  "addr_Is4 (Addr4 _) = True"
| "addr_Is4 _ = False"

fun addr_Zone :: "netip_addr \<Rightarrow> string" where
  "addr_Zone (Addr6 _ z) = z"
| "addr_Zone _ = []"

fun addr_Is4In6 :: "netip_addr \<Rightarrow> bool" where
  "addr_Is4In6 (Addr6 bs _) = (take 12 bs = mapped_prefix)"
| "addr_Is4In6 _ = False"

fun addr_Unmap :: "netip_addr \<Rightarrow> netip_addr" where
  "addr_Unmap (Addr6 bs z) = (if take 12 bs = mapped_prefix then Addr4 (drop 12 bs) else Addr6 bs z)"
| "addr_Unmap a = a"

definition ipv4_unspecified :: netip_addr where
  "ipv4_unspecified = Addr4 (replicate 4 (byte 0))"

definition ipv6_unspecified :: netip_addr where
  "ipv6_unspecified = Addr6 (replicate 16 (byte 0)) []"

definition addr_IsUnspecified :: "netip_addr \<Rightarrow> bool" where
  "addr_IsUnspecified a \<longleftrightarrow> a = ipv4_unspecified \<or> a = ipv6_unspecified"

section \<open>Address classes\<close>

text \<open>Byte \<open>i\<close> of the address, as a number.\<close>

definition octet :: "bytes \<Rightarrow> nat \<Rightarrow> nat" where
  "octet bs i = code (bs ! i)"

definition addr_IsLoopback :: "netip_addr \<Rightarrow> bool" where
  "addr_IsLoopback a = (case addr_Unmap a of
      AddrZero \<Rightarrow> False
    | Addr4 bs \<Rightarrow> octet bs 0 = 127
    | Addr6 bs z \<Rightarrow> bs = replicate 15 (byte 0) @ [byte 1])"

definition addr_IsMulticast :: "netip_addr \<Rightarrow> bool" where
  "addr_IsMulticast a = (case addr_Unmap a of
      AddrZero \<Rightarrow> False
    | Addr4 bs \<Rightarrow> octet bs 0 div 16 = 14
    | Addr6 bs z \<Rightarrow> octet bs 0 = 255)"

definition addr_IsLinkLocalUnicast :: "netip_addr \<Rightarrow> bool" where
  "addr_IsLinkLocalUnicast a = (case addr_Unmap a of
      AddrZero \<Rightarrow> False
    | Addr4 bs \<Rightarrow> octet bs 0 = 169 \<and> octet bs 1 = 254
    | Addr6 bs z \<Rightarrow> octet bs 0 = 254 \<and> octet bs 1 div 64 = 2)"

definition addr_IsLinkLocalMulticast :: "netip_addr \<Rightarrow> bool" where
  "addr_IsLinkLocalMulticast a = (case addr_Unmap a of
      AddrZero \<Rightarrow> False
    | Addr4 bs \<Rightarrow> octet bs 0 = 224 \<and> octet bs 1 = 0 \<and> octet bs 2 = 0
    | Addr6 bs z \<Rightarrow> octet bs 0 = 255 \<and> octet bs 1 mod 16 = 2)"

definition addr_IsPrivate :: "netip_addr \<Rightarrow> bool" where
  "addr_IsPrivate a = (case addr_Unmap a of
      AddrZero \<Rightarrow> False
    | Addr4 bs \<Rightarrow> octet bs 0 = 10 \<or> octet bs 0 = 172 \<and> octet bs 1 div 16 = 1
        \<or> octet bs 0 = 192 \<and> octet bs 1 = 168
    | Addr6 bs z \<Rightarrow> octet bs 0 div 2 = 126)"

section \<open>Order and prefixes\<close>

fun addr_bits :: "netip_addr \<Rightarrow> nat" where
  "addr_bits AddrZero = 0"
| "addr_bits (Addr4 _) = 32"
| "addr_bits (Addr6 _ _) = 128"

fun addr_bytes :: "netip_addr \<Rightarrow> bytes" where
  "addr_bytes AddrZero = []"
| "addr_bytes (Addr4 bs) = bs"
| "addr_bytes (Addr6 bs _) = bs"

definition addr_Compare :: "netip_addr \<Rightarrow> netip_addr \<Rightarrow> int" where
  "addr_Compare a b =
     (if addr_bits a < addr_bits b then -1
      else if addr_bits a > addr_bits b then 1
      else if addr_bytes a < addr_bytes b then -1
      else if addr_bytes a > addr_bytes b then 1
      else bytes_Compare (addr_Zone a) (addr_Zone b))"

definition addr_less :: "netip_addr \<Rightarrow> netip_addr \<Rightarrow> bool" where
  "addr_less a b \<longleftrightarrow> addr_Compare a b < 0"

record netip_prefix =
  prefix_addr :: netip_addr
  prefix_bits :: nat

definition prefix_Contains :: "netip_prefix \<Rightarrow> netip_addr \<Rightarrow> bool" where
  "prefix_Contains p a \<longleftrightarrow>
     addr_Zone a = [] \<and> addr_bits a \<noteq> 0 \<and> addr_bits (prefix_addr p) = addr_bits a
     \<and> take (prefix_bits p) (byte_bits (addr_bytes (prefix_addr p)))
       = take (prefix_bits p) (byte_bits (addr_bytes a))"

section \<open>Parsing\<close>

text \<open>One IPv4 field: digits without a leading zero, at most 255.\<close>

definition parse_ipv4_field :: "string \<Rightarrow> nat option" where
  "parse_ipv4_field s =
     (if 1 < length s \<and> hd s = CHR ''0'' then None
      else case parse_digits s of None \<Rightarrow> None
           | Some n \<Rightarrow> if n \<le> 255 then Some n else None)"

fun parse_ipv4_list :: "string list \<Rightarrow> bytes option" where
  "parse_ipv4_list [] = Some []"
| "parse_ipv4_list (f # fs) =
     (case parse_ipv4_field f of None \<Rightarrow> None
      | Some n \<Rightarrow> map_option ((#) (byte n)) (parse_ipv4_list fs))"

definition parse_ipv4_fields :: "string \<Rightarrow> bytes option" where
  "parse_ipv4_fields s =
     (let fs = split_on CHR ''.'' s in if length fs = 4 then parse_ipv4_list fs else None)"

definition hex_run_value :: "string \<Rightarrow> nat" where
  "hex_run_value ds = foldl (\<lambda>v c. 16 * v + (case hex_value c of Some d \<Rightarrow> d | None \<Rightarrow> 0)) 0 ds"

definition is_hex :: "char \<Rightarrow> bool" where
  "is_hex c \<longleftrightarrow> hex_value c \<noteq> None"

text \<open>
  The loop over the colon-separated fields. Its first argument counts the fields still free,
  \<open>acc\<close> holds the bytes read and \<open>ell\<close> the position of the ellipsis.
\<close>

fun parse_ipv6_loop ::
  "nat \<Rightarrow> string \<Rightarrow> bytes \<Rightarrow> nat option \<Rightarrow> (string \<times> bytes \<times> nat option) option" where
  "parse_ipv6_loop 0 s acc ell = Some (s, acc, ell)"
| "parse_ipv6_loop (Suc k) s acc ell =
     (let ds = takeWhile is_hex s; rest = drop (length ds) s
      in if ds = [] \<or> 4 < length ds then None
         else if rest \<noteq> [] \<and> hd rest = CHR ''.'' then
           (if ell = None \<and> length acc \<noteq> 12 then None
            else if 16 < length acc + 4 then None
            else map_option (\<lambda>fs. ([], acc @ fs, ell)) (parse_ipv4_fields s))
         else
           let acc' = acc @ put_uint16 (hex_run_value ds)
           in case rest of
                [] \<Rightarrow> Some ([], acc', ell)
              | c # nxt \<Rightarrow>
                  if c \<noteq> CHR '':'' \<or> nxt = [] then None
                  else if hd nxt = CHR '':'' then
                    (if ell \<noteq> None then None
                     else if tl nxt = [] then Some ([], acc', Some (length acc'))
                     else parse_ipv6_loop k (tl nxt) acc' (Some (length acc')))
                  else parse_ipv6_loop k nxt acc' ell)"

definition finish_ipv6 :: "string \<times> bytes \<times> nat option \<Rightarrow> bytes option" where
  "finish_ipv6 = (\<lambda>(s, acc, ell).
     if s \<noteq> [] then None
     else if length acc < 16 then
       (case ell of None \<Rightarrow> None
        | Some e \<Rightarrow> Some (take e acc @ replicate (16 - length acc) (byte 0) @ drop e acc))
     else if ell \<noteq> None then None else Some acc)"

definition parse_ipv6 :: "string \<Rightarrow> netip_addr option" where
  "parse_ipv6 input =
     (let s = takeWhile (\<lambda>c. c \<noteq> CHR ''%'') input;
          after = drop (length s) input;
          zone = tl after
      in if after \<noteq> [] \<and> zone = [] then None
         else let z = (if after = [] then [] else zone);
                  lead = has_prefix s ''::'';
                  s' = (if lead then drop 2 s else s)
              in if lead \<and> s' = [] then Some (Addr6 (replicate 16 (byte 0)) z)
                 else case parse_ipv6_loop 8 s' [] (if lead then Some 0 else None) of
                        None \<Rightarrow> None
                      | Some r \<Rightarrow> map_option (\<lambda>bs. Addr6 bs z) (finish_ipv6 r))"

text \<open>\<^verbatim>\<open>netip.ParseAddr\<close> dispatches on the first dot, colon or percent sign.\<close>

fun parse_addr_kind :: "string \<Rightarrow> char option" where
  "parse_addr_kind [] = None"
| "parse_addr_kind (c # s) = (if c \<in> set ''.:%'' then Some c else parse_addr_kind s)"

definition ParseAddr :: "string \<Rightarrow> netip_addr option" where
  "ParseAddr s = (case parse_addr_kind s of
      None \<Rightarrow> None
    | Some c \<Rightarrow>
        if c = CHR ''.'' then map_option Addr4 (parse_ipv4_fields s)
        else if c = CHR '':'' then parse_ipv6 s
        else None)"

section \<open>Text form\<close>

fun join_with :: "string \<Rightarrow> string list \<Rightarrow> string" where
  "join_with sep [] = []"
| "join_with sep [w] = w"
| "join_with sep (w # v # ws) = w @ sep @ join_with sep (v # ws)"

definition ipv4_string :: "bytes \<Rightarrow> string" where
  "ipv4_string bs = join_with ''.'' (map (\<lambda>c. dec_digits (code c)) bs)"

fun be_groups :: "bytes \<Rightarrow> nat list" where
  "be_groups (a # b # rest) = (256 * code a + code b) # be_groups rest"
| "be_groups _ = []"

fun hex_digits :: "nat \<Rightarrow> string" where
  "hex_digits n = (if n < 16 then [hex_digit n] else hex_digits (n div 16) @ [hex_digit (n mod 16)])"

declare hex_digits.simps [simp del]

definition zero_run :: "nat list \<Rightarrow> nat" where
  "zero_run gs = length (takeWhile (\<lambda>g. g = 0) gs)"

text \<open>Start and length of the longest run of two or more zero groups, the first one on a tie.\<close>

definition zero_run_step :: "nat list \<Rightarrow> nat \<Rightarrow> (nat \<times> nat) option \<Rightarrow> (nat \<times> nat) option" where
  "zero_run_step gs i best =
     (let l = zero_run (drop i gs)
      in if 2 \<le> l \<and> l > (case best of None \<Rightarrow> 0 | Some b \<Rightarrow> snd b) then Some (i, l) else best)"

definition longest_zero_run :: "nat list \<Rightarrow> (nat \<times> nat) option" where
  "longest_zero_run gs = fold (zero_run_step gs) [0..<length gs] None"

definition ipv6_string :: "bytes \<Rightarrow> string" where
  "ipv6_string bs =
     (let gs = be_groups bs; put = (\<lambda>xs. join_with '':'' (map hex_digits xs))
      in case longest_zero_run gs of
           None \<Rightarrow> put gs
         | Some (i, l) \<Rightarrow> put (take i gs) @ ''::'' @ put (drop (i + l) gs))"

definition zone_suffix :: "string \<Rightarrow> string" where
  "zone_suffix z = (if z = [] then [] else CHR ''%'' # z)"

fun addr_String :: "netip_addr \<Rightarrow> string" where
  "addr_String AddrZero = ''invalid IP''"
| "addr_String (Addr4 bs) = ipv4_string bs"
| "addr_String (Addr6 bs z) =
     (if take 12 bs = mapped_prefix then ''::ffff:'' @ ipv4_string (drop 12 bs) @ zone_suffix z
      else ipv6_string bs @ zone_suffix z)"

section \<open>Parsing inverts the text form\<close>

lemma split_on_join:
  "ws \<noteq> [] \<Longrightarrow> (\<And>w. w \<in> set ws \<Longrightarrow> c \<notin> set w) \<Longrightarrow> split_on c (join_with [c] ws) = ws"
proof (induction "[c]" ws rule: join_with.induct)
  case 1
  then show ?case by simp
next
  case (2 w)
  then show ?case by (simp add: split_on_none)
next
  case (3 w v ws)
  then show ?case by (simp add: split_on_append)
qed

lemma dec_digits_no_special:
  "c \<in> set (dec_digits n) \<Longrightarrow> is_digit c"
  using dec_digits_is_digit [of n] by (auto simp: list_all_iff)

lemma is_digit_not_special [simp]:
  "\<not> is_digit CHR ''.''" "\<not> is_digit CHR '':''" "\<not> is_digit CHR ''%''"
  by (simp_all add: is_digit_def code_def)

lemma dec_digits_leading: "1 < length (dec_digits n) \<Longrightarrow> hd (dec_digits n) \<noteq> CHR ''0''"
proof (induction n rule: dec_digits.induct)
  case (1 n)
  show ?case
  proof (cases "n < 10")
    case True
    then show ?thesis using 1 by (simp add: dec_digits.simps [of n])
  next
    case False
    then have eq: "dec_digits n = dec_digits (n div 10) @ [digit_char (n mod 10)]"
      by (simp add: dec_digits.simps [of n])
    show ?thesis
    proof (cases "1 < length (dec_digits (n div 10))")
      case True
      then show ?thesis using "1.IH" False by (simp add: eq)
    next
      case small: False
      then have "n div 10 < 10"
        by (metis One_nat_def Suc_lessI dec_digits.simps dec_digits_neq_Nil length_append_singleton
            length_greater_0_conv not_less_eq zero_less_one)
      then have "dec_digits (n div 10) = [digit_char (n div 10)]" by (simp add: dec_digits.simps [of "n div 10"])
      moreover have "code CHR ''0'' = 48" by (simp add: code_def)
      moreover have "code (digit_char (n div 10)) \<noteq> 48"
        using \<open>n div 10 < 10\<close> False by simp
      ultimately show ?thesis using eq by auto
    qed
  qed
qed

lemma parse_ipv4_field_digits: "n \<le> 255 \<Longrightarrow> parse_ipv4_field (dec_digits n) = Some n"
  using dec_digits_leading [of n] by (auto simp: parse_ipv4_field_def)

lemma parse_ipv4_list_digits: "parse_ipv4_list (map (\<lambda>c. dec_digits (code c)) bs) = Some bs"
proof (induction bs)
  case Nil
  then show ?case by simp
next
  case (Cons c bs)
  have "code c \<le> 255" using code_less [of c] by linarith
  then show ?case using Cons by (simp add: parse_ipv4_field_digits)
qed

lemma parse_ipv4_string: "length bs = 4 \<Longrightarrow> parse_ipv4_fields (ipv4_string bs) = Some bs"
proof -
  assume len: "length bs = 4"
  have "split_on CHR ''.'' (ipv4_string bs) = map (\<lambda>c. dec_digits (code c)) bs"
    unfolding ipv4_string_def using len
    by (intro split_on_join) (auto dest: dec_digits_no_special)
  then show ?thesis using len by (simp add: parse_ipv4_fields_def parse_ipv4_list_digits)
qed

lemma parse_addr_kind_skip:
  "(\<And>c. c \<in> set s \<Longrightarrow> c \<notin> set ''.:%'') \<Longrightarrow> parse_addr_kind (s @ t) = parse_addr_kind t"
  by (induction s) auto

lemma ipv4_string_shape:
  assumes "length bs = 4"
  obtains n rest where "ipv4_string bs = dec_digits n @ CHR ''.'' # rest" "n < 256"
proof -
  obtain a b r where "bs = a # b # r" using assms by (cases bs; cases "tl bs") auto
  then have "ipv4_string bs = dec_digits (code a) @ CHR ''.'' # join_with ''.'' (map (\<lambda>c. dec_digits (code c)) (b # r))"
    by (simp add: ipv4_string_def)
  then show thesis using that code_less by blast
qed

lemma ParseAddr_ipv4: "length bs = 4 \<Longrightarrow> ParseAddr (ipv4_string bs) = Some (Addr4 bs)"
proof -
  assume len: "length bs = 4"
  obtain n rest where shape: "ipv4_string bs = dec_digits n @ CHR ''.'' # rest"
    using len by (rule ipv4_string_shape)
  have "parse_addr_kind (ipv4_string bs) = Some CHR ''.''"
    unfolding shape by (subst parse_addr_kind_skip) (auto dest: dec_digits_no_special)
  then show ?thesis by (simp add: ParseAddr_def parse_ipv4_string [OF len])
qed

text \<open>Hexadecimal groups.\<close>

lemma hex_digits_neq_Nil [simp]: "hex_digits n \<noteq> []"
  by (subst hex_digits.simps) simp

lemma hex_digits_is_hex: "c \<in> set (hex_digits n) \<Longrightarrow> is_hex c"
proof (induction n rule: hex_digits.induct)
  case (1 n)
  show ?case
  proof (cases "n < 16")
    case True
    then show ?thesis using 1 by (simp add: hex_digits.simps [of n] is_hex_def)
  next
    case False
    then show ?thesis using 1 by (auto simp: hex_digits.simps [of n] is_hex_def)
  qed
qed

lemma hex_run_value_snoc:
  "hex_run_value (s @ [c]) = 16 * hex_run_value s + (case hex_value c of Some d \<Rightarrow> d | None \<Rightarrow> 0)"
  by (simp add: hex_run_value_def)

lemma hex_run_value_digits [simp]: "hex_run_value (hex_digits n) = n"
proof (induction n rule: hex_digits.induct)
  case (1 n)
  then show ?case
    by (subst hex_digits.simps) (simp add: hex_run_value_snoc, simp add: hex_run_value_def)
qed

lemma length_hex_digits: "n < 16 ^ k \<Longrightarrow> 0 < k \<Longrightarrow> length (hex_digits n) \<le> k"
proof (induction k arbitrary: n)
  case 0
  then show ?case by simp
next
  case (Suc k)
  show ?case
  proof (cases "n < 16")
    case True
    then show ?thesis by (simp add: hex_digits.simps [of n])
  next
    case False
    then have "0 < k" using Suc.prems by (cases k) auto
    moreover have "n div 16 < 16 ^ k" using Suc.prems by (simp add: less_mult_imp_div_less mult.commute)
    ultimately have "length (hex_digits (n div 16)) \<le> k" using Suc.IH by simp
    then show ?thesis using False by (simp add: hex_digits.simps [of n])
  qed
qed

lemma is_hex_specials [simp]:
  "\<not> is_hex CHR '':''" "\<not> is_hex CHR ''.''" "\<not> is_hex CHR ''%''"
  by (simp_all add: is_hex_def hex_value_def is_digit_def code_def)

lemma takeWhile_hex_digits [simp]:
  "takeWhile is_hex (hex_digits n) = hex_digits n"
  "\<not> is_hex c \<Longrightarrow> takeWhile is_hex (hex_digits n @ c # s) = hex_digits n"
  using hex_digits_is_hex by (simp_all add: takeWhile_append2)

definition groups_text :: "nat list \<Rightarrow> string" where
  "groups_text gs = join_with '':'' (map hex_digits gs)"

definition groups_bytes :: "nat list \<Rightarrow> bytes" where
  "groups_bytes gs = concat (map put_uint16 gs)"

lemma length_groups_bytes [simp]: "length (groups_bytes gs) = 2 * length gs"
  by (induction gs) (simp_all add: groups_bytes_def put_uint16_def)

lemma groups_text_Cons:
  "groups_text (g # h # gs) = hex_digits g @ CHR '':'' # groups_text (h # gs)"
  by (simp add: groups_text_def)

lemma hd_hex_digits_not_colon [simp]: "hd (hex_digits n) \<noteq> CHR '':''"
  by (metis hd_in_set hex_digits_is_hex hex_digits_neq_Nil is_hex_specials(1))

lemma groups_text_nonempty: "gs \<noteq> [] \<Longrightarrow> groups_text gs \<noteq> [] \<and> hd (groups_text gs) \<noteq> CHR '':''"
  by (cases gs; cases "tl gs") (auto simp: groups_text_def)

text \<open>One field of the loop, given what follows it.\<close>

lemma parse_field_end:
  "g < 65536 \<Longrightarrow> parse_ipv6_loop (Suc k) (hex_digits g) acc ell = Some ([], acc @ put_uint16 g, ell)"
  using length_hex_digits [of g 4] by (simp add: Let_def)

lemma parse_field_more:
  "g < 65536 \<Longrightarrow> t \<noteq> [] \<Longrightarrow> hd t \<noteq> CHR '':'' \<Longrightarrow>
   parse_ipv6_loop (Suc k) (hex_digits g @ CHR '':'' # t) acc ell
     = parse_ipv6_loop k t (acc @ put_uint16 g) ell"
  using length_hex_digits [of g 4] by (simp add: Let_def)

lemma parse_field_ellipsis:
  "g < 65536 \<Longrightarrow>
   parse_ipv6_loop (Suc k) (hex_digits g @ CHR '':'' # CHR '':'' # t) acc None
     = (if t = [] then Some ([], acc @ put_uint16 g, Some (length acc + 2))
        else parse_ipv6_loop k t (acc @ put_uint16 g) (Some (length acc + 2)))"
  using length_hex_digits [of g 4] by (simp add: Let_def put_uint16_def)

lemma parse_groups:
  "gs \<noteq> [] \<Longrightarrow> list_all (\<lambda>g. g < 65536) gs \<Longrightarrow> length gs \<le> k \<Longrightarrow>
   parse_ipv6_loop k (groups_text gs) acc ell = Some ([], acc @ groups_bytes gs, ell)"
proof (induction gs arbitrary: k acc)
  case Nil
  then show ?case by simp
next
  case (Cons g gs)
  then obtain k' where k: "k = Suc k'" by (cases k) auto
  show ?case
  proof (cases gs)
    case Nil
    then show ?thesis using Cons k parse_field_end by (simp add: groups_text_def groups_bytes_def del: parse_ipv6_loop.simps)
  next
    case (Cons h hs)
    have "parse_ipv6_loop k (groups_text (g # gs)) acc ell
        = parse_ipv6_loop k' (groups_text gs) (acc @ put_uint16 g) ell"
      using Cons.prems groups_text_nonempty [of gs]
      unfolding k Cons groups_text_Cons by (intro parse_field_more) (auto simp: Cons)
    then show ?thesis using Cons.IH [of k' "acc @ put_uint16 g"] Cons.prems k Cons
      by (simp add: groups_bytes_def del: parse_ipv6_loop.simps)
  qed
qed

lemma parse_groups_ellipsis:
  "gs \<noteq> [] \<Longrightarrow> list_all (\<lambda>g. g < 65536) (gs @ hs) \<Longrightarrow> length gs + length hs \<le> k \<Longrightarrow>
   parse_ipv6_loop k (groups_text gs @ ''::'' @ groups_text hs) acc None
     = Some ([], acc @ groups_bytes (gs @ hs), Some (length acc + 2 * length gs))"
proof (induction gs arbitrary: k acc)
  case Nil
  then show ?case by simp
next
  case (Cons g gs)
  then obtain k' where k: "k = Suc k'" by (cases k) auto
  show ?case
  proof (cases gs)
    case Nil
    have "parse_ipv6_loop k (groups_text [g] @ ''::'' @ groups_text hs) acc None
      = (if groups_text hs = [] then Some ([], acc @ put_uint16 g, Some (length acc + 2))
        else parse_ipv6_loop k' (groups_text hs) (acc @ put_uint16 g) (Some (length acc + 2)))"
      using parse_field_ellipsis [of g k' "groups_text hs" acc] Cons.prems
      by (simp add: groups_text_def k del: parse_ipv6_loop.simps)
    moreover have "hs = [] \<longleftrightarrow> groups_text hs = []"
      using groups_text_nonempty [of hs] by (auto simp: groups_text_def)
    moreover have "hs \<noteq> [] \<Longrightarrow> parse_ipv6_loop k' (groups_text hs) (acc @ put_uint16 g) (Some (length acc + 2))
      = Some ([], (acc @ put_uint16 g) @ groups_bytes hs, Some (length acc + 2))"
      using Cons.prems Nil k by (intro parse_groups) auto
    ultimately show ?thesis using Nil by (auto simp: groups_bytes_def)
  next
    case (Cons h ts)
    have "parse_ipv6_loop k (groups_text (g # gs) @ ''::'' @ groups_text hs) acc None
        = parse_ipv6_loop k' (groups_text gs @ ''::'' @ groups_text hs) (acc @ put_uint16 g) None"
    proof -
      have "groups_text (g # gs) @ ''::'' @ groups_text hs
        = hex_digits g @ CHR '':'' # (groups_text gs @ ''::'' @ groups_text hs)"
        unfolding Cons groups_text_Cons by simp
      moreover have "groups_text gs \<noteq> []" "hd (groups_text gs) \<noteq> CHR '':''"
        using groups_text_nonempty [of gs] Cons by auto
      ultimately show ?thesis using Cons.prems unfolding k
        by (simp only:) (intro parse_field_more, auto)
    qed
    then show ?thesis using Cons.IH [of k' "acc @ put_uint16 g"] Cons.prems k Cons
      by (simp add: groups_bytes_def put_uint16_def del: parse_ipv6_loop.simps)
  qed
qed

lemma groups_bytes_append [simp]: "groups_bytes (gs @ hs) = groups_bytes gs @ groups_bytes hs"
  by (simp add: groups_bytes_def)

lemma groups_bytes_zeros: "groups_bytes (replicate l 0) = replicate (2 * l) (byte 0)"
  by (induction l) (simp_all add: groups_bytes_def put_uint16_def numeral_2_eq_2)

lemma put_uint16_group: "put_uint16 (256 * code a + code b) = [a, b]"
proof -
  have "byte (256 * code a + code b) = b"
    by (rule code_inj) (simp add: mod_add_eq)
  then show ?thesis by (simp add: put_uint16_def numeral_2_eq_2)
qed

lemma be_groups_facts:
  "even (length bs) \<Longrightarrow> groups_bytes (be_groups bs) = bs \<and> 2 * length (be_groups bs) = length bs
     \<and> list_all (\<lambda>g. g < 65536) (be_groups bs)"
proof (induction bs rule: be_groups.induct)
  case (1 a b rest)
  have "256 * code a + code b < 65536" using code_less [of a] code_less [of b] by linarith
  with 1 show ?case by (simp add: groups_bytes_def put_uint16_group)
qed (simp_all add: groups_bytes_def)

lemma zero_run_fold:
  "(\<forall>r. best = Some r \<longrightarrow> 2 \<le> snd r \<and> snd r = zero_run (drop (fst r) gs)) \<Longrightarrow>
   fold (zero_run_step gs) idx best = Some r \<Longrightarrow> 2 \<le> snd r \<and> snd r = zero_run (drop (fst r) gs)"
proof (induction idx arbitrary: best)
  case Nil
  then show ?case by (cases r) simp
next
  case (Cons i idx)
  show ?case
    by (rule Cons.IH [of "zero_run_step gs i best"])
      (use Cons.prems in \<open>auto simp: zero_run_step_def Let_def split: if_splits\<close>)
qed

lemma longest_zero_run_Some:
  "longest_zero_run gs = Some (i, l) \<Longrightarrow> 2 \<le> l \<and> l = zero_run (drop i gs)"
  using zero_run_fold [of None gs "[0..<length gs]" "(i, l)"] by (simp add: longest_zero_run_def)

lemma takeWhile_zero: "takeWhile (\<lambda>g. g = (0::nat)) gs = replicate (zero_run gs) 0"
  by (induction gs) (simp_all add: zero_run_def)

lemma zero_run_split:
  "l = zero_run (drop i gs) \<Longrightarrow> 2 \<le> l \<Longrightarrow>
   gs = take i gs @ replicate l 0 @ drop (i + l) gs \<and> i + l \<le> length gs"
proof -
  assume l: "l = zero_run (drop i gs)" and two: "2 \<le> l"
  have "drop i gs = takeWhile (\<lambda>g. g = 0) (drop i gs) @ dropWhile (\<lambda>g. g = 0) (drop i gs)"
    by (simp only: takeWhile_dropWhile_id)
  then have d: "drop i gs = replicate l 0 @ drop (i + l) gs"
    unfolding takeWhile_zero l [symmetric] dropWhile_eq_drop
    by (simp only: length_replicate drop_drop add.commute)
  have "l \<le> length gs - i"
    using length_takeWhile_le [of "\<lambda>g. g = 0" "drop i gs"] unfolding l zero_run_def by simp
  then have "i + l \<le> length gs" using two by arith
  then show ?thesis using append_take_drop_id [of i gs] unfolding d by simp
qed

lemma hex_text_no_special: "c \<in> set (groups_text gs) \<Longrightarrow> is_hex c \<or> c = CHR '':''"
proof (induction gs)
  case Nil
  then show ?case by (simp add: groups_text_def)
next
  case (Cons g gs)
  then show ?case by (cases gs) (auto simp: groups_text_def dest: hex_digits_is_hex)
qed

lemma ipv6_string_groups:
  "ipv6_string bs = (case longest_zero_run (be_groups bs) of
      None \<Rightarrow> groups_text (be_groups bs)
    | Some (i, l) \<Rightarrow> groups_text (take i (be_groups bs)) @ ''::'' @ groups_text (drop (i + l) (be_groups bs)))"
  by (simp add: ipv6_string_def groups_text_def Let_def split: option.split)

lemma ipv6_string_no_special: "c \<in> set (ipv6_string bs) \<Longrightarrow> is_hex c \<or> c = CHR '':''"
  by (auto simp: ipv6_string_groups dest: hex_text_no_special split: option.splits)

text \<open>The parser's core on the text of sixteen bytes.\<close>

definition parse_ipv6_core :: "string \<Rightarrow> bytes option" where
  "parse_ipv6_core s =
     (let lead = has_prefix s ''::''; s' = (if lead then drop 2 s else s)
      in if lead \<and> s' = [] then Some (replicate 16 (byte 0))
         else case parse_ipv6_loop 8 s' [] (if lead then Some 0 else None) of
                None \<Rightarrow> None
              | Some r \<Rightarrow> finish_ipv6 r)"

lemma parse_ipv6_zone:
  "CHR ''%'' \<notin> set s \<Longrightarrow>
   parse_ipv6 (s @ zone_suffix z) = map_option (\<lambda>bs. Addr6 bs z) (parse_ipv6_core s)"
proof -
  assume no: "CHR ''%'' \<notin> set s"
  have "takeWhile (\<lambda>c. c \<noteq> CHR ''%'') (s @ zone_suffix z) = s"
    using no by (induction s) (auto simp: zone_suffix_def)
  then show ?thesis
    by (auto simp: parse_ipv6_def parse_ipv6_core_def Let_def zone_suffix_def split: option.splits)
qed

lemma no_leading_ellipsis:
  "gs \<noteq> [] \<Longrightarrow> \<not> has_prefix (groups_text gs @ t) ''::''"
  using groups_text_nonempty [of gs] by (cases "groups_text gs") (auto simp: has_prefix_def)

lemma parse_ipv6_core_string: "length bs = 16 \<Longrightarrow> parse_ipv6_core (ipv6_string bs) = Some bs"
proof -
  assume len: "length bs = 16"
  define gs where "gs = be_groups bs"
  have gs: "groups_bytes gs = bs" "length gs = 8" "list_all (\<lambda>g. g < 65536) gs"
    using be_groups_facts [of bs] len by (auto simp: gs_def)
  show ?thesis
  proof (cases "longest_zero_run gs")
    case None
    then have "ipv6_string bs = groups_text gs" by (simp add: ipv6_string_groups gs_def)
    moreover have "parse_ipv6_loop 8 (groups_text gs) [] None = Some ([], bs, None)"
      using parse_groups [of gs 8 "[]" None] gs by (cases gs) auto
    moreover have "\<not> has_prefix (groups_text gs) ''::''"
      using no_leading_ellipsis [of gs "[]"] gs by (cases gs) auto
    ultimately show ?thesis using len by (simp add: parse_ipv6_core_def finish_ipv6_def Let_def)
  next
    case (Some r)
    then obtain i l where r: "longest_zero_run gs = Some (i, l)" by (cases r) auto
    define pre suf where "pre = take i gs" and "suf = drop (i + l) gs"
    have parts: "gs = pre @ replicate l 0 @ suf" and il: "i + l \<le> 8" "2 \<le> l"
      using longest_zero_run_Some [OF r] zero_run_split [of l i gs] gs by (auto simp: pre_def suf_def)
    have lens: "length pre = i" "length suf = 8 - (i + l)"
      using il gs by (auto simp: pre_def suf_def)
    have small: "list_all (\<lambda>g. g < 65536) (pre @ suf)" using gs(3) parts by (metis list_all_append)
    have txt_eq: "ipv6_string bs = groups_text pre @ ''::'' @ groups_text suf"
      using r by (simp add: ipv6_string_groups gs_def pre_def suf_def)
    have bs: "bs = groups_bytes pre @ replicate (2 * l) (byte 0) @ groups_bytes suf"
      using gs(1) parts by (metis groups_bytes_append groups_bytes_zeros)
    show ?thesis
    proof (cases "pre = []")
      case True
      show ?thesis
      proof (cases "suf = []")
        case True
        then have "l = 8" using \<open>pre = []\<close> lens il by auto
        then show ?thesis using \<open>pre = []\<close> True txt_eq bs
          by (simp add: parse_ipv6_core_def groups_text_def groups_bytes_def has_prefix_def Let_def)
      next
        case False
        have "parse_ipv6_loop 8 (groups_text suf) [] (Some 0) = Some ([], [] @ groups_bytes suf, Some 0)"
          using False small lens il by (intro parse_groups) auto
        moreover have "groups_text suf \<noteq> []" using groups_text_nonempty [OF False] by simp
        moreover have "16 - 2 * length suf = 2 * l" using lens il True by auto
        ultimately show ?thesis using True txt_eq bs lens il
          by (simp add: parse_ipv6_core_def groups_text_def [of "[]"] groups_bytes_def [of "[]"] has_prefix_def
              Let_def finish_ipv6_def del: parse_ipv6_loop.simps)
      qed
    next
      case False
      have "parse_ipv6_loop 8 (groups_text pre @ ''::'' @ groups_text suf) [] None
        = Some ([], [] @ groups_bytes (pre @ suf), Some (length ([] :: bytes) + 2 * length pre))"
        using False small lens il by (intro parse_groups_ellipsis) auto
      moreover have "16 - (2 * length pre + 2 * length suf) = 2 * l" using lens il by auto
      ultimately show ?thesis using False txt_eq bs lens il no_leading_ellipsis [OF False]
        by (simp add: parse_ipv6_core_def Let_def finish_ipv6_def del: parse_ipv6_loop.simps)
    qed
  qed
qed

lemma parse_ipv6_core_mapped:
  assumes "length v4 = 4"
  shows "parse_ipv6_core (''::ffff:'' @ ipv4_string v4) = Some (mapped_prefix @ v4)"
proof -
  obtain n rest where shape: "ipv4_string v4 = dec_digits n @ CHR ''.'' # rest" and n: "n < 256"
    using assms by (rule ipv4_string_shape)
  have hexdec: "is_hex c" if "c \<in> set (dec_digits n)" for c
    using dec_digits_no_special [OF that] by (simp add: is_hex_def hex_value_def)
  have tw: "takeWhile is_hex (ipv4_string v4) = dec_digits n"
    unfolding shape using hexdec by (simp add: takeWhile_append2)
  have "n div 10 div 10 < 10" using n by linarith
  then have len: "length (dec_digits n) \<le> 4"
    by (simp add: dec_digits.simps [of n] dec_digits.simps [of "n div 10"]
        dec_digits.simps [of "n div 10 div 10"])
  have "parse_ipv6_loop (Suc 6) (ipv4_string v4) (put_uint16 65535) (Some 0)
      = Some ([], put_uint16 65535 @ v4, Some 0)"
    using tw len shape parse_ipv4_string [OF assms]
    by (subst parse_ipv6_loop.simps) (simp add: Let_def put_uint16_def)
  moreover have "byte 102 = CHR ''f''" by code_simp
  then have "hex_digits 65535 = ''ffff''" by (simp add: hex_digits.simps hex_digit_def)
  moreover have "parse_ipv6_loop 8 (hex_digits 65535 @ CHR '':'' # ipv4_string v4) [] (Some 0)
      = parse_ipv6_loop (Suc 6) (ipv4_string v4) ([] @ put_uint16 65535) (Some 0)"
  proof -
    have "hd (ipv4_string v4) \<noteq> CHR '':''" "ipv4_string v4 \<noteq> []"
      unfolding shape using hexdec [of "hd (dec_digits n)"] by auto
    then show ?thesis using parse_field_more [of 65535 "ipv4_string v4" "Suc 6" "[]" "Some 0"]
      by (simp del: parse_ipv6_loop.simps)
  qed
  moreover have "put_uint16 65535 = replicate 2 (byte 255)"
    by (simp add: put_uint16_def numeral_2_eq_2 byte_def)
  ultimately show ?thesis using assms
    by (simp add: parse_ipv6_core_def has_prefix_def Let_def finish_ipv6_def mapped_prefix_def
        del: parse_ipv6_loop.simps)
qed

lemma dec_text_no_special: "c \<in> set (ipv4_string bs) \<Longrightarrow> is_digit c \<or> c = CHR ''.''"
proof (induction bs)
  case Nil
  then show ?case by (simp add: ipv4_string_def)
next
  case (Cons b bs)
  then show ?case by (cases bs) (auto simp: ipv4_string_def dest: dec_digits_no_special)
qed

lemma ipv6_string_kind: "length bs = 16 \<Longrightarrow> parse_addr_kind (ipv6_string bs @ t) = Some CHR '':''"
proof -
  assume len: "length bs = 16"
  have colon: "CHR '':'' \<in> set (ipv6_string bs)"
  proof -
    have "length (be_groups bs) = 8" using be_groups_facts [of bs] len by simp
    then obtain g h gs where "be_groups bs = g # h # gs" by (cases "be_groups bs"; cases "tl (be_groups bs)") auto
    then show ?thesis by (auto simp: ipv6_string_groups groups_text_Cons split: option.split)
  qed
  have "parse_addr_kind (s @ t) = Some CHR '':''"
    if "CHR '':'' \<in> set s" "\<And>c. c \<in> set s \<Longrightarrow> is_hex c \<or> c = CHR '':''" for s
    using that
  proof (induction s)
    case Nil
    then show ?case by simp
  next
    case (Cons c s)
    then have "c \<noteq> CHR ''.''" "c \<noteq> CHR ''%''" by force+
    then show ?case using Cons by auto
  qed
  then show ?thesis using colon ipv6_string_no_special by blast
qed

text \<open>
  Parsing the canonical text of an address gives the address back, for both families, mapped
  addresses and zones included.
\<close>

lemma ParseAddr_String:
  assumes "addr_wf a" "addr_IsValid a"
  shows "ParseAddr (addr_String a) = Some a"
proof (cases a)
  case AddrZero
  with assms show ?thesis by simp
next
  case (Addr4 bs)
  with assms show ?thesis by (simp add: ParseAddr_ipv4)
next
  case (Addr6 bs z)
  then have len: "length bs = 16" using assms by simp
  show ?thesis
  proof (cases "take 12 bs = mapped_prefix")
    case True
    have v4: "length (drop 12 bs) = 4" using len by simp
    have "parse_ipv6 ((''::ffff:'' @ ipv4_string (drop 12 bs)) @ zone_suffix z)
        = Some (Addr6 (mapped_prefix @ drop 12 bs) z)"
      using parse_ipv6_core_mapped [OF v4] by (subst parse_ipv6_zone) (auto dest: dec_text_no_special)
    then show ?thesis using Addr6 True by (simp add: ParseAddr_def) (metis append_take_drop_id)
  next
    case False
    have "CHR ''%'' \<notin> set (ipv6_string bs)" using ipv6_string_no_special by force
    then show ?thesis using Addr6 False len
      by (simp add: ParseAddr_def ipv6_string_kind parse_ipv6_zone parse_ipv6_core_string)
  qed
qed

lemma parse_ipv4_list_length: "parse_ipv4_list fs = Some bs \<Longrightarrow> length bs = length fs"
  by (induction fs arbitrary: bs) (auto split: option.splits)

lemma parse_ipv4_fields_length: "parse_ipv4_fields s = Some bs \<Longrightarrow> length bs = 4"
  by (auto simp: parse_ipv4_fields_def Let_def split: if_splits dest: parse_ipv4_list_length)

lemma parse_ipv6_loop_length:
  "parse_ipv6_loop k s acc ell = Some (s', acc', ell') \<Longrightarrow> length acc + 2 * k \<le> 16 \<Longrightarrow>
   (\<forall>e. ell = Some e \<longrightarrow> e \<le> length acc) \<Longrightarrow>
   length acc' \<le> 16 \<and> (\<forall>e. ell' = Some e \<longrightarrow> e \<le> length acc')"
proof (induction k s acc ell rule: parse_ipv6_loop.induct)
  case (1 s acc ell)
  then show ?case by auto
next
  case (2 k s acc ell)
  then show ?case
    by (cases ell) (auto simp: Let_def put_uint16_def dest: parse_ipv4_fields_length
        split: if_splits list.splits)
qed

lemma finish_ipv6_length:
  "finish_ipv6 (s, acc, ell) = Some bs \<Longrightarrow> length acc \<le> 16 \<Longrightarrow>
   (\<forall>e. ell = Some e \<longrightarrow> e \<le> length acc) \<Longrightarrow> length bs = 16"
  by (auto simp: finish_ipv6_def split: if_splits option.splits)

lemma parse_then_finish_length:
  "parse_ipv6_loop 8 s [] ell = Some (s', acc, ell') \<Longrightarrow> finish_ipv6 (s', acc, ell') = Some bs \<Longrightarrow>
   ell = None \<or> ell = Some 0 \<Longrightarrow> length bs = 16"
  using parse_ipv6_loop_length [of 8 s "[]" ell s' acc ell'] finish_ipv6_length [of s' acc ell' bs] by auto

lemma ParseAddr_wf: "ParseAddr s = Some a \<Longrightarrow> addr_wf a \<and> addr_IsValid a"
proof -
  assume parsed: "ParseAddr s = Some a"
  have six: "addr_wf a \<and> addr_IsValid a" if "parse_ipv6 s = Some a"
    using that parse_then_finish_length
    by (auto simp: parse_ipv6_def Let_def split: if_splits option.splits)
  show ?thesis using parsed six
    by (auto simp: ParseAddr_def split: option.splits if_splits dest: parse_ipv4_fields_length)
qed

section \<open>The order on addresses\<close>

interpretation addr_order: strict_total addr_less addr_wf
proof unfold_locales
  fix x y
  show "addr_less x y \<Longrightarrow> \<not> addr_less y x"
    by (auto simp: addr_less_def addr_Compare_def bytes_Compare_simps split: if_splits)
next
  fix x y z
  show "\<not> addr_less y x \<Longrightarrow> \<not> addr_less z y \<Longrightarrow> \<not> addr_less z x"
    by (auto simp: addr_less_def addr_Compare_def bytes_Compare_simps split: if_splits)
next
  fix x y
  show "\<not> addr_less x y \<Longrightarrow> \<not> addr_less y x \<Longrightarrow> x = y"
    by (cases x; cases y) (auto simp: addr_less_def addr_Compare_def bytes_Compare_simps split: if_splits)
qed

section \<open>Length of the text form\<close>

lemma hex_digits_le: "length (hex_digits n) \<le> Suc n"
proof (induction n rule: hex_digits.induct)
  case (1 n)
  show ?case
  proof (cases "n < 16")
    case True
    then show ?thesis by (simp add: hex_digits.simps)
  next
    case False
    then have "length (hex_digits n) \<le> Suc (Suc (n div 16))" using 1 by (subst hex_digits.simps) simp
    also have "\<dots> \<le> Suc n" using False by auto
    finally show ?thesis .
  qed
qed

lemma length_dec_digits: "length (dec_digits n) \<le> Suc n"
proof (induction n rule: dec_digits.induct)
  case (1 n)
  show ?case
  proof (cases "n < 10")
    case True
    then show ?thesis by (simp add: dec_digits.simps)
  next
    case False
    then have "length (dec_digits n) \<le> Suc (Suc (n div 10))" using 1 by (subst dec_digits.simps) simp
    also have "\<dots> \<le> Suc n" using False by auto
    finally show ?thesis .
  qed
qed

lemma length_join_with:
  "list_all (\<lambda>w. length w + length sep \<le> k) ws \<Longrightarrow> length (join_with sep ws) \<le> k * length ws"
  by (induction sep ws rule: join_with.induct) auto

lemma length_ipv4_string: "length (ipv4_string bs) \<le> 257 * length bs"
proof -
  have "list_all (\<lambda>w. length w + length ''.'' \<le> 257) (map (\<lambda>c. dec_digits (code c)) bs)"
  proof (simp add: list_all_iff, rule ballI)
    fix c
    have "length (dec_digits (code c)) \<le> Suc (code c)" by (rule length_dec_digits)
    then show "length (dec_digits (code c)) \<le> 256" using code_less [of c] by linarith
  qed
  from length_join_with [OF this] show ?thesis by (simp add: ipv4_string_def)
qed

lemma be_groups_bound: "list_all (\<lambda>g. g < 65536) (be_groups bs) \<and> length (be_groups bs) \<le> length bs"
proof (induction bs rule: be_groups.induct)
  case (1 a b rest)
  have "256 * code a + code b < 65536" using code_less [of a] code_less [of b] by linarith
  then show ?case using 1 by simp
qed auto

lemma length_groups_string:
  assumes "list_all (\<lambda>g. g < 65536) gs" "length gs \<le> 16"
  shows "length (join_with '':'' (map hex_digits gs)) \<le> 1048592"
proof -
  have "list_all (\<lambda>w. length w + length '':'' \<le> 65537) (map hex_digits gs)"
  proof (simp add: list_all_iff, rule ballI)
    fix g assume "g \<in> set gs"
    then show "length (hex_digits g) \<le> 65536"
      using assms(1) hex_digits_le [of g] by (fastforce simp: list_all_iff)
  qed
  from length_join_with [OF this] assms(2) show ?thesis by simp
qed

lemma length_ipv6_string:
  assumes "length bs = 16"
  shows "length (ipv6_string bs) \<le> 2097186"
proof -
  have gs: "list_all (\<lambda>g. g < 65536) (be_groups bs)" "length (be_groups bs) \<le> 16"
    using be_groups_bound [of bs] assms by auto
  have "length (join_with '':'' (map hex_digits (take i (be_groups bs)))) \<le> 1048592"
       "length (join_with '':'' (map hex_digits (drop i (be_groups bs)))) \<le> 1048592" for i
    using gs by (auto intro!: length_groups_string simp: list_all_iff) (meson in_set_takeD in_set_dropD)+
  from length_groups_string [OF gs] add_mono [OF this(1) this(2)]
  show ?thesis by (auto simp: ipv6_string_def Let_def split: option.splits)
qed

lemma length_addr_String:
  assumes "addr_wf a" "addr_Zone a = []"
  shows "length (addr_String a) < 2 ^ 32"
proof (cases a)
  case (Addr4 bs)
  then show ?thesis using assms length_ipv4_string [of bs] by auto
next
  case (Addr6 bs z)
  then show ?thesis
    using assms length_ipv6_string [of bs] length_ipv4_string [of "drop 12 bs"]
    by (auto simp: zone_suffix_def)
qed simp

end
