(* ===== verification/Endpoint_Address.thy ===== *)
theory Endpoint_Address
  imports NetIP
begin

text \<open>
  \<^verbatim>\<open>internal/endpoint/errors.go\<close> and \<^verbatim>\<open>internal/endpoint/address.go\<close>: the validation errors of the
  endpoint package, and the normalisation of hosts into canonical network addresses. The
  lemmas show that normalisation is idempotent and that the text of an address determines it.
\<close>

section \<open>Errors\<close>

datatype endpoint_error =
    ValidationError string string \<comment> \<open>field and problem\<close>
  | ConflictError string \<comment> \<open>logical endpoint ID\<close>

definition invalid :: "string \<Rightarrow> string \<Rightarrow> endpoint_error + 'a" where
  "invalid field problem = Inl (ValidationError field problem)"

section \<open>Addresses\<close>

datatype hostKind = hostInvalid | hostDNS | hostIPv4 | hostIPv6

fun hostKind_code :: "hostKind \<Rightarrow> nat" where
  "hostKind_code hostInvalid = 0"
| "hostKind_code hostDNS = 1"
| "hostKind_code hostIPv4 = 2"
| "hostKind_code hostIPv6 = 3"

record Address =
  address_host :: string
  address_port :: nat
  address_kind :: hostKind

text \<open>The checks inside the loop over one DNS label, from byte \<open>index\<close> on.\<close>

fun label_error :: "nat \<Rightarrow> nat \<Rightarrow> string \<Rightarrow> string option" where
  "label_error index n [] = None"
| "label_error index n (c # cs) =
     (let alphanumeric = is_lower c \<or> is_digit c
      in if \<not> alphanumeric \<and> c \<noteq> CHR ''-'' then Some ''must contain ASCII DNS labels''
         else if c = CHR ''-'' \<and> (index = 0 \<or> index = n - 1)
         then Some ''DNS labels must not start or end with a hyphen''
         else label_error (Suc index) n cs)"

fun labels_error :: "string list \<Rightarrow> string option" where
  "labels_error [] = None"
| "labels_error (label # rest) =
     (if length label = 0 \<or> length label > 63 then Some ''must contain valid DNS labels''
      else case label_error 0 (length label) label of
             Some problem \<Rightarrow> Some problem
           | None \<Rightarrow> labels_error rest)"

text \<open>What \<^verbatim>\<open>normalizeHost\<close> does after the bracket handling.\<close>

definition normalize_name :: "string \<Rightarrow> string \<Rightarrow> endpoint_error + string \<times> hostKind" where
  "normalize_name name field =
     (if contains_any name '':[]'' then invalid field ''must be a valid DNS name or IP address''
      else
        let host = (if has_suffix name ''.'' then trim_suffix name ''.'' else name)
        in case ParseAddr host of
             Some address \<Rightarrow>
               Inr (addr_String address, if addr_Is4 address then hostIPv4 else hostIPv6)
           | None \<Rightarrow>
               let lower = to_lower host
               in if length lower = 0 \<or> length lower > 253
                  then invalid field ''must satisfy DNS length limits''
                  else case labels_error (split_on CHR ''.'' lower) of
                         Some problem \<Rightarrow> invalid field problem
                       | None \<Rightarrow> Inr (lower, hostDNS))"

definition normalizeHost :: "string \<Rightarrow> string \<Rightarrow> endpoint_error + string \<times> hostKind" where
  "normalizeHost raw field =
     (if raw = [] then invalid field ''must not be empty''
      else if has_outer_space raw then invalid field ''must not contain surrounding whitespace''
      else
        let bracketed = has_prefix raw ''['' \<or> has_suffix raw '']''
        in if bracketed \<and> (length raw < 3 \<or> \<not> has_prefix raw ''['' \<or> \<not> has_suffix raw '']'')
           then invalid field ''has invalid IP address brackets''
           else
             let host = (if bracketed then butlast (tl raw) else raw)
             in case ParseAddr host of
                  Some address \<Rightarrow>
                    if addr_Zone address \<noteq> [] then invalid field ''IPv6 zones are not supported''
                    else if bracketed \<and> addr_Is4 address
                    then invalid field ''brackets are only valid for IPv6 addresses''
                    else Inr (addr_String address, if addr_Is4 address then hostIPv4 else hostIPv6)
                | None \<Rightarrow> normalize_name host field)"

definition NewAddress :: "string \<Rightarrow> int \<Rightarrow> endpoint_error + Address" where
  "NewAddress host port =
     and_then (normalizeHost host ''address.host'') (\<lambda>(normalized, kind).
       if port < 1 \<or> port > 65535 then invalid ''address.port'' ''must be between 1 and 65535''
       else Inr \<lparr>address_host = normalized, address_port = nat port, address_kind = kind\<rparr>)"

definition address_valid :: "Address \<Rightarrow> bool" where
  "address_valid a \<longleftrightarrow>
     address_host a \<noteq> [] \<and> address_port a \<noteq> 0 \<and> address_kind a \<noteq> hostInvalid"

fun decimalPort_loop :: "nat \<Rightarrow> string \<Rightarrow> string" where
  "decimalPort_loop port buffer =
     (if port = 0 then buffer else decimalPort_loop (port div 10) (digit_char (port mod 10) # buffer))"

declare decimalPort_loop.simps [simp del]

definition decimalPort :: "nat \<Rightarrow> string" where
  "decimalPort port = decimalPort_loop port []"

text \<open>\<^verbatim>\<open>net.JoinHostPort\<close>.\<close>

definition join_host_port :: "string \<Rightarrow> string \<Rightarrow> string" where
  "join_host_port host port =
     (if contains_any host '':%'' then ''['' @ host @ '']:'' @ port else host @ '':'' @ port)"

definition Address_String :: "Address \<Rightarrow> string" where
  "Address_String a =
     (if \<not> address_valid a then ''<invalid-address>''
      else join_host_port (address_host a) (decimalPort (address_port a)))"

section \<open>Canonical hosts\<close>

definition host_char :: "char \<Rightarrow> bool" where
  "host_char c \<longleftrightarrow> is_lower c \<or> is_digit c \<or> c \<in> set ''-.:''"

lemma char_codes [simp]:
  "code CHR ''-'' = 45" "code CHR ''.'' = 46" "code CHR '':'' = 58" "code CHR ''['' = 91"
  "code CHR '']'' = 93" "code CHR ''%'' = 37"
  by (simp_all add: code_def)

lemma host_char_range: "host_char c \<Longrightarrow> 33 \<le> code c \<and> code c \<le> 126"
  by (auto simp: host_char_def is_lower_def is_digit_def)

lemma host_char_not_bracket: "host_char c \<Longrightarrow> c \<noteq> CHR ''['' \<and> c \<noteq> CHR '']'' \<and> c \<noteq> CHR ''%''"
  by (auto simp: host_char_def is_lower_def is_digit_def)

lemma white_space_ends:
  "w \<in> set white_space \<Longrightarrow>
   w \<noteq> [] \<and> (code (hd w) < 33 \<or> 126 < code (hd w)) \<and> (code (last w) < 33 \<or> 126 < code (last w))"
  by (auto simp: white_space_def)

lemma has_prefix_hd: "p \<noteq> [] \<Longrightarrow> has_prefix s p \<Longrightarrow> s \<noteq> [] \<and> hd s = hd p"
  by (cases p; cases s) (auto simp: has_prefix_def)

lemma has_suffix_last: "p \<noteq> [] \<Longrightarrow> has_suffix s p \<Longrightarrow> s \<noteq> [] \<and> last s = last p"
  by (auto simp: has_suffix_def) (metis drop_eq_Nil last_drop linorder_not_less)

lemma has_prefix_in: "p \<noteq> [] \<Longrightarrow> has_prefix s p \<Longrightarrow> hd p \<in> set s"
  using has_prefix_hd [of p s] hd_in_set [of s] by simp

lemma has_suffix_in: "p \<noteq> [] \<Longrightarrow> has_suffix s p \<Longrightarrow> last p \<in> set s"
  using has_suffix_last [of p s] last_in_set [of s] by simp

lemma host_no_outer_space: "list_all host_char s \<Longrightarrow> \<not> has_outer_space s"
proof
  assume host: "list_all host_char s" and "has_outer_space s"
  then obtain w where w: "w \<in> set white_space" "has_prefix s w \<or> has_suffix s w"
    by (auto simp: has_outer_space_def list_ex_iff)
  note ends = white_space_ends [OF w(1)]
  from w(2) show False
  proof
    assume "has_prefix s w"
    then have "hd w \<in> set s" using has_prefix_in ends by blast
    then have "33 \<le> code (hd w) \<and> code (hd w) \<le> 126"
      using host by (intro host_char_range) (simp add: list_all_iff)
    then show False using ends by linarith
  next
    assume "has_suffix s w"
    then have "last w \<in> set s" using has_suffix_in ends by blast
    then have "33 \<le> code (last w) \<and> code (last w) \<le> 126"
      using host by (intro host_char_range) (simp add: list_all_iff)
    then show False using ends by linarith
  qed
qed

lemma host_not_bracketed:
  assumes "list_all host_char s"
  shows "\<not> has_prefix s ''['' \<and> \<not> has_suffix s '']''"
proof -
  have "CHR ''['' \<notin> set s" "CHR '']'' \<notin> set s"
    using assms host_char_not_bracket by (auto simp: list_all_iff)
  then show ?thesis
    using has_prefix_in [of "''[''" s] has_suffix_in [of "'']''" s] by auto
qed

lemma is_hex_canonical:
  "c \<in> set (hex_digits n) \<Longrightarrow> is_digit c \<or> is_lower c"
proof (induction n rule: hex_digits.induct)
  case (1 n)
  show ?case
  proof (cases "n < 16")
    case True
    then show ?thesis using 1 hex_digit_lower by (simp add: hex_digits.simps [of n])
  next
    case False
    then show ?thesis using 1 hex_digit_lower [of "n mod 16"] by (auto simp: hex_digits.simps [of n])
  qed
qed

lemma groups_text_host: "c \<in> set (groups_text gs) \<Longrightarrow> host_char c"
proof (induction gs)
  case Nil
  then show ?case by (simp add: groups_text_def)
next
  case (Cons g gs)
  then show ?case by (cases gs) (auto simp: groups_text_def host_char_def dest: is_hex_canonical)
qed

lemma host_char_literals [simp]: "host_char CHR ''f''" "host_char CHR '':''" "host_char CHR ''.''"
  by (simp_all add: host_char_def is_lower_def code_def)

lemma ipv6_string_host: "list_all host_char (ipv6_string bs)"
  by (auto simp: ipv6_string_groups list_all_iff dest: groups_text_host split: option.splits)

lemma ipv4_string_host: "list_all host_char (ipv4_string bs)"
  by (auto simp: list_all_iff host_char_def dest: dec_text_no_special)

lemma addr_String_host:
  "addr_IsValid a \<Longrightarrow> addr_Zone a = [] \<Longrightarrow> list_all host_char (addr_String a)"
  by (cases a) (simp_all add: zone_suffix_def ipv6_string_host ipv4_string_host)

text \<open>A canonical IP address is its own normal form.\<close>

lemma addr_String_nonempty: "addr_wf a \<Longrightarrow> addr_IsValid a \<Longrightarrow> addr_String a \<noteq> []"
  using ParseAddr_String [of a] by (auto simp: ParseAddr_def)

lemma normalizeHost_ip:
  assumes "addr_wf a" "addr_IsValid a" "addr_Zone a = []"
  shows "normalizeHost (addr_String a) field
    = Inr (addr_String a, if addr_Is4 a then hostIPv4 else hostIPv6)"
  using addr_String_host [OF assms(2,3)] addr_String_nonempty [OF assms(1,2)] ParseAddr_String [OF assms(1,2)]
    host_no_outer_space host_not_bracketed assms(3)
  by (simp add: normalizeHost_def Let_def)

text \<open>Names that passed the label checks.\<close>

definition dns_name :: "string \<Rightarrow> bool" where
  "dns_name h \<longleftrightarrow> h \<noteq> [] \<and> length h \<le> 253 \<and> labels_error (split_on CHR ''.'' h) = None \<and> ParseAddr h = None"

lemma label_error_chars:
  "label_error i n cs = None \<Longrightarrow> c \<in> set cs \<Longrightarrow> is_lower c \<or> is_digit c \<or> c = CHR ''-''"
  by (induction i n cs rule: label_error.induct) (auto simp: Let_def split: if_splits)

lemma labels_error_chars:
  "labels_error ls = None \<Longrightarrow> l \<in> set ls \<Longrightarrow>
   l \<noteq> [] \<and> length l \<le> 63 \<and> (\<forall>c \<in> set l. is_lower c \<or> is_digit c \<or> c = CHR ''-'')"
  by (induction ls rule: labels_error.induct) (auto split: if_splits option.splits dest: label_error_chars)

lemma split_on_chars: "c \<in> set s \<Longrightarrow> c = d \<or> (\<exists>w \<in> set (split_on d s). c \<in> set w)"
  by (induction d s rule: split_on.induct) (auto split: list.splits)

lemma split_on_snoc: "split_on d (s @ [d]) = split_on d s @ [[]]"
  by (induction d s rule: split_on.induct) (auto split: list.splits)

lemma dns_name_chars: "dns_name h \<Longrightarrow> c \<in> set h \<Longrightarrow> is_lower c \<or> is_digit c \<or> c = CHR ''-'' \<or> c = CHR ''.''"
  using split_on_chars [of c h "CHR ''.''"] labels_error_chars unfolding dns_name_def by blast

lemma dns_name_host: "dns_name h \<Longrightarrow> list_all host_char h"
  using dns_name_chars by (fastforce simp: list_all_iff host_char_def)

lemma dns_name_no_final_dot: "dns_name h \<Longrightarrow> \<not> has_suffix h ''.''"
proof
  assume dns: "dns_name h" and suf: "has_suffix h ''.''"
  then have "last h = CHR ''.''" "h \<noteq> []" using has_suffix_last by force+
  then have "h = butlast h @ [CHR ''.'']" by (metis append_butlast_last_id)
  then have "[] \<in> set (split_on CHR ''.'' h)" by (metis split_on_snoc in_set_conv_decomp)
  then show False using dns labels_error_chars unfolding dns_name_def by blast
qed

lemma host_char_fixed: "host_char c \<Longrightarrow> to_lower_char c = c \<and> code c \<noteq> 226 \<and> code c \<noteq> 196"
  by (auto simp: host_char_def to_lower_char_def is_upper_def is_lower_def is_digit_def)

lemma to_lower_id: "list_all host_char s \<Longrightarrow> to_lower s = s"
  by (induction s) (simp_all add: host_char_fixed)

lemma dns_name_no_colon: "labels_error (split_on CHR ''.'' h) = None \<Longrightarrow> CHR '':'' \<notin> set h"
proof
  assume ok: "labels_error (split_on CHR ''.'' h) = None" and "CHR '':'' \<in> set h"
  then obtain w where "w \<in> set (split_on CHR ''.'' h)" "CHR '':'' \<in> set w"
    using split_on_chars [of "CHR '':''" h "CHR ''.''"] by auto
  then have "is_lower CHR '':'' \<or> is_digit CHR '':'' \<or> CHR '':'' = CHR ''-''"
    using labels_error_chars [OF ok] by blast
  then show False by (simp add: is_lower_def is_digit_def)
qed

lemma normalizeHost_dns:
  assumes "dns_name h"
  shows "normalizeHost h field = Inr (h, hostDNS)"
proof -
  have host: "list_all host_char h" using assms by (rule dns_name_host)
  moreover have "CHR '':'' \<notin> set h" using assms dns_name_no_colon by (simp add: dns_name_def)
  ultimately have "\<not> contains_any h '':[]''"
    using host_char_not_bracket by (auto simp: contains_any_def list_ex_iff list_all_iff)
  then show ?thesis
    using assms host to_lower_id [OF host] host_no_outer_space [OF host] host_not_bracketed [OF host]
      dns_name_no_final_dot [OF assms]
    by (auto simp: normalizeHost_def normalize_name_def dns_name_def Let_def)
qed

text \<open>Lower-casing cannot turn a name into an IPv4 address.\<close>

lemma to_lower_digits:
  "list_all (\<lambda>c. is_digit c \<or> c = CHR ''.'') (to_lower s) \<Longrightarrow> to_lower s = s"
proof (induction s rule: to_lower.induct)
  case 1
  then show ?case by simp
next
  case (2 a s)
  have "\<not> is_digit CHR ''k''" "\<not> is_digit CHR ''i''" by (simp_all add: is_digit_def code_def)
  moreover have "\<not> is_upper a" if "is_digit (to_lower_char a) \<or> to_lower_char a = CHR ''.''"
  proof
    assume up: "is_upper a"
    then have "code (to_lower_char a) = code a + 32" by (simp add: to_lower_char_def is_upper_def)
    then show False using that up by (auto simp: is_upper_def is_digit_def)
  qed
  ultimately show ?case using 2 by (auto simp: to_lower_char_def split: if_splits)
qed

lemma parse_ipv4_field_digits_only: "parse_ipv4_field f = Some n \<Longrightarrow> list_all is_digit f"
  by (auto simp: parse_ipv4_field_def parse_digits_def split: if_splits option.splits)

lemma parse_ipv4_list_digits_only:
  "parse_ipv4_list fs = Some bs \<Longrightarrow> f \<in> set fs \<Longrightarrow> list_all is_digit f"
  by (induction fs arbitrary: bs) (auto split: option.splits dest: parse_ipv4_field_digits_only)

lemma parse_ipv4_chars: "parse_ipv4_fields s = Some bs \<Longrightarrow> list_all (\<lambda>c. is_digit c \<or> c = CHR ''.'') s"
  using split_on_chars [of _ s "CHR ''.''"] parse_ipv4_list_digits_only
  by (auto simp: parse_ipv4_fields_def Let_def list_all_iff split: if_splits) blast

lemma ParseAddr_no_colon:
  assumes "ParseAddr s = Some a" "CHR '':'' \<notin> set s"
  shows "\<exists>bs. a = Addr4 bs \<and> parse_ipv4_fields s = Some bs"
proof -
  have "parse_addr_kind s \<noteq> Some CHR '':''"
    using assms(2) by (induction s) auto
  then show ?thesis using assms(1) by (auto simp: ParseAddr_def split: option.splits if_splits)
qed

lemma ParseAddr_lower_None:
  assumes "ParseAddr s = None" "CHR '':'' \<notin> set (to_lower s)"
  shows "ParseAddr (to_lower s) = None"
proof (rule ccontr)
  assume "ParseAddr (to_lower s) \<noteq> None"
  then obtain a where a: "ParseAddr (to_lower s) = Some a" by auto
  then have "list_all (\<lambda>c. is_digit c \<or> c = CHR ''.'') (to_lower s)"
    using ParseAddr_no_colon [OF a assms(2)] parse_ipv4_chars by blast
  then have "to_lower s = s" by (rule to_lower_digits)
  then show False using a assms(1) by simp
qed

text \<open>What a successful normalisation returns: a canonical IP address, or a DNS name.\<close>

lemma normalize_name_result:
  assumes "normalize_name name field = Inr (h, k)"
  shows "(\<exists>a. addr_wf a \<and> addr_IsValid a \<and> addr_Zone a = [] \<and> h = addr_String a
            \<and> k = (if addr_Is4 a then hostIPv4 else hostIPv6))
    \<or> dns_name h \<and> k = hostDNS"
proof -
  define host where "host = (if has_suffix name ''.'' then trim_suffix name ''.'' else name)"
  have nocolon: "CHR '':'' \<notin> set host"
    using assms set_take_subset [of _ name]
    by (auto simp: normalize_name_def contains_any_def list_ex_iff host_def trim_suffix_def
        invalid_def split: if_splits)
  show ?thesis
  proof (cases "ParseAddr host")
    case (Some a)
    then have "addr_wf a \<and> addr_IsValid a" by (rule ParseAddr_wf)
    moreover have "addr_Zone a = []" using ParseAddr_no_colon [OF Some nocolon] by auto
    ultimately show ?thesis using assms Some
      by (auto simp: normalize_name_def host_def [symmetric] Let_def invalid_def split: if_splits)
  next
    case None
    then have h: "h = to_lower host" "k = hostDNS" "h \<noteq> []" "length h \<le> 253"
      "labels_error (split_on CHR ''.'' h) = None"
      using assms by (auto simp: normalize_name_def host_def [symmetric] Let_def invalid_def
          split: if_splits option.splits)
    then have "CHR '':'' \<notin> set h" using dns_name_no_colon by simp
    then have "dns_name h" using h ParseAddr_lower_None [OF None] by (simp add: dns_name_def)
    then show ?thesis using h by simp
  qed
qed

lemma normalizeHost_result:
  assumes "normalizeHost raw field = Inr (h, k)"
  shows "(\<exists>a. addr_wf a \<and> addr_IsValid a \<and> addr_Zone a = [] \<and> h = addr_String a
            \<and> k = (if addr_Is4 a then hostIPv4 else hostIPv6))
    \<or> dns_name h \<and> k = hostDNS"
proof -
  define host where "host = (if has_prefix raw ''['' \<or> has_suffix raw '']'' then butlast (tl raw) else raw)"
  show ?thesis
  proof (cases "ParseAddr host")
    case (Some a)
    then have "addr_wf a \<and> addr_IsValid a" by (rule ParseAddr_wf)
    then show ?thesis using assms Some
      by (auto simp: normalizeHost_def host_def [symmetric] Let_def invalid_def split: if_splits)
  next
    case None
    then have "normalize_name host field = Inr (h, k)" using assms
      by (auto simp: normalizeHost_def host_def [symmetric] Let_def invalid_def split: if_splits)
    then show ?thesis by (rule normalize_name_result)
  qed
qed

lemma normalizeHost_canonical:
  assumes "normalizeHost raw field = Inr (h, k)"
  shows "normalizeHost h field' = Inr (h, k)"
  using normalizeHost_result [OF assms] normalizeHost_ip normalizeHost_dns by auto

section \<open>Ports and the text of an address\<close>

lemma decimalPort_loop_digits:
  "0 < n \<Longrightarrow> decimalPort_loop n buffer = dec_digits n @ buffer"
proof (induction n arbitrary: buffer rule: dec_digits.induct)
  case (1 n)
  show ?case
  proof (cases "n < 10")
    case True
    then show ?thesis using 1
      by (simp add: decimalPort_loop.simps [of n] decimalPort_loop.simps [of 0] dec_digits.simps [of n])
  next
    case False
    then show ?thesis using 1 by (simp add: decimalPort_loop.simps [of n] dec_digits.simps [of n])
  qed
qed

lemma decimalPort_eq: "0 < n \<Longrightarrow> decimalPort n = dec_digits n"
  by (simp add: decimalPort_def decimalPort_loop_digits)

lemma NewAddress_Inr:
  "NewAddress host port = Inr a \<longleftrightarrow>
     (\<exists>h k. normalizeHost host ''address.host'' = Inr (h, k) \<and> 1 \<le> port \<and> port \<le> 65535
        \<and> a = \<lparr>address_host = h, address_port = nat port, address_kind = k\<rparr>)"
  by (auto simp: NewAddress_def and_then_Inr_iff invalid_def split: if_splits)

lemma normalizeHost_nonempty: "normalizeHost raw field = Inr (h, k) \<Longrightarrow> h \<noteq> [] \<and> k \<noteq> hostInvalid"
  using normalizeHost_result [of raw field h k] addr_String_nonempty by (auto simp: dns_name_def split: if_splits)

lemma normalizeHost_host_chars: "normalizeHost raw field = Inr (h, k) \<Longrightarrow> list_all host_char h"
  using normalizeHost_result [of raw field h k] addr_String_host dns_name_host by blast

lemma NewAddress_valid: "NewAddress host port = Inr a \<Longrightarrow> address_valid a \<and> address_port a < 65536"
  by (auto simp: NewAddress_Inr address_valid_def dest: normalizeHost_nonempty)

lemma normalizeHost_short:
  assumes "normalizeHost raw field = Inr (h, k)"
  shows "length h < 2 ^ 32"
  using normalizeHost_result [OF assms] length_addr_String by (auto simp: dns_name_def)

lemma last_colon_cancel:
  "CHR '':'' \<notin> set p \<Longrightarrow> CHR '':'' \<notin> set q \<Longrightarrow> x @ CHR '':'' # p = y @ CHR '':'' # q \<Longrightarrow> x = y \<and> p = q"
  by (auto simp: append_eq_append_conv2 Cons_eq_append_conv append_eq_Cons_conv)

lemma join_host_port_cancel:
  assumes hosts: "list_all host_char h" "list_all host_char h'" "h \<noteq> []" "h' \<noteq> []"
    and eq: "join_host_port h (dec_digits p) = join_host_port h' (dec_digits p')"
  shows "h = h' \<and> p = p'"
proof -
  define wrap where "wrap g = (if contains_any g '':%'' then ''['' @ g @ '']'' else g)" for g
  have join: "join_host_port g (dec_digits n) = wrap g @ CHR '':'' # dec_digits n" for g n
    by (simp add: join_host_port_def wrap_def)
  have digits: "CHR '':'' \<notin> set (dec_digits n)" for n
    using dec_digits_no_special by fastforce
  have w: "wrap h = wrap h'" and d: "dec_digits p = dec_digits p'"
    using last_colon_cancel [OF digits digits] eq unfolding join by blast+
  have "\<not> host_char CHR ''[''" using host_char_not_bracket by blast
  then have "h = h'" using w hosts by (auto simp: wrap_def split: if_splits)
  then show ?thesis using dec_digits_inj [OF d] by simp
qed

text \<open>
  C8. Addresses are canonical: what the constructor returns is valid, has a port of 16 bits, and
  is returned unchanged when its own host and port are normalised again, so the same network
  address never has two representations that survive re-parsing.
\<close>

theorem NewAddress_canonical:
  assumes "NewAddress host port = Inr a"
  shows "address_valid a \<and> address_port a < 65536
    \<and> NewAddress (address_host a) (int (address_port a)) = Inr a"
  using NewAddress_valid [OF assms] assms
  by (auto simp: NewAddress_Inr dest: normalizeHost_canonical)

theorem NewAddress_canonical_witness:
  "NewAddress ''A.io.'' 80
     = Inr \<lparr>address_host = ''a.io'', address_port = 80, address_kind = hostDNS\<rparr>
   \<and> NewAddress ''a.io'' 80
     = Inr \<lparr>address_host = ''a.io'', address_port = 80, address_kind = hostDNS\<rparr>"
proof -
  have "NewAddress ''A.io.'' 80
     = Inr \<lparr>address_host = ''a.io'', address_port = 80, address_kind = hostDNS\<rparr>"
    by code_simp
  then show ?thesis using NewAddress_canonical [of "''A.io.''" 80] by simp
qed

text \<open>
  C9. The printed form of an address identifies it: two addresses the constructor returned
  that print the same are the same address, so an IPv6 host can never be confused with a name
  and a port.
\<close>

theorem Address_String_injective:
  assumes "NewAddress host port = Inr a" "NewAddress host' port' = Inr b"
    and "Address_String a = Address_String b"
  shows "a = b"
proof -
  obtain h k h' k' where a: "normalizeHost host ''address.host'' = Inr (h, k)" "1 \<le> port"
      "a = \<lparr>address_host = h, address_port = nat port, address_kind = k\<rparr>"
    and b: "normalizeHost host' ''address.host'' = Inr (h', k')" "1 \<le> port'"
      "b = \<lparr>address_host = h', address_port = nat port', address_kind = k'\<rparr>"
    using assms(1,2) by (auto simp: NewAddress_Inr)
  have "join_host_port h (dec_digits (nat port)) = join_host_port h' (dec_digits (nat port'))"
    using assms(3) NewAddress_valid [OF assms(1)] NewAddress_valid [OF assms(2)] a b
    by (simp add: Address_String_def decimalPort_eq)
  then have eq: "h = h' \<and> nat port = nat port'"
    by (intro join_host_port_cancel)
      (use normalizeHost_host_chars normalizeHost_nonempty a b in blast)+
  moreover have "k = k'"
    using normalizeHost_canonical [OF a(1)] normalizeHost_canonical [OF b(1)] eq by (metis Pair_inject sum.inject(2))
  ultimately show ?thesis using a b by simp
qed

theorem Address_String_injective_witness:
  "Address_String \<lparr>address_host = ''a.io'', address_port = 80, address_kind = hostDNS\<rparr> = ''a.io:80''
   \<and> NewAddress ''A.io.'' 80 = NewAddress ''a.iO'' 80"
proof -
  have a: "NewAddress ''A.io.'' 80
      = Inr \<lparr>address_host = ''a.io'', address_port = 80, address_kind = hostDNS\<rparr>"
    and b: "NewAddress ''a.iO'' 80
      = Inr \<lparr>address_host = ''a.io'', address_port = 80, address_kind = hostDNS\<rparr>"
    by code_simp+
  have "Address_String \<lparr>address_host = ''a.io'', address_port = 80, address_kind = hostDNS\<rparr> = ''a.io:80''"
    by code_simp
  then show ?thesis using Address_String_injective [OF a b] a b by simp
qed

end
