(* ===== verification/Endpoint_Config.thy ===== *)
theory Endpoint_Config
  imports Endpoint_Address
begin

text \<open>
  \<^verbatim>\<open>internal/endpoint/configuration.go\<close> and \<^verbatim>\<open>internal/endpoint/advanced.go\<close>: credentials, transports,
  TLS, security and Hysteria2 options, and the connection configurations built from them. A
  pointer field is an option, \<^term>\<open>None\<close> for nil. The lemmas show that every constructor
  returns a well-formed value and that UUIDs are canonical.
\<close>

section \<open>Protocols and credentials\<close>

datatype Protocol = ProtocolUnknown | ProtocolVLESS | ProtocolTrojan | ProtocolVMess
  | ProtocolShadowsocks | ProtocolSOCKS5 | ProtocolHTTPProxy | ProtocolHysteria2

fun Protocol_String :: "Protocol \<Rightarrow> string" where
  "Protocol_String ProtocolVLESS = ''vless''"
| "Protocol_String ProtocolTrojan = ''trojan''"
| "Protocol_String ProtocolVMess = ''vmess''"
| "Protocol_String ProtocolShadowsocks = ''shadowsocks''"
| "Protocol_String ProtocolSOCKS5 = ''socks5''"
| "Protocol_String ProtocolHTTPProxy = ''http-proxy''"
| "Protocol_String ProtocolHysteria2 = ''hysteria2''"
| "Protocol_String ProtocolUnknown = ''unknown''"

fun Protocol_code :: "Protocol \<Rightarrow> nat" where
  "Protocol_code ProtocolUnknown = 0"
| "Protocol_code ProtocolVLESS = 1"
| "Protocol_code ProtocolTrojan = 2"
| "Protocol_code ProtocolVMess = 3"
| "Protocol_code ProtocolShadowsocks = 4"
| "Protocol_code ProtocolSOCKS5 = 5"
| "Protocol_code ProtocolHTTPProxy = 6"
| "Protocol_code ProtocolHysteria2 = 7"

record Credential =
  cred_protocol :: Protocol
  cred_secret :: "string option"
  cred_username :: string

text \<open>
  \<^verbatim>\<open>hex.Decode\<close> writes into a zeroed array of sixteen bytes; a shorter input leaves the rest
  of the array zero.
\<close>

definition canonicalUUID :: "string \<Rightarrow> endpoint_error + string" where
  "canonicalUUID raw =
     (if length raw \<noteq> 36 \<or> raw ! 8 \<noteq> CHR ''-'' \<or> raw ! 13 \<noteq> CHR ''-'' \<or> raw ! 18 \<noteq> CHR ''-''
         \<or> raw ! 23 \<noteq> CHR ''-''
      then invalid ''vless.user_id'' ''must be a hyphenated UUID''
      else
        let compact = filter (\<lambda>c. c \<noteq> CHR ''-'') raw
        in case hex_decode compact of
             None \<Rightarrow> invalid ''vless.user_id'' ''must be a hyphenated UUID''
           | Some prefix \<Rightarrow>
               let decoded = prefix @ replicate (16 - length prefix) (byte 0)
               in if list_all (\<lambda>c. c = byte 0) decoded
                  then invalid ''vless.user_id'' ''must not be the nil UUID''
                  else
                    let encoded = hex_encode decoded
                    in Inr (take 8 encoded @ ''-'' @ take 4 (drop 8 encoded) @ ''-''
                        @ take 4 (drop 12 encoded) @ ''-'' @ take 4 (drop 16 encoded) @ ''-''
                        @ take 12 (drop 20 encoded)))"

definition NewVLESSCredential :: "string \<Rightarrow> endpoint_error + Credential" where
  "NewVLESSCredential userID =
     and_then (canonicalUUID userID) (\<lambda>canonical.
       Inr \<lparr>cred_protocol = ProtocolVLESS, cred_secret = Some canonical, cred_username = []\<rparr>)"

definition NewTrojanCredential :: "string \<Rightarrow> endpoint_error + Credential" where
  "NewTrojanCredential password =
     (if password = [] then invalid ''trojan.password'' ''must not be empty''
      else if length password > 4096 then invalid ''trojan.password'' ''must not exceed 4096 bytes''
      else if \<not> utf8_valid password then invalid ''trojan.password'' ''must be valid UTF-8''
      else Inr \<lparr>cred_protocol = ProtocolTrojan, cred_secret = Some password, cred_username = []\<rparr>)"

definition NewVMessCredential :: "string \<Rightarrow> endpoint_error + Credential" where
  "NewVMessCredential userID =
     and_then (canonicalUUID userID) (\<lambda>canonical.
       Inr \<lparr>cred_protocol = ProtocolVMess, cred_secret = Some canonical, cred_username = []\<rparr>)"

text \<open>The messages contain an en dash, three bytes in UTF-8.\<close>

definition en_dash :: string where
  "en_dash = [byte 226, byte 128, byte 147]"

definition NewShadowsocksCredential :: "string \<Rightarrow> endpoint_error + Credential" where
  "NewShadowsocksCredential password =
     (if password = [] \<or> length password > 4096 \<or> \<not> utf8_valid password
      then invalid ''shadowsocks.password'' (''must be valid UTF-8 and 1'' @ en_dash @ ''4096 bytes'')
      else Inr \<lparr>cred_protocol = ProtocolShadowsocks, cred_secret = Some password, cred_username = []\<rparr>)"

definition control_separators :: string where
  "control_separators = [byte 0, byte 13, byte 10]"

definition NewProxyCredential :: "Protocol \<Rightarrow> string \<Rightarrow> string \<Rightarrow> endpoint_error + Credential" where
  "NewProxyCredential protocol username password =
     (if protocol \<noteq> ProtocolSOCKS5 \<and> protocol \<noteq> ProtocolHTTPProxy
      then invalid ''proxy.protocol'' ''must be SOCKS5 or HTTP proxy''
      else
        let maxPassword = (if protocol = ProtocolSOCKS5 then 255 else 4096)
        in if length username > 255 \<or> length password > maxPassword \<or> \<not> utf8_valid username
              \<or> \<not> utf8_valid password \<or> (username = []) \<noteq> (password = [])
              \<or> protocol = ProtocolHTTPProxy \<and> CHR '':'' \<in> set username
           then invalid ''proxy.authentication'' ''must be an empty pair or valid username and password''
           else if list_ex (\<lambda>value. contains_any value control_separators) [username, password]
           then invalid ''proxy.authentication'' ''must not contain control separators''
           else Inr \<lparr>cred_protocol = protocol, cred_secret = Some password, cred_username = username\<rparr>)"

definition NewHysteria2Credential :: "string \<Rightarrow> endpoint_error + Credential" where
  "NewHysteria2Credential password =
     (if password = [] \<or> length password > 4096 \<or> \<not> utf8_valid password
      then invalid ''hysteria2.password'' (''must be valid UTF-8 and 1'' @ en_dash @ ''4096 bytes'')
      else Inr \<lparr>cred_protocol = ProtocolHysteria2, cred_secret = Some password, cred_username = []\<rparr>)"

definition Credential_Reveal :: "Credential \<Rightarrow> string" where
  "Credential_Reveal c = (case cred_secret c of None \<Rightarrow> [] | Some value \<Rightarrow> value)"

definition Credential_valid :: "Credential \<Rightarrow> bool" where
  "Credential_valid c =
     (case cred_secret c of
        None \<Rightarrow> False
      | Some value \<Rightarrow>
          if cred_protocol c = ProtocolSOCKS5 \<or> cred_protocol c = ProtocolHTTPProxy
          then (cred_username c = []) = (value = [])
          else value \<noteq> [] \<and> cred_protocol c \<in> {ProtocolVLESS, ProtocolTrojan, ProtocolVMess,
                 ProtocolShadowsocks, ProtocolHysteria2})"

definition Credential_equal :: "Credential \<Rightarrow> Credential \<Rightarrow> bool" where
  "Credential_equal c other =
     (if \<not> Credential_valid c \<or> \<not> Credential_valid other \<or> cred_protocol c \<noteq> cred_protocol other
         \<or> length (Credential_Reveal c) \<noteq> length (Credential_Reveal other)
         \<or> length (cred_username c) \<noteq> length (cred_username other)
      then False
      else Credential_Reveal c = Credential_Reveal other \<and> cred_username c = cred_username other)"

section \<open>Transports\<close>

datatype TransportKind = TransportUnknown | TransportTCP | TransportWebSocket | TransportHTTP2
  | TransportHTTPUpgrade | TransportGRPC | TransportQUIC | TransportXHTTP

fun TransportKind_code :: "TransportKind \<Rightarrow> nat" where
  "TransportKind_code TransportUnknown = 0"
| "TransportKind_code TransportTCP = 1"
| "TransportKind_code TransportWebSocket = 2"
| "TransportKind_code TransportHTTP2 = 3"
| "TransportKind_code TransportHTTPUpgrade = 4"
| "TransportKind_code TransportGRPC = 5"
| "TransportKind_code TransportQUIC = 6"
| "TransportKind_code TransportXHTTP = 7"

fun TransportKind_String :: "TransportKind \<Rightarrow> string" where
  "TransportKind_String TransportTCP = ''tcp''"
| "TransportKind_String TransportWebSocket = ''websocket''"
| "TransportKind_String TransportHTTP2 = ''http2''"
| "TransportKind_String TransportHTTPUpgrade = ''httpupgrade''"
| "TransportKind_String TransportGRPC = ''grpc''"
| "TransportKind_String TransportQUIC = ''quic''"
| "TransportKind_String TransportXHTTP = ''xhttp''"
| "TransportKind_String TransportUnknown = ''unknown''"

record advancedTransport =
  at_path :: string
  at_host :: string
  at_service :: string
  at_mode :: string

record Transport =
  tr_kind :: TransportKind
  tr_webSocketPath :: "string option"
  tr_webSocketHost :: string
  tr_advanced :: "advancedTransport option"

definition xhttp_mode :: "string \<Rightarrow> bool" where
  "xhttp_mode mode \<longleftrightarrow> mode = ''stream-one'' \<or> mode = ''stream-up'' \<or> mode = ''packet-up''"

definition advancedTransport_valid :: "advancedTransport \<Rightarrow> TransportKind \<Rightarrow> bool" where
  "advancedTransport_valid t kind =
     (if kind = TransportHTTP2 \<or> kind = TransportHTTPUpgrade
      then at_path t \<noteq> [] \<and> at_service t = [] \<and> at_mode t = []
      else if kind = TransportGRPC
      then at_service t \<noteq> [] \<and> at_path t = [] \<and> at_host t = [] \<and> at_mode t = []
      else if kind = TransportXHTTP
      then at_path t \<noteq> [] \<and> at_service t = [] \<and> xhttp_mode (at_mode t)
      else if kind = TransportQUIC
      then at_path t = [] \<and> at_host t = [] \<and> at_service t = []
      else False)"

definition NewTCPTransport :: Transport where
  "NewTCPTransport = \<lparr>tr_kind = TransportTCP, tr_webSocketPath = None, tr_webSocketHost = [], tr_advanced = None\<rparr>"

definition has_control :: "string \<Rightarrow> bool" where
  "has_control path \<longleftrightarrow> list_ex (\<lambda>c. code c < 32 \<or> code c = 127) path"

definition NewWebSocketTransport :: "string \<Rightarrow> endpoint_error + Transport" where
  "NewWebSocketTransport path =
     (if path = [] \<or> hd path \<noteq> CHR ''/''
      then invalid ''transport.websocket.path'' ''must be explicit and start with a slash''
      else if length path > 2048 then invalid ''transport.websocket.path'' ''must not exceed 2048 bytes''
      else if \<not> utf8_valid path then invalid ''transport.websocket.path'' ''must be valid UTF-8''
      else if has_control path
      then invalid ''transport.websocket.path'' ''must not contain control characters''
      else Inr \<lparr>tr_kind = TransportWebSocket, tr_webSocketPath = Some path, tr_webSocketHost = [],
                tr_advanced = None\<rparr>)"

definition NewWebSocketTransportWithHost :: "string \<Rightarrow> string \<Rightarrow> endpoint_error + Transport" where
  "NewWebSocketTransportWithHost path host =
     and_then (NewWebSocketTransport path) (\<lambda>transport.
       if host \<noteq> [] then
         and_then (normalizeHost host ''transport.websocket.host'') (\<lambda>(normalized, _).
           Inr (transport\<lparr>tr_webSocketHost := normalized\<rparr>))
       else Inr transport)"

definition newHTTPTransport :: "TransportKind \<Rightarrow> string \<Rightarrow> string \<Rightarrow> endpoint_error + Transport" where
  "newHTTPTransport kind path host =
     (if path = [] \<or> hd path \<noteq> CHR ''/'' \<or> length path > 2048 \<or> \<not> utf8_valid path
      then invalid ''transport.path'' ''must be an explicit UTF-8 absolute path''
      else if has_control path then invalid ''transport.path'' ''must not contain control characters''
      else
        and_then
          (if host \<noteq> [] then and_then (normalizeHost host ''transport.host'') (\<lambda>(h, _). Inr h) else Inr host)
          (\<lambda>h. Inr \<lparr>tr_kind = kind, tr_webSocketPath = None, tr_webSocketHost = [],
               tr_advanced = Some \<lparr>at_path = path, at_host = h, at_service = [], at_mode = []\<rparr>\<rparr>))"

definition NewHTTP2Transport :: "string \<Rightarrow> string \<Rightarrow> endpoint_error + Transport" where
  "NewHTTP2Transport path host = newHTTPTransport TransportHTTP2 path host"

definition NewHTTPUpgradeTransport :: "string \<Rightarrow> string \<Rightarrow> endpoint_error + Transport" where
  "NewHTTPUpgradeTransport path host = newHTTPTransport TransportHTTPUpgrade path host"

definition NewXHTTPTransport :: "string \<Rightarrow> string \<Rightarrow> string \<Rightarrow> endpoint_error + Transport" where
  "NewXHTTPTransport path host mode =
     (if \<not> xhttp_mode mode then invalid ''transport.xhttp.mode'' ''is unsupported''
      else and_then (newHTTPTransport TransportXHTTP path host) (\<lambda>transport.
        Inr (transport\<lparr>tr_advanced := map_option (\<lambda>a. a\<lparr>at_mode := mode\<rparr>) (tr_advanced transport)\<rparr>)))"

definition NewGRPCTransport :: "string \<Rightarrow> endpoint_error + Transport" where
  "NewGRPCTransport service =
     (if service = [] \<or> length service > 1024 \<or> \<not> utf8_valid service
         \<or> contains_any service control_separators
      then invalid ''transport.grpc.service'' ''must be a nonempty bounded service name''
      else Inr \<lparr>tr_kind = TransportGRPC, tr_webSocketPath = None, tr_webSocketHost = [],
                tr_advanced = Some \<lparr>at_path = [], at_host = [], at_service = service, at_mode = []\<rparr>\<rparr>)"

definition NewQUICTransport :: Transport where
  "NewQUICTransport = \<lparr>tr_kind = TransportQUIC, tr_webSocketPath = None, tr_webSocketHost = [],
     tr_advanced = Some \<lparr>at_path = [], at_host = [], at_service = [], at_mode = []\<rparr>\<rparr>"

definition WebSocketPath :: "Transport \<Rightarrow> string" where
  "WebSocketPath t = (case tr_webSocketPath t of None \<Rightarrow> [] | Some path \<Rightarrow> path)"

definition Transport_Path :: "Transport \<Rightarrow> string" where
  "Transport_Path t = (case tr_advanced t of None \<Rightarrow> [] | Some a \<Rightarrow> at_path a)"

definition Transport_Host :: "Transport \<Rightarrow> string" where
  "Transport_Host t = (case tr_advanced t of None \<Rightarrow> [] | Some a \<Rightarrow> at_host a)"

definition Transport_Service :: "Transport \<Rightarrow> string" where
  "Transport_Service t = (case tr_advanced t of None \<Rightarrow> [] | Some a \<Rightarrow> at_service a)"

definition Transport_Mode :: "Transport \<Rightarrow> string" where
  "Transport_Mode t = (case tr_advanced t of None \<Rightarrow> [] | Some a \<Rightarrow> at_mode a)"

definition identityService :: "Transport \<Rightarrow> string" where
  "identityService t = (if tr_kind t = TransportXHTTP then Transport_Mode t else Transport_Service t)"

definition Transport_valid :: "Transport \<Rightarrow> bool" where
  "Transport_valid t \<longleftrightarrow>
     tr_kind t = TransportTCP \<and> tr_webSocketPath t = None \<and> tr_webSocketHost t = [] \<and> tr_advanced t = None
   \<or> tr_kind t = TransportWebSocket \<and> tr_webSocketPath t \<noteq> None \<and> WebSocketPath t \<noteq> [] \<and> tr_advanced t = None
   \<or> (case tr_advanced t of None \<Rightarrow> False
      | Some a \<Rightarrow> tr_webSocketPath t = None \<and> tr_webSocketHost t = [] \<and> advancedTransport_valid a (tr_kind t))"

definition Transport_equal :: "Transport \<Rightarrow> Transport \<Rightarrow> bool" where
  "Transport_equal t other \<longleftrightarrow>
     tr_kind t = tr_kind other \<and> WebSocketPath t = WebSocketPath other
     \<and> tr_webSocketHost t = tr_webSocketHost other \<and> tr_advanced t = tr_advanced other"

section \<open>TLS\<close>

record TLSConfig =
  tls_enabled :: bool
  tls_serverName :: string
  tls_insecureSkipVerify :: bool

definition DisabledTLS :: TLSConfig where
  "DisabledTLS = \<lparr>tls_enabled = False, tls_serverName = [], tls_insecureSkipVerify = False\<rparr>"

definition NewTLS :: "string \<Rightarrow> bool \<Rightarrow> endpoint_error + TLSConfig" where
  "NewTLS serverName insecureSkipVerify =
     and_then
       (if serverName \<noteq> [] then and_then (normalizeHost serverName ''tls.server_name'') (\<lambda>(h, _). Inr h)
        else Inr serverName)
       (\<lambda>name. Inr \<lparr>tls_enabled = True, tls_serverName = name, tls_insecureSkipVerify = insecureSkipVerify\<rparr>)"

section \<open>Reality, security and Hysteria2 options\<close>

record Reality =
  reality_publicKey :: string
  reality_shortID :: string

definition NewReality :: "string \<Rightarrow> string \<Rightarrow> endpoint_error + Reality" where
  "NewReality publicKey shortID =
     (case base64url_decode publicKey of
        None \<Rightarrow> invalid ''reality.public_key'' ''must be a canonical 32-byte base64url key''
      | Some decoded \<Rightarrow>
          if length decoded \<noteq> 32 \<or> base64url_encode decoded \<noteq> publicKey
          then invalid ''reality.public_key'' ''must be a canonical 32-byte base64url key''
          else if length shortID > 16 \<or> odd (length shortID)
          then invalid ''reality.short_id'' (''must contain 0'' @ en_dash @ ''8 hexadecimal bytes'')
          else if hex_decode shortID = None
          then invalid ''reality.short_id'' ''must be hexadecimal''
          else Inr \<lparr>reality_publicKey = publicKey, reality_shortID = to_lower shortID\<rparr>)"

record SecurityOptions =
  sec_alpn :: "string list"
  sec_fingerprint :: string
  sec_reality :: "Reality option"

definition no_security :: SecurityOptions where
  "no_security = \<lparr>sec_alpn = [], sec_fingerprint = [], sec_reality = None\<rparr>"

definition admitted_fingerprints :: "string list" where
  "admitted_fingerprints =
     [''chrome'', ''firefox'', ''safari'', ''ios'', ''android'', ''edge'', ''360'', ''qq'']"

text \<open>The loop over the ALPN names; \<open>seen\<close> holds the names before.\<close>

fun alpn_error :: "string list \<Rightarrow> string list \<Rightarrow> string option" where
  "alpn_error seen [] = None"
| "alpn_error seen (value # rest) =
     (if value = [] \<or> length value > 255 \<or> \<not> utf8_valid value \<or> value \<in> set seen
      then Some ''must contain distinct bounded protocol names''
      else if list_ex (\<lambda>c. code c < 33 \<or> code c > 126) value
      then Some ''must contain printable ASCII without spaces''
      else alpn_error (seen @ [value]) rest)"

definition NewSecurityOptions ::
  "string list \<Rightarrow> string \<Rightarrow> Reality option \<Rightarrow> endpoint_error + SecurityOptions" where
  "NewSecurityOptions alpn fingerprint reality =
     (if length alpn > 8 then invalid ''security.alpn'' ''too many protocol names''
      else case alpn_error [] alpn of
        Some problem \<Rightarrow> invalid ''security.alpn'' problem
      | None \<Rightarrow>
          if fingerprint \<noteq> [] \<and> fingerprint \<notin> set admitted_fingerprints
          then invalid ''security.fingerprint'' ''is not in the admitted common set''
          else if (case reality of None \<Rightarrow> False | Some r \<Rightarrow> reality_publicKey r = [] \<or> fingerprint = [])
          then invalid ''security.reality'' ''requires a public key and client fingerprint''
          else Inr \<lparr>sec_alpn = alpn, sec_fingerprint = fingerprint, sec_reality = reality\<rparr>)"

definition SecurityOptions_equal :: "SecurityOptions \<Rightarrow> SecurityOptions \<Rightarrow> bool" where
  "SecurityOptions_equal s other =
     (if sec_fingerprint s \<noteq> sec_fingerprint other \<or> length (sec_alpn s) \<noteq> length (sec_alpn other)
         \<or> (sec_reality s = None) \<noteq> (sec_reality other = None)
      then False
      else list_all2 (=) (sec_alpn s) (sec_alpn other)
        \<and> (sec_reality s = None \<or> sec_reality s = sec_reality other))"

datatype VLESSFlow = FlowNone | FlowVision

fun VLESSFlow_code :: "VLESSFlow \<Rightarrow> nat" where
  "VLESSFlow_code FlowNone = 0"
| "VLESSFlow_code FlowVision = 1"

fun VLESSFlow_String :: "VLESSFlow \<Rightarrow> string" where
  "VLESSFlow_String FlowVision = ''xtls-rprx-vision''"
| "VLESSFlow_String FlowNone = []"

record Hysteria2Options =
  hy_upMbps :: int
  hy_downMbps :: int
  hy_obfsPassword :: "string option"
  hy_portRanges :: "string list"

definition NewHysteria2Options :: "int \<Rightarrow> int \<Rightarrow> string \<Rightarrow> endpoint_error + Hysteria2Options" where
  "NewHysteria2Options upMbps downMbps salamanderPassword =
     (if upMbps < 0 \<or> downMbps < 0 \<or> upMbps > 100000 \<or> downMbps > 100000 \<or> (upMbps = 0) \<noteq> (downMbps = 0)
      then invalid ''hysteria2.bandwidth'' ''must be both zero or both positive and bounded''
      else if length salamanderPassword > 4096 \<or> \<not> utf8_valid salamanderPassword
      then invalid ''hysteria2.obfs'' ''must be bounded UTF-8''
      else Inr \<lparr>hy_upMbps = upMbps, hy_downMbps = downMbps,
                hy_obfsPassword = (if salamanderPassword \<noteq> [] then Some salamanderPassword else None),
                hy_portRanges = []\<rparr>)"

text \<open>One entry of the port list: its bounds, or the error the loop returns.\<close>

definition parse_port_entry :: "string \<Rightarrow> endpoint_error + int \<times> int" where
  "parse_port_entry entry =
     (let parts = split_on CHR '':'' entry
      in if length parts > 2 then invalid ''hysteria2.ports'' ''invalid range''
         else case atoi (parts ! 0) of
           None \<Rightarrow> invalid ''hysteria2.ports'' ''invalid port''
         | Some first \<Rightarrow>
             if first < 1 \<or> first > 65535 \<or> itoa first \<noteq> parts ! 0
             then invalid ''hysteria2.ports'' ''invalid port''
             else if length parts = 2 then
               (case atoi (parts ! 1) of
                  None \<Rightarrow> invalid ''hysteria2.ports'' ''invalid range''
                | Some final \<Rightarrow>
                    if final < first \<or> final > 65535 \<or> itoa final \<noteq> parts ! 1
                    then invalid ''hysteria2.ports'' ''invalid range''
                    else Inr (first, final))
             else Inr (first, first))"

definition port_entry_text :: "int \<times> int \<Rightarrow> string" where
  "port_entry_text = (\<lambda>(first, final). if final = first then itoa first else itoa first @ '':'' @ itoa final)"

fun port_loop :: "int \<Rightarrow> string list \<Rightarrow> endpoint_error + string list" where
  "port_loop ports [] = Inr []"
| "port_loop ports (entry # rest) =
     and_then (parse_port_entry entry) (\<lambda>(first, final).
       let ports' = ports + (final - first + 1)
       in if ports' > 256 then invalid ''hysteria2.ports'' ''too many destination ports''
          else and_then (port_loop ports' rest) (\<lambda>ranges. Inr (port_entry_text (first, final) # ranges)))"

definition NewHysteria2OptionsWithPorts ::
  "int \<Rightarrow> int \<Rightarrow> string \<Rightarrow> string list \<Rightarrow> endpoint_error + Hysteria2Options" where
  "NewHysteria2OptionsWithPorts upMbps downMbps salamanderPassword ranges =
     and_then (NewHysteria2Options upMbps downMbps salamanderPassword) (\<lambda>options.
       if ranges = [] \<or> length ranges > 16
       then invalid ''hysteria2.ports'' (''requires 1'' @ en_dash @ ''16 port entries'')
       else and_then (port_loop 0 ranges) (\<lambda>rs. Inr (options\<lparr>hy_portRanges := rs\<rparr>)))"

text \<open>
  The number \<^verbatim>\<open>Atoi\<close> returns whether or not it reports an error: 0 beside a syntax
  error and the nearest limit of the type beside a range error.
\<close>

definition atoi_value :: "string \<Rightarrow> int" where
  "atoi_value s =
     (let signed = (case s of c # r \<Rightarrow> c = CHR ''-'' \<or> c = CHR ''+'' | [] \<Rightarrow> False)
      in case parse_digits (if signed then tl s else s) of
           None \<Rightarrow> 0
         | Some n \<Rightarrow> if signed \<and> hd s = CHR ''-'' then max min_int64 (- int n) else min max_int64 (int n))"

definition entry_includes :: "nat \<Rightarrow> string \<Rightarrow> bool" where
  "entry_includes port entry =
     (let parts = split_on CHR '':'' entry;
          first = atoi_value (parts ! 0);
          final = (if length parts = 2 then atoi_value (parts ! 1) else first)
      in int port \<ge> first \<and> int port \<le> final)"

definition IncludesPort :: "Hysteria2Options \<Rightarrow> nat \<Rightarrow> bool" where
  "IncludesPort h port =
     (if hy_portRanges h = [] then True else list_ex (entry_includes port) (hy_portRanges h))"

definition RevealSalamanderPassword :: "Hysteria2Options \<Rightarrow> string" where
  "RevealSalamanderPassword h = (case hy_obfsPassword h of None \<Rightarrow> [] | Some value \<Rightarrow> value)"

section \<open>Connection configurations\<close>

record advancedConnection =
  adv_flow :: VLESSFlow
  adv_security :: SecurityOptions
  adv_hysteria :: "Hysteria2Options option"

record Configuration =
  cfg_protocol :: Protocol
  cfg_address :: Address
  cfg_credential :: Credential
  cfg_transport :: Transport
  cfg_tls :: TLSConfig
  cfg_method :: string
  cfg_advanced :: "advancedConnection option"

definition advancedConnection_valid :: "advancedConnection option \<Rightarrow> Configuration \<Rightarrow> bool" where
  "advancedConnection_valid adv c =
     (let protocol = cfg_protocol c; transport = cfg_transport c; tls = cfg_tls c
      in case adv of
        None \<Rightarrow> protocol \<noteq> ProtocolSOCKS5 \<and> protocol \<noteq> ProtocolHTTPProxy \<and> protocol \<noteq> ProtocolHysteria2
                  \<and> tr_advanced transport = None
      | Some a \<Rightarrow>
          let sec = adv_security a
          in if adv_flow a \<noteq> FlowNone \<and> (adv_flow a \<noteq> FlowVision \<or> protocol \<noteq> ProtocolVLESS
                 \<or> tr_kind transport \<noteq> TransportTCP \<or> \<not> tls_enabled tls) then False
             else if (sec_alpn sec \<noteq> [] \<or> sec_fingerprint sec \<noteq> [] \<or> sec_reality sec \<noteq> None)
                 \<and> \<not> tls_enabled tls then False
             else if sec_reality sec \<noteq> None \<and> (protocol \<noteq> ProtocolVLESS \<or> tls_insecureSkipVerify tls
                 \<or> tls_serverName tls = []) then False
             else if sec_reality sec \<noteq> None \<and> tr_kind transport \<noteq> TransportTCP then False
             else if tr_kind transport = TransportHTTP2 \<and> \<not> tls_enabled tls then False
             else if protocol = ProtocolTrojan \<and> tr_kind transport = TransportHTTP2 then False
             else if tr_kind transport = TransportXHTTP \<and> protocol \<noteq> ProtocolVLESS then False
             else if protocol = ProtocolSOCKS5 \<or> protocol = ProtocolHTTPProxy then
               tr_kind transport = TransportTCP \<and> (protocol = ProtocolHTTPProxy \<or> \<not> tls_enabled tls)
               \<and> adv_flow a = FlowNone \<and> adv_hysteria a = None \<and> sec_reality sec = None
               \<and> sec_fingerprint sec = [] \<and> sec_alpn sec = []
             else if protocol = ProtocolHysteria2 then
               tr_kind transport = TransportQUIC \<and> adv_hysteria a \<noteq> None \<and> adv_flow a = FlowNone
               \<and> sec_reality sec = None
             else adv_hysteria a = None \<and> tr_kind transport \<noteq> TransportQUIC)"

definition Configuration_valid :: "Configuration \<Rightarrow> bool" where
  "Configuration_valid c =
     (let protocol = cfg_protocol c; tls = cfg_tls c
      in if protocol \<notin> {ProtocolVLESS, ProtocolTrojan, ProtocolVMess, ProtocolShadowsocks, ProtocolSOCKS5,
              ProtocolHTTPProxy, ProtocolHysteria2} then False
         else if \<not> address_valid (cfg_address c) \<or> \<not> Credential_valid (cfg_credential c)
              \<or> cred_protocol (cfg_credential c) \<noteq> protocol \<or> \<not> Transport_valid (cfg_transport c) then False
         else if (protocol = ProtocolTrojan \<or> protocol = ProtocolHysteria2) \<and> \<not> tls_enabled tls then False
         else if protocol = ProtocolShadowsocks \<and> (tr_kind (cfg_transport c) \<noteq> TransportTCP \<or> tls_enabled tls)
         then False
         else if (protocol = ProtocolVMess \<or> protocol = ProtocolShadowsocks) \<and> cfg_method c = [] then False
         else if \<not> advancedConnection_valid (cfg_advanced c) c then False
         else \<not> tls_enabled tls \<or> tls_serverName tls \<noteq> [])"

definition default_server_name :: "TLSConfig \<Rightarrow> Address \<Rightarrow> TLSConfig" where
  "default_server_name tls address =
     (if tls_enabled tls \<and> tls_serverName tls = [] then tls\<lparr>tls_serverName := address_host address\<rparr> else tls)"

definition NewConfiguration ::
  "Protocol \<Rightarrow> Address \<Rightarrow> Credential \<Rightarrow> Transport \<Rightarrow> TLSConfig \<Rightarrow> endpoint_error + Configuration" where
  "NewConfiguration protocol address credential transport tls =
     (if protocol \<noteq> ProtocolVLESS \<and> protocol \<noteq> ProtocolTrojan then invalid ''protocol'' ''is not supported''
      else if \<not> address_valid address then invalid ''address'' ''must be constructed with NewAddress''
      else if \<not> Credential_valid credential \<or> cred_protocol credential \<noteq> protocol
      then invalid ''credential'' ''does not match the endpoint protocol''
      else if \<not> Transport_valid transport then invalid ''transport'' ''is not supported''
      else if protocol = ProtocolTrojan \<and> \<not> tls_enabled tls then invalid ''tls'' ''is required for Trojan''
      else
        let configuration = \<lparr>cfg_protocol = protocol, cfg_address = address, cfg_credential = credential,
              cfg_transport = transport, cfg_tls = default_server_name tls address, cfg_method = [],
              cfg_advanced = None\<rparr>
        in if \<not> Configuration_valid configuration
           then invalid ''configuration'' ''has contradictory connection options''
           else Inr configuration)"

definition newAdditionalConfiguration ::
  "Protocol \<Rightarrow> Address \<Rightarrow> Credential \<Rightarrow> Transport \<Rightarrow> TLSConfig \<Rightarrow> string \<Rightarrow> endpoint_error + Configuration" where
  "newAdditionalConfiguration protocol address credential transport tls mthd =
     (if \<not> address_valid address \<or> \<not> Credential_valid credential \<or> cred_protocol credential \<noteq> protocol
         \<or> \<not> Transport_valid transport
      then invalid ''configuration'' ''contains invalid connection fields''
      else
        let configuration = \<lparr>cfg_protocol = protocol, cfg_address = address, cfg_credential = credential,
              cfg_transport = transport, cfg_tls = default_server_name tls address, cfg_method = mthd,
              cfg_advanced = None\<rparr>
        in if \<not> Configuration_valid configuration
           then invalid ''configuration'' ''has contradictory connection options''
           else Inr configuration)"

definition vmess_methods :: "string list" where
  "vmess_methods = [''auto'', ''aes-128-gcm'', ''chacha20-poly1305'', ''none'']"

definition NewVMessConfiguration ::
  "Address \<Rightarrow> Credential \<Rightarrow> Transport \<Rightarrow> TLSConfig \<Rightarrow> string \<Rightarrow> endpoint_error + Configuration" where
  "NewVMessConfiguration address credential transport tls mthd =
     (if mthd \<notin> set vmess_methods then invalid ''vmess.security'' ''is unsupported''
      else newAdditionalConfiguration ProtocolVMess address credential transport tls mthd)"

definition shadowsocks_methods :: "string list" where
  "shadowsocks_methods = [''aes-128-gcm'', ''aes-256-gcm'', ''chacha20-ietf-poly1305'']"

definition NewShadowsocksConfiguration ::
  "Address \<Rightarrow> Credential \<Rightarrow> string \<Rightarrow> endpoint_error + Configuration" where
  "NewShadowsocksConfiguration address credential mthd =
     (if mthd \<notin> set shadowsocks_methods then invalid ''shadowsocks.method'' ''is unsupported''
      else newAdditionalConfiguration ProtocolShadowsocks address credential NewTCPTransport DisabledTLS mthd)"

definition newExtendedConfiguration ::
  "Protocol \<Rightarrow> Address \<Rightarrow> Credential \<Rightarrow> Transport \<Rightarrow> TLSConfig \<Rightarrow> SecurityOptions \<Rightarrow> VLESSFlow
     \<Rightarrow> Hysteria2Options option \<Rightarrow> string \<Rightarrow> endpoint_error + Configuration" where
  "newExtendedConfiguration protocol address credential transport tls sec flow hysteria mthd =
     (if \<not> address_valid address \<or> \<not> Credential_valid credential \<or> cred_protocol credential \<noteq> protocol
         \<or> \<not> Transport_valid transport
      then invalid ''configuration'' ''contains invalid connection fields''
      else
        let old = tr_advanced transport = None \<and> flow = FlowNone \<and> hysteria = None \<and> sec_alpn sec = []
              \<and> sec_fingerprint sec = [] \<and> sec_reality sec = None
        in if old \<and> (protocol = ProtocolVLESS \<or> protocol = ProtocolTrojan)
           then NewConfiguration protocol address credential transport tls
           else if old \<and> protocol = ProtocolVMess
           then NewVMessConfiguration address credential transport tls mthd
           else
             let c = \<lparr>cfg_protocol = protocol, cfg_address = address, cfg_credential = credential,
                   cfg_transport = transport, cfg_tls = default_server_name tls address, cfg_method = mthd,
                   cfg_advanced = Some \<lparr>adv_flow = flow, adv_security = sec, adv_hysteria = hysteria\<rparr>\<rparr>
             in if \<not> Configuration_valid c
                then invalid ''configuration'' ''has contradictory protocol, transport or security options''
                else Inr c)"

definition NewExtendedConfiguration ::
  "Protocol \<Rightarrow> Address \<Rightarrow> Credential \<Rightarrow> Transport \<Rightarrow> TLSConfig \<Rightarrow> SecurityOptions \<Rightarrow> VLESSFlow
     \<Rightarrow> Hysteria2Options option \<Rightarrow> endpoint_error + Configuration" where
  "NewExtendedConfiguration protocol address credential transport tls sec flow hysteria =
     newExtendedConfiguration protocol address credential transport tls sec flow hysteria []"

definition NewExtendedVMessConfiguration ::
  "Address \<Rightarrow> Credential \<Rightarrow> Transport \<Rightarrow> TLSConfig \<Rightarrow> SecurityOptions \<Rightarrow> string
     \<Rightarrow> endpoint_error + Configuration" where
  "NewExtendedVMessConfiguration address credential transport tls sec mthd =
     (if mthd \<notin> set vmess_methods then invalid ''vmess.security'' ''is unsupported''
      else newExtendedConfiguration ProtocolVMess address credential transport tls sec FlowNone None mthd)"

definition Configuration_Validate :: "Configuration \<Rightarrow> endpoint_error option" where
  "Configuration_Validate c =
     (if \<not> Configuration_valid c
      then Some (ValidationError ''configuration'' ''contains invalid connection semantics'') else None)"

definition WithAddress :: "Configuration \<Rightarrow> Address \<Rightarrow> endpoint_error + Configuration" where
  "WithAddress c address =
     (if \<not> Configuration_valid c \<or> \<not> address_valid address
      then invalid ''configuration.address'' ''is invalid''
      else Inr (c\<lparr>cfg_address := address\<rparr>))"

definition advancedConnection_equal :: "advancedConnection option \<Rightarrow> advancedConnection option \<Rightarrow> bool" where
  "advancedConnection_equal adv other =
     (case (adv, other) of
        (Some a, Some b) \<Rightarrow>
          if adv_flow a \<noteq> adv_flow b \<or> \<not> SecurityOptions_equal (adv_security a) (adv_security b) then False
          else (case (adv_hysteria a, adv_hysteria b) of
            (None, None) \<Rightarrow> True
          | (Some h, Some k) \<Rightarrow> hy_upMbps h = hy_upMbps k \<and> hy_downMbps h = hy_downMbps k
              \<and> RevealSalamanderPassword h = RevealSalamanderPassword k \<and> hy_portRanges h = hy_portRanges k
          | _ \<Rightarrow> False)
      | (None, None) \<Rightarrow> True
      | _ \<Rightarrow> False)"

definition Equivalent :: "Configuration \<Rightarrow> Configuration \<Rightarrow> bool" where
  "Equivalent c other \<longleftrightarrow>
     cfg_protocol c = cfg_protocol other \<and> cfg_address c = cfg_address other
     \<and> Credential_equal (cfg_credential c) (cfg_credential other)
     \<and> Transport_equal (cfg_transport c) (cfg_transport other)
     \<and> cfg_tls c = cfg_tls other \<and> cfg_method c = cfg_method other
     \<and> advancedConnection_equal (cfg_advanced c) (cfg_advanced other)"

definition Configuration_Flow :: "Configuration \<Rightarrow> VLESSFlow" where
  "Configuration_Flow c = (case cfg_advanced c of None \<Rightarrow> FlowNone | Some a \<Rightarrow> adv_flow a)"

definition Configuration_SecurityOptions :: "Configuration \<Rightarrow> SecurityOptions" where
  "Configuration_SecurityOptions c = (case cfg_advanced c of None \<Rightarrow> no_security | Some a \<Rightarrow> adv_security a)"

definition Configuration_Hysteria2 :: "Configuration \<Rightarrow> Hysteria2Options option" where
  "Configuration_Hysteria2 c = (case cfg_advanced c of None \<Rightarrow> None | Some a \<Rightarrow> adv_hysteria a)"

section \<open>Well-formed values\<close>

text \<open>
  What the constructors guarantee beyond \<^verbatim>\<open>valid\<close>: the bounds that make the canonical encoding
  unambiguous and the fields the validity check leaves open.
\<close>

definition short :: "string \<Rightarrow> bool" where
  "short s \<longleftrightarrow> length s < 2 ^ 32"

definition Address_wf :: "Address \<Rightarrow> bool" where
  "Address_wf a \<longleftrightarrow> address_valid a \<and> address_port a < 65536 \<and> short (address_host a)"

definition Credential_wf :: "Credential \<Rightarrow> bool" where
  "Credential_wf c \<longleftrightarrow> Credential_valid c \<and> short (Credential_Reveal c) \<and> short (cred_username c)
     \<and> (cred_protocol c \<noteq> ProtocolSOCKS5 \<and> cred_protocol c \<noteq> ProtocolHTTPProxy \<longrightarrow> cred_username c = [])"

definition Transport_wf :: "Transport \<Rightarrow> bool" where
  "Transport_wf t \<longleftrightarrow> Transport_valid t \<and> short (WebSocketPath t) \<and> short (tr_webSocketHost t)
     \<and> short (Transport_Path t) \<and> short (Transport_Host t) \<and> short (identityService t)
     \<and> (tr_kind t = TransportQUIC \<longrightarrow> Transport_Mode t = [])"

definition TLS_wf :: "TLSConfig \<Rightarrow> bool" where
  "TLS_wf t \<longleftrightarrow> short (tls_serverName t)"

definition Reality_wf :: "Reality \<Rightarrow> bool" where
  "Reality_wf r \<longleftrightarrow> reality_publicKey r \<noteq> [] \<and> short (reality_publicKey r) \<and> short (reality_shortID r)"

definition SecurityOptions_wf :: "SecurityOptions \<Rightarrow> bool" where
  "SecurityOptions_wf s \<longleftrightarrow> length (sec_alpn s) \<le> 8 \<and> list_all short (sec_alpn s) \<and> short (sec_fingerprint s)
     \<and> pred_option Reality_wf (sec_reality s)"

definition Hysteria2Options_wf :: "Hysteria2Options \<Rightarrow> bool" where
  "Hysteria2Options_wf h \<longleftrightarrow> 0 \<le> hy_upMbps h \<and> hy_upMbps h \<le> 100000 \<and> 0 \<le> hy_downMbps h
     \<and> hy_downMbps h \<le> 100000 \<and> pred_option (\<lambda>p. p \<noteq> [] \<and> short p) (hy_obfsPassword h)
     \<and> length (hy_portRanges h) \<le> 16 \<and> list_all short (hy_portRanges h)"

definition Configuration_wf :: "Configuration \<Rightarrow> bool" where
  "Configuration_wf c \<longleftrightarrow> Configuration_valid c \<and> Address_wf (cfg_address c) \<and> Credential_wf (cfg_credential c)
     \<and> Transport_wf (cfg_transport c) \<and> TLS_wf (cfg_tls c) \<and> short (cfg_method c)
     \<and> (cfg_protocol c \<noteq> ProtocolVMess \<and> cfg_protocol c \<noteq> ProtocolShadowsocks \<longrightarrow> cfg_method c = [])
     \<and> pred_option (\<lambda>a. SecurityOptions_wf (adv_security a)
           \<and> pred_option Hysteria2Options_wf (adv_hysteria a)) (cfg_advanced c)"

lemma short_le: "length s \<le> 4096 \<Longrightarrow> short s"
  by (simp add: short_def)

lemma short_Nil [simp]: "short []"
  by (simp add: short_def)

lemma NewAddress_wf: "NewAddress host port = Inr a \<Longrightarrow> Address_wf a"
  using NewAddress_valid [of host port a]
  by (auto simp: Address_wf_def NewAddress_Inr short_def dest: normalizeHost_short)

subsection \<open>Credentials\<close>

lemma hex_decode_length: "hex_decode s = Some bs \<Longrightarrow> length s = 2 * length bs"
  by (induction s arbitrary: bs rule: hex_decode.induct) (auto split: option.splits)

lemma uuid_compact_length:
  assumes "length raw = 36" "raw ! 8 = h" "raw ! 13 = h" "raw ! 18 = h" "raw ! 23 = h"
  shows "length (filter (\<lambda>c. c \<noteq> h) raw) \<le> 32"
proof -
  have "{i. i < length raw \<and> raw ! i \<noteq> h} \<subseteq> {0..<36} - {8, 13, 18, 23}" using assms by auto
  then have "card {i. i < length raw \<and> raw ! i \<noteq> h} \<le> card ({0..<36::nat} - {8, 13, 18, 23})"
    by (rule card_mono [rotated]) simp
  also have "\<dots> = 32" by (subst card_Diff_subset) auto
  finally show ?thesis by (simp add: length_filter_conv_card)
qed

lemma hex_digit_not_hyphen: "d < 16 \<Longrightarrow> hex_digit d \<noteq> CHR ''-''"
  using hex_digit_lower [of d] by (auto simp: is_digit_def is_lower_def)

lemma hex_encode_no_hyphen: "CHR ''-'' \<notin> set (hex_encode bs)"
proof -
  have "CHR ''-'' \<notin> set [hex_digit (code c div 16), hex_digit (code c mod 16)]" for c
    using hex_digit_not_hyphen [of "code c div 16"] hex_digit_not_hyphen [of "code c mod 16"]
      less_mult_imp_div_less [of "code c" 16 16] code_less [of c] by force
  then show ?thesis unfolding hex_encode_def by simp
qed

definition hyphenate :: "string \<Rightarrow> string" where
  "hyphenate e = take 8 e @ ''-'' @ take 4 (drop 8 e) @ ''-'' @ take 4 (drop 12 e) @ ''-'' @ take 4 (drop 16 e)
     @ ''-'' @ take 12 (drop 20 e)"

lemma hyphenate_shape:
  assumes "length e = 32"
  shows "length (hyphenate e) = 36 \<and> hyphenate e ! 8 = CHR ''-'' \<and> hyphenate e ! 13 = CHR ''-''
    \<and> hyphenate e ! 18 = CHR ''-'' \<and> hyphenate e ! 23 = CHR ''-''"
  using assms by (simp add: hyphenate_def nth_append)

lemma filter_hyphenate:
  assumes "length e = 32" "CHR ''-'' \<notin> set e"
  shows "filter (\<lambda>c. c \<noteq> CHR ''-'') (hyphenate e) = e"
proof -
  have "filter (\<lambda>c. c \<noteq> CHR ''-'') w = w" if "set w \<subseteq> set e" for w
    using that assms(2) by (auto simp: filter_id_conv)
  then have "filter (\<lambda>c. c \<noteq> CHR ''-'') (hyphenate e)
    = take 8 e @ take 4 (drop 8 e) @ take 4 (drop 12 e) @ take 4 (drop 16 e) @ take 12 (drop 20 e)"
    by (simp add: hyphenate_def set_take_subset set_drop_subset subset_trans [OF set_take_subset set_drop_subset])
  also have "\<dots> = e"
    using assms(1) take_add [of 8 4 e] take_add [of 12 4 e] take_add [of 16 4 e] take_add [of 20 12 e]
    by simp
  finally show ?thesis .
qed

lemma canonicalUUID_Inr:
  assumes "canonicalUUID raw = Inr u"
  obtains bs where "length bs = 16" "\<not> list_all (\<lambda>c. c = byte 0) bs" "u = hyphenate (hex_encode bs)"
proof -
  from assms obtain p where p: "length raw = 36" "raw ! 8 = CHR ''-''" "raw ! 13 = CHR ''-''" "raw ! 18 = CHR ''-''"
      "raw ! 23 = CHR ''-''" "hex_decode (filter (\<lambda>c. c \<noteq> CHR ''-'') raw) = Some p"
      "\<not> list_all (\<lambda>c. c = byte 0) (p @ replicate (16 - length p) (byte 0))"
      "u = hyphenate (hex_encode (p @ replicate (16 - length p) (byte 0)))"
    by (auto simp: canonicalUUID_def hyphenate_def Let_def invalid_def split: if_splits option.splits)
  have "2 * length p \<le> 32" using uuid_compact_length [OF p(1-5)] hex_decode_length [OF p(6)] by simp
  then show thesis using p(7,8) by (intro that [of "p @ replicate (16 - length p) (byte 0)"]) auto
qed

lemma canonicalUUID_hyphenate:
  assumes "length bs = 16" "\<not> list_all (\<lambda>c. c = byte 0) bs"
  shows "canonicalUUID (hyphenate (hex_encode bs)) = Inr (hyphenate (hex_encode bs))"
  using hyphenate_shape [of "hex_encode bs"] filter_hyphenate [OF _ hex_encode_no_hyphen, of bs] assms
  by (simp add: canonicalUUID_def hex_decode_encode Let_def) (simp add: hyphenate_def)

lemma canonicalUUID_canonical: "canonicalUUID raw = Inr u \<Longrightarrow> canonicalUUID u = Inr u \<and> length u = 36"
  by (erule canonicalUUID_Inr) (simp add: canonicalUUID_hyphenate hyphenate_shape)

lemma canonicalUUID_nonempty [simp]: "canonicalUUID raw \<noteq> Inr []"
  using canonicalUUID_canonical [of raw "[]"] by auto

lemma canonicalUUID_short: "canonicalUUID raw = Inr u \<Longrightarrow> short u"
  using canonicalUUID_canonical [of raw u] by (simp add: short_def)

lemmas credential_defs = NewVLESSCredential_def NewTrojanCredential_def NewVMessCredential_def
  NewShadowsocksCredential_def NewHysteria2Credential_def

lemma simple_credentials_wf:
  "NewVLESSCredential x = Inr c \<Longrightarrow> Credential_wf c"
  "NewVMessCredential x = Inr c \<Longrightarrow> Credential_wf c"
  "NewTrojanCredential x = Inr c \<Longrightarrow> Credential_wf c"
  "NewShadowsocksCredential x = Inr c \<Longrightarrow> Credential_wf c"
  "NewHysteria2Credential x = Inr c \<Longrightarrow> Credential_wf c"
  by (auto simp: credential_defs and_then_Inr_iff invalid_def Credential_wf_def Credential_valid_def
      Credential_Reveal_def intro: short_le canonicalUUID_short split: if_splits)

lemma NewProxyCredential_wf: "NewProxyCredential p x y = Inr c \<Longrightarrow> Credential_wf c"
  by (auto simp: NewProxyCredential_def invalid_def Let_def Credential_wf_def Credential_valid_def
      Credential_Reveal_def intro!: short_le split: if_splits)

lemmas credential_wf = simple_credentials_wf NewProxyCredential_wf

subsection \<open>Transports, TLS and options\<close>

lemmas transport_wf_defs = Transport_wf_def Transport_valid_def WebSocketPath_def Transport_Path_def
  Transport_Host_def Transport_Service_def Transport_Mode_def identityService_def
  advancedTransport_valid_def

lemma short_host: "normalizeHost raw field = Inr (h, k) \<Longrightarrow> short h"
  unfolding short_def by (rule normalizeHost_short)

lemma xhttp_mode_short: "xhttp_mode mode \<Longrightarrow> short mode"
  by (auto simp: xhttp_mode_def short_def)

lemma fixed_transports_wf: "Transport_wf NewTCPTransport" "Transport_wf NewQUICTransport"
  by (simp_all add: NewTCPTransport_def NewQUICTransport_def transport_wf_defs)

lemma NewWebSocketTransport_wf: "NewWebSocketTransport path = Inr t \<Longrightarrow> Transport_wf t"
  by (auto simp: NewWebSocketTransport_def invalid_def transport_wf_defs intro: short_le split: if_splits)

lemma NewWebSocketTransportWithHost_wf: "NewWebSocketTransportWithHost path host = Inr t \<Longrightarrow> Transport_wf t"
  by (auto simp: NewWebSocketTransportWithHost_def NewWebSocketTransport_def invalid_def and_then_Inr_iff
      transport_wf_defs short_def dest!: normalizeHost_short split: if_splits)

lemma newHTTPTransport_Inr:
  "newHTTPTransport kind path host = Inr t \<Longrightarrow>
   \<exists>h. t = \<lparr>tr_kind = kind, tr_webSocketPath = None, tr_webSocketHost = [],
      tr_advanced = Some \<lparr>at_path = path, at_host = h, at_service = [], at_mode = []\<rparr>\<rparr>
    \<and> path \<noteq> [] \<and> short path \<and> short h"
  by (auto simp: newHTTPTransport_def invalid_def and_then_Inr_iff short_def dest!: normalizeHost_short split: if_splits)

lemma http_transports_wf:
  "NewHTTP2Transport path host = Inr t \<Longrightarrow> Transport_wf t"
  "NewHTTPUpgradeTransport path host = Inr t \<Longrightarrow> Transport_wf t"
  by (auto simp: NewHTTP2Transport_def NewHTTPUpgradeTransport_def transport_wf_defs dest!: newHTTPTransport_Inr)

lemma NewXHTTPTransport_wf: "NewXHTTPTransport path host mode = Inr t \<Longrightarrow> Transport_wf t"
  by (auto simp: NewXHTTPTransport_def and_then_Inr_iff invalid_def transport_wf_defs xhttp_mode_short
      dest!: newHTTPTransport_Inr split: if_splits)

lemma NewGRPCTransport_wf: "NewGRPCTransport service = Inr t \<Longrightarrow> Transport_wf t"
  by (auto simp: NewGRPCTransport_def invalid_def transport_wf_defs intro: short_le split: if_splits)

lemmas transport_wf = fixed_transports_wf NewWebSocketTransport_wf NewWebSocketTransportWithHost_wf
  http_transports_wf NewXHTTPTransport_wf NewGRPCTransport_wf

lemma tls_wf: "TLS_wf DisabledTLS" "NewTLS name insecure = Inr t \<Longrightarrow> TLS_wf t"
  by (auto simp: DisabledTLS_def NewTLS_def TLS_wf_def and_then_Inr_iff intro: short_host split: if_splits)

lemma length_to_lower: "length (to_lower s) \<le> length s"
  by (induction s rule: to_lower.induct) auto

lemma length_group_bits: "length (group_bits fuel k bs) \<le> fuel"
  by (induction fuel k bs rule: group_bits.induct) (auto simp: Let_def)

lemma length_radix_encode: "length (radix_encode k alphabet bs) \<le> 8 * length bs"
  using length_group_bits [of "length (byte_bits bs)" k "byte_bits bs"] by (simp add: radix_encode_def Let_def)

lemma NewReality_wf:
  assumes "NewReality key sid = Inr r"
  shows "Reality_wf r"
proof -
  obtain d where d: "base64url_decode key = Some d" "length d = 32" "base64url_encode d = key" "length sid \<le> 16"
      "r = \<lparr>reality_publicKey = key, reality_shortID = to_lower sid\<rparr>"
    using assms by (auto simp: NewReality_def invalid_def split: option.splits if_splits)
  then have "key \<noteq> []" by (auto simp: base64url_decode_def strip_newlines_def)
  moreover have "length key \<le> 256"
    using length_radix_encode [of 6 base64url_alphabet d] d by (simp add: base64url_encode_def)
  moreover have "length (to_lower sid) \<le> 16" using length_to_lower [of sid] d(4) by simp
  ultimately show ?thesis using d(5) by (simp add: Reality_wf_def short_def)
qed

lemma alpn_error_None: "alpn_error seen alpn = None \<Longrightarrow> list_all short alpn"
  by (induction seen alpn rule: alpn_error.induct) (auto intro: short_le split: if_splits)

lemma admitted_fingerprints_short: "f \<in> set admitted_fingerprints \<Longrightarrow> short f"
  by (auto simp: admitted_fingerprints_def short_def)

lemma NewSecurityOptions_wf:
  "NewSecurityOptions alpn fingerprint reality = Inr s \<Longrightarrow> pred_option Reality_wf reality \<Longrightarrow> SecurityOptions_wf s"
  by (auto simp: NewSecurityOptions_def invalid_def SecurityOptions_wf_def
      intro: alpn_error_None admitted_fingerprints_short split: if_splits option.splits)

lemma no_security_wf: "SecurityOptions_wf no_security"
  by (simp add: no_security_def SecurityOptions_wf_def)

subsection \<open>Hysteria2 ports\<close>

lemma itoa_no_colon: "CHR '':'' \<notin> set (itoa i)"
proof -
  have "CHR '':'' \<notin> set (dec_digits n)" for n
    using dec_digits_is_digit [of n] by (auto simp: list_all_iff is_digit_def)
  then show ?thesis by (simp add: itoa_def)
qed

lemma length_itoa_port: "0 \<le> i \<Longrightarrow> i \<le> 65535 \<Longrightarrow> length (itoa i) \<le> 65536"
  using length_dec_digits [of "nat i"] by (simp add: itoa_def)

definition port_range :: "int \<times> int \<Rightarrow> bool" where
  "port_range = (\<lambda>(first, final). 1 \<le> first \<and> first \<le> final \<and> final \<le> 65535)"

lemma split_port_entry:
  "split_on CHR '':'' (port_entry_text (first, final)) = (if final = first then [itoa first] else [itoa first, itoa final])"
  by (simp add: port_entry_text_def split_on_none split_on_append itoa_no_colon)

lemma atoi_port: "0 \<le> i \<Longrightarrow> i \<le> 65535 \<Longrightarrow> atoi (itoa i) = Some i"
  by (simp add: atoi_itoa in_int64_def max_int64_def min_int64_def)

lemma atoi_value_port: "0 \<le> i \<Longrightarrow> i \<le> 65535 \<Longrightarrow> atoi_value (itoa i) = i"
  using hd_dec_digits_not_sign [of "nat i"]
  by (auto simp: atoi_value_def itoa_def Let_def max_int64_def split: list.split)

lemma parse_port_entry_text: "port_range r \<Longrightarrow> parse_port_entry (port_entry_text r) = Inr r"
  by (cases r) (simp add: parse_port_entry_def split_port_entry port_range_def atoi_port)

lemma parse_port_entry_range: "parse_port_entry e = Inr r \<Longrightarrow> port_range r"
  by (auto simp: parse_port_entry_def Let_def invalid_def port_range_def split: if_splits option.splits)

definition range_size :: "int \<times> int \<Rightarrow> int" where
  "range_size = (\<lambda>(first, final). final - first + 1)"

lemma port_loop_Inr:
  "port_loop n entries = Inr texts \<Longrightarrow>
   \<exists>rs. list_all port_range rs \<and> length rs = length entries \<and> texts = map port_entry_text rs
     \<and> (rs = [] \<or> n + sum_list (map range_size rs) \<le> 256)"
proof (induction entries arbitrary: n texts)
  case Nil
  then show ?case by simp
next
  case (Cons entry rest)
  from Cons.prems obtain r ts where r: "parse_port_entry entry = Inr r" "n + range_size r \<le> 256"
      "port_loop (n + range_size r) rest = Inr ts" "texts = port_entry_text r # ts"
    by (auto simp: and_then_Inr_iff Let_def invalid_def range_size_def split: if_splits)
  obtain rs where "list_all port_range rs" "length rs = length rest" "ts = map port_entry_text rs"
      "rs = [] \<or> n + range_size r + sum_list (map range_size rs) \<le> 256"
    using Cons.IH [OF r(3)] by blast
  then show ?case using parse_port_entry_range [OF r(1)] r(2,4) by (intro exI [of _ "r # rs"]) auto
qed

lemma port_loop_texts:
  "list_all port_range rs \<Longrightarrow> rs = [] \<or> n + sum_list (map range_size rs) \<le> 256 \<Longrightarrow>
   port_loop n (map port_entry_text rs) = Inr (map port_entry_text rs)"
proof (induction rs arbitrary: n)
  case Nil
  then show ?case by simp
next
  case (Cons r rs)
  have "0 \<le> sum_list (map range_size rs)"
    using Cons.prems(1) by (intro sum_list_nonneg) (auto simp: list_all_iff port_range_def range_size_def)
  then have "n + range_size r \<le> 256" using Cons.prems(2) by simp
  moreover have "port_loop (n + range_size r) (map port_entry_text rs) = Inr (map port_entry_text rs)"
    using Cons by (auto simp: add.assoc)
  ultimately show ?case
    using Cons.prems(1) by (cases r) (simp add: parse_port_entry_text and_then_def range_size_def)
qed

lemma entry_includes_text:
  "port_range r \<Longrightarrow> entry_includes port (port_entry_text r) \<longleftrightarrow> int port \<in> {fst r..snd r}"
  by (cases r) (simp add: entry_includes_def split_port_entry port_range_def atoi_value_port)

lemma IncludesPort_iff:
  "list_all port_range rs \<Longrightarrow> rs \<noteq> [] \<Longrightarrow> hy_portRanges h = map port_entry_text rs \<Longrightarrow>
   IncludesPort h port \<longleftrightarrow> (\<exists>r \<in> set rs. int port \<in> {fst r..snd r})"
  unfolding IncludesPort_def by (simp add: list_ex_iff list_all_iff entry_includes_text)

lemma card_ranges:
  "list_all port_range rs \<Longrightarrow>
   finite {p. \<exists>r \<in> set rs. int p \<in> {fst r..snd r}}
   \<and> int (card {p. \<exists>r \<in> set rs. int p \<in> {fst r..snd r}}) \<le> sum_list (map range_size rs)"
proof (induction rs)
  case Nil
  then show ?case by simp
next
  case (Cons r rs)
  let ?here = "{p. int p \<in> {fst r..snd r}}" and ?rest = "{p. \<exists>q \<in> set rs. int p \<in> {fst q..snd q}}"
  have pr: "1 \<le> fst r" "fst r \<le> snd r" using Cons.prems by (auto simp: port_range_def split: prod.splits)
  have here: "?here = {nat (fst r)..nat (snd r)}" using pr by auto
  have split: "{p. \<exists>q \<in> set (r # rs). int p \<in> {fst q..snd q}} = ?here \<union> ?rest" by auto
  have "int (card ?here) = range_size r" using pr unfolding here by (auto simp: range_size_def split: prod.splits)
  moreover have "finite ?rest" "int (card ?rest) \<le> sum_list (map range_size rs)" using Cons by auto
  moreover have "finite ?here" unfolding here by simp
  ultimately show ?case unfolding split using card_Un_le [of ?here ?rest] by simp
qed

lemma NewHysteria2Options_wf: "NewHysteria2Options up down password = Inr h \<Longrightarrow> Hysteria2Options_wf h"
  by (auto simp: NewHysteria2Options_def invalid_def Hysteria2Options_wf_def short_def split: if_splits)

lemma port_entry_short: "port_range r \<Longrightarrow> short (port_entry_text r)"
  using length_itoa_port [of "fst r"] length_itoa_port [of "snd r"]
  by (cases r) (auto simp: port_range_def port_entry_text_def short_def)

lemma NewHysteria2OptionsWithPorts_Inr:
  assumes "NewHysteria2OptionsWithPorts up down password ranges = Inr h"
  obtains h0 rs where "NewHysteria2Options up down password = Inr h0" "ranges \<noteq> []" "length ranges \<le> 16"
    "list_all port_range rs" "length rs = length ranges" "sum_list (map range_size rs) \<le> 256"
    "h = h0\<lparr>hy_portRanges := map port_entry_text rs\<rparr>"
proof -
  from assms obtain h0 ts where h0: "NewHysteria2Options up down password = Inr h0" "ranges \<noteq> []"
      "length ranges \<le> 16" "port_loop 0 ranges = Inr ts" "h = h0\<lparr>hy_portRanges := ts\<rparr>"
    by (auto simp: NewHysteria2OptionsWithPorts_def and_then_Inr_iff invalid_def split: if_splits)
  from port_loop_Inr [OF this(4)] h0 that show thesis by force
qed

lemma NewHysteria2OptionsWithPorts_wf:
  assumes "NewHysteria2OptionsWithPorts up down password ranges = Inr h"
  shows "Hysteria2Options_wf h"
  using assms
proof (rule NewHysteria2OptionsWithPorts_Inr)
  fix h0 rs
  assume "NewHysteria2Options up down password = Inr h0" "list_all port_range rs" "length rs = length ranges"
    "length ranges \<le> 16" "h = h0\<lparr>hy_portRanges := map port_entry_text rs\<rparr>"
  then show ?thesis
    using NewHysteria2Options_wf [of up down password h0] port_entry_short
    by (auto simp: Hysteria2Options_wf_def list_all_iff)
qed

text \<open>
  C6. Hysteria2 port hopping stays inside its limit: an accepted port list names at least one
  and at most 256 destination ports, all of them proper port numbers, and the stored ranges are
  canonical, since giving them back to the constructor reproduces the same options.
\<close>

theorem hysteria2_ports_bounded:
  assumes "NewHysteria2OptionsWithPorts up down password ranges = Inr h"
  shows "finite {p. IncludesPort h p} \<and> {p. IncludesPort h p} \<noteq> {} \<and> card {p. IncludesPort h p} \<le> 256
    \<and> {p. IncludesPort h p} \<subseteq> {1..65535}
    \<and> NewHysteria2OptionsWithPorts up down password (hy_portRanges h) = Inr h"
proof -
  from assms obtain h0 rs where rs: "NewHysteria2Options up down password = Inr h0" "ranges \<noteq> []"
    "length ranges \<le> 16" "list_all port_range rs" "length rs = length ranges"
    "sum_list (map range_size rs) \<le> 256" "h = h0\<lparr>hy_portRanges := map port_entry_text rs\<rparr>"
    by (rule NewHysteria2OptionsWithPorts_Inr)
  have "rs \<noteq> []" using rs(2,5) by auto
  have ports: "{p. IncludesPort h p} = {p. \<exists>r \<in> set rs. int p \<in> {fst r..snd r}}"
    using IncludesPort_iff [OF rs(4) \<open>rs \<noteq> []\<close>, of h] rs(7) by simp
  obtain r where r: "r \<in> set rs" using \<open>rs \<noteq> []\<close> by (cases rs) auto
  then have "1 \<le> fst r" "fst r \<le> snd r" using rs(4) by (auto simp: list_all_iff port_range_def)
  then have "nat (fst r) \<in> {p. \<exists>r \<in> set rs. int p \<in> {fst r..snd r}}" using r by auto
  moreover have "{p. \<exists>r \<in> set rs. int p \<in> {fst r..snd r}} \<subseteq> {1..65535}"
    using rs(4) by (fastforce simp: list_all_iff port_range_def)
  moreover have "NewHysteria2OptionsWithPorts up down password (hy_portRanges h) = Inr h"
    using rs port_loop_texts [of rs 0] by (auto simp: NewHysteria2OptionsWithPorts_def and_then_def)
  moreover have "int (card {p. \<exists>r \<in> set rs. int p \<in> {fst r..snd r}}) \<le> 256"
    using card_ranges [OF rs(4)] rs(6) by linarith
  ultimately show ?thesis using card_ranges [OF rs(4)] unfolding ports by (intro conjI) (blast | simp)+
qed

theorem hysteria2_ports_bounded_witness:
  "NewHysteria2OptionsWithPorts 0 0 [] [''443'', ''8000:8100'']
     = Inr \<lparr>hy_upMbps = 0, hy_downMbps = 0, hy_obfsPassword = None, hy_portRanges = [''443'', ''8000:8100'']\<rparr>
   \<and> card {p. IncludesPort \<lparr>hy_upMbps = 0, hy_downMbps = 0, hy_obfsPassword = None,
        hy_portRanges = [''443'', ''8000:8100'']\<rparr> p} \<le> 256"
proof -
  have "NewHysteria2OptionsWithPorts 0 0 [] [''443'', ''8000:8100'']
     = Inr \<lparr>hy_upMbps = 0, hy_downMbps = 0, hy_obfsPassword = None, hy_portRanges = [''443'', ''8000:8100'']\<rparr>"
    by code_simp
  with hysteria2_ports_bounded [OF this] show ?thesis by blast
qed

subsection \<open>Configurations\<close>

text \<open>The values that the exported constructors can return.\<close>

inductive built_credential :: "Credential \<Rightarrow> bool" where
  "NewVLESSCredential x = Inr c \<Longrightarrow> built_credential c"
| "NewTrojanCredential x = Inr c \<Longrightarrow> built_credential c"
| "NewVMessCredential x = Inr c \<Longrightarrow> built_credential c"
| "NewShadowsocksCredential x = Inr c \<Longrightarrow> built_credential c"
| "NewProxyCredential p x y = Inr c \<Longrightarrow> built_credential c"
| "NewHysteria2Credential x = Inr c \<Longrightarrow> built_credential c"

inductive built_transport :: "Transport \<Rightarrow> bool" where
  "built_transport NewTCPTransport"
| "built_transport NewQUICTransport"
| "NewWebSocketTransport path = Inr t \<Longrightarrow> built_transport t"
| "NewWebSocketTransportWithHost path host = Inr t \<Longrightarrow> built_transport t"
| "NewHTTP2Transport path host = Inr t \<Longrightarrow> built_transport t"
| "NewHTTPUpgradeTransport path host = Inr t \<Longrightarrow> built_transport t"
| "NewXHTTPTransport path host mode = Inr t \<Longrightarrow> built_transport t"
| "NewGRPCTransport service = Inr t \<Longrightarrow> built_transport t"

inductive built_tls :: "TLSConfig \<Rightarrow> bool" where
  "built_tls DisabledTLS"
| "NewTLS name insecure = Inr t \<Longrightarrow> built_tls t"

inductive built_security :: "SecurityOptions \<Rightarrow> bool" where
  "built_security no_security"
| "NewSecurityOptions alpn fingerprint None = Inr s \<Longrightarrow> built_security s"
| "NewReality key sid = Inr r \<Longrightarrow> NewSecurityOptions alpn fingerprint (Some r) = Inr s \<Longrightarrow> built_security s"

inductive built_hysteria :: "Hysteria2Options option \<Rightarrow> bool" where
  "built_hysteria None"
| "NewHysteria2Options up down password = Inr h \<Longrightarrow> built_hysteria (Some h)"
| "NewHysteria2OptionsWithPorts up down password ranges = Inr h \<Longrightarrow> built_hysteria (Some h)"

inductive built :: "Configuration \<Rightarrow> bool" where
  built_basic: "\<lbrakk>NewAddress host port = Inr a; built_credential cr; built_transport t; built_tls tls;
    NewConfiguration p a cr t tls = Inr c\<rbrakk> \<Longrightarrow> built c"
| built_vmess: "\<lbrakk>NewAddress host port = Inr a; built_credential cr; built_transport t; built_tls tls;
    NewVMessConfiguration a cr t tls mthd = Inr c\<rbrakk> \<Longrightarrow> built c"
| built_shadowsocks: "\<lbrakk>NewAddress host port = Inr a; built_credential cr;
    NewShadowsocksConfiguration a cr mthd = Inr c\<rbrakk> \<Longrightarrow> built c"
| built_extended: "\<lbrakk>NewAddress host port = Inr a; built_credential cr; built_transport t; built_tls tls;
    built_security sec; built_hysteria hy;
    NewExtendedConfiguration p a cr t tls sec flow hy = Inr c\<rbrakk> \<Longrightarrow> built c"
| built_extended_vmess: "\<lbrakk>NewAddress host port = Inr a; built_credential cr; built_transport t; built_tls tls;
    built_security sec; NewExtendedVMessConfiguration a cr t tls sec mthd = Inr c\<rbrakk> \<Longrightarrow> built c"
| built_address: "\<lbrakk>built c; NewAddress host port = Inr a; WithAddress c a = Inr d\<rbrakk> \<Longrightarrow> built d"

lemma built_credential_wf: "built_credential c \<Longrightarrow> Credential_wf c"
  by (cases rule: built_credential.cases) (auto dest: credential_wf)

lemma built_transport_wf: "built_transport t \<Longrightarrow> Transport_wf t"
  by (induction rule: built_transport.induct) (auto intro: transport_wf)

lemma built_tls_wf: "built_tls t \<Longrightarrow> TLS_wf t"
  by (induction rule: built_tls.induct) (auto intro: tls_wf)

lemma built_security_wf: "built_security s \<Longrightarrow> SecurityOptions_wf s"
  by (induction rule: built_security.induct) (auto intro: no_security_wf elim!: NewSecurityOptions_wf dest: NewReality_wf)

lemma built_hysteria_wf: "built_hysteria h \<Longrightarrow> pred_option Hysteria2Options_wf h"
  by (induction rule: built_hysteria.induct) (auto intro: NewHysteria2Options_wf NewHysteria2OptionsWithPorts_wf)

lemmas built_parts_wf = NewAddress_wf built_credential_wf built_transport_wf built_tls_wf built_security_wf
  built_hysteria_wf

lemma default_server_name_wf: "TLS_wf tls \<Longrightarrow> Address_wf a \<Longrightarrow> TLS_wf (default_server_name tls a)"
  by (simp add: TLS_wf_def default_server_name_def Address_wf_def)

lemma NewConfiguration_Inr:
  "NewConfiguration p a cr t tls = Inr c \<Longrightarrow>
   Configuration_valid c \<and> (p = ProtocolVLESS \<or> p = ProtocolTrojan)
   \<and> c = \<lparr>cfg_protocol = p, cfg_address = a, cfg_credential = cr, cfg_transport = t,
          cfg_tls = default_server_name tls a, cfg_method = [], cfg_advanced = None\<rparr>"
  by (auto simp: NewConfiguration_def Let_def invalid_def split: if_splits)

lemma newAdditionalConfiguration_Inr:
  "newAdditionalConfiguration p a cr t tls mthd = Inr c \<Longrightarrow>
   Configuration_valid c
   \<and> c = \<lparr>cfg_protocol = p, cfg_address = a, cfg_credential = cr, cfg_transport = t,
          cfg_tls = default_server_name tls a, cfg_method = mthd, cfg_advanced = None\<rparr>"
  by (auto simp: newAdditionalConfiguration_def Let_def invalid_def split: if_splits)

lemma NewVMessConfiguration_Inr:
  "NewVMessConfiguration a cr t tls mthd = Inr c \<Longrightarrow>
   mthd \<in> set vmess_methods \<and> newAdditionalConfiguration ProtocolVMess a cr t tls mthd = Inr c"
  by (auto simp: NewVMessConfiguration_def invalid_def split: if_splits)

lemma newExtendedConfiguration_Inr:
  "newExtendedConfiguration p a cr t tls sec flow hy mthd = Inr c \<Longrightarrow>
   NewConfiguration p a cr t tls = Inr c \<or> NewVMessConfiguration a cr t tls mthd = Inr c
   \<or> Configuration_valid c
     \<and> c = \<lparr>cfg_protocol = p, cfg_address = a, cfg_credential = cr, cfg_transport = t,
            cfg_tls = default_server_name tls a, cfg_method = mthd,
            cfg_advanced = Some \<lparr>adv_flow = flow, adv_security = sec, adv_hysteria = hy\<rparr>\<rparr>"
  by (auto simp: newExtendedConfiguration_def Let_def invalid_def split: if_splits)

lemma methods_short: "m \<in> set vmess_methods \<Longrightarrow> short m" "m \<in> set shadowsocks_methods \<Longrightarrow> short m"
  by (auto simp: vmess_methods_def shadowsocks_methods_def short_def)

lemma Configuration_wf_intro:
  assumes "Configuration_valid c" "Address_wf (cfg_address c)" "Credential_wf (cfg_credential c)"
    "Transport_wf (cfg_transport c)" "TLS_wf tls" "cfg_tls c = default_server_name tls (cfg_address c)"
    "short (cfg_method c)"
    "cfg_protocol c \<noteq> ProtocolVMess \<and> cfg_protocol c \<noteq> ProtocolShadowsocks \<longrightarrow> cfg_method c = []"
    "pred_option (\<lambda>a. SecurityOptions_wf (adv_security a) \<and> pred_option Hysteria2Options_wf (adv_hysteria a))
      (cfg_advanced c)"
  shows "Configuration_wf c"
  using assms by (simp add: Configuration_wf_def default_server_name_wf)

lemma NewConfiguration_wf:
  "NewConfiguration p a cr t tls = Inr c \<Longrightarrow> Address_wf a \<Longrightarrow> Credential_wf cr \<Longrightarrow> Transport_wf t \<Longrightarrow> TLS_wf tls
   \<Longrightarrow> Configuration_wf c"
  by (rule Configuration_wf_intro [where tls = tls]) (auto dest!: NewConfiguration_Inr)

lemma newAdditionalConfiguration_wf:
  "newAdditionalConfiguration p a cr t tls m = Inr c \<Longrightarrow> Address_wf a \<Longrightarrow> Credential_wf cr \<Longrightarrow> Transport_wf t
   \<Longrightarrow> TLS_wf tls \<Longrightarrow> p = ProtocolVMess \<and> m \<in> set vmess_methods \<or> p = ProtocolShadowsocks \<and> m \<in> set shadowsocks_methods
   \<Longrightarrow> Configuration_wf c"
  by (rule Configuration_wf_intro [where tls = tls]) (auto dest!: newAdditionalConfiguration_Inr simp: methods_short)

lemma NewVMessConfiguration_wf:
  "NewVMessConfiguration a cr t tls m = Inr c \<Longrightarrow> Address_wf a \<Longrightarrow> Credential_wf cr \<Longrightarrow> Transport_wf t
   \<Longrightarrow> TLS_wf tls \<Longrightarrow> Configuration_wf c"
  by (auto dest!: NewVMessConfiguration_Inr elim: newAdditionalConfiguration_wf)

lemma newExtendedConfiguration_wf:
  assumes "newExtendedConfiguration p a cr t tls sec flow hy m = Inr c" "Address_wf a" "Credential_wf cr"
    "Transport_wf t" "TLS_wf tls" "SecurityOptions_wf sec" "pred_option Hysteria2Options_wf hy"
    "m = [] \<or> p = ProtocolVMess \<and> m \<in> set vmess_methods"
  shows "Configuration_wf c"
  using newExtendedConfiguration_Inr [OF assms(1)]
proof (elim disjE)
  assume "Configuration_valid c \<and> c = \<lparr>cfg_protocol = p, cfg_address = a, cfg_credential = cr, cfg_transport = t,
      cfg_tls = default_server_name tls a, cfg_method = m,
      cfg_advanced = Some \<lparr>adv_flow = flow, adv_security = sec, adv_hysteria = hy\<rparr>\<rparr>"
  then show ?thesis using assms
    by (intro Configuration_wf_intro [where tls = tls]) (auto simp: methods_short)
qed (erule NewConfiguration_wf [OF _ assms(2-5)] NewVMessConfiguration_wf [OF _ assms(2-5)])+

lemma advanced_valid_address:
  "advancedConnection_valid adv (c\<lparr>cfg_address := a\<rparr>) = advancedConnection_valid adv c"
  by (simp add: advancedConnection_valid_def)

lemma if_False_conj: "(if P then False else Q) \<longleftrightarrow> \<not> P \<and> Q"
  by simp

lemmas Configuration_valid_conj = Configuration_valid_def [unfolded Let_def if_False_conj]

lemma Configuration_valid_address:
  "Configuration_valid c \<Longrightarrow> address_valid a \<Longrightarrow> Configuration_valid (c\<lparr>cfg_address := a\<rparr>)"
  unfolding Configuration_valid_conj advanced_valid_address by simp

lemma WithAddress_Inr:
  "WithAddress c a = Inr d \<Longrightarrow> Configuration_valid c \<and> address_valid a \<and> d = c\<lparr>cfg_address := a\<rparr>"
  by (simp add: WithAddress_def invalid_def split: if_splits)

lemma WithAddress_wf:
  "WithAddress c a = Inr d \<Longrightarrow> Configuration_wf c \<Longrightarrow> Address_wf a \<Longrightarrow> Configuration_wf d"
  using WithAddress_Inr [of c a d] Configuration_valid_address [of c a] by (simp add: Configuration_wf_def)

lemma NewShadowsocksConfiguration_wf:
  "NewShadowsocksConfiguration a cr m = Inr c \<Longrightarrow> Address_wf a \<Longrightarrow> Credential_wf cr \<Longrightarrow> Configuration_wf c"
  unfolding NewShadowsocksConfiguration_def invalid_def
  by (auto split: if_splits elim!: newAdditionalConfiguration_wf intro: transport_wf tls_wf)

lemma NewExtendedConfiguration_wf:
  "NewExtendedConfiguration p a cr t tls sec flow hy = Inr c \<Longrightarrow> Address_wf a \<Longrightarrow> Credential_wf cr \<Longrightarrow> Transport_wf t
   \<Longrightarrow> TLS_wf tls \<Longrightarrow> SecurityOptions_wf sec \<Longrightarrow> pred_option Hysteria2Options_wf hy \<Longrightarrow> Configuration_wf c"
  unfolding NewExtendedConfiguration_def by (erule newExtendedConfiguration_wf) simp_all

lemma NewExtendedVMessConfiguration_wf:
  "NewExtendedVMessConfiguration a cr t tls sec m = Inr c \<Longrightarrow> Address_wf a \<Longrightarrow> Credential_wf cr \<Longrightarrow> Transport_wf t
   \<Longrightarrow> TLS_wf tls \<Longrightarrow> SecurityOptions_wf sec \<Longrightarrow> Configuration_wf c"
  unfolding NewExtendedVMessConfiguration_def invalid_def
  by (auto split: if_splits elim!: newExtendedConfiguration_wf)

lemmas configuration_wf = NewConfiguration_wf NewVMessConfiguration_wf NewShadowsocksConfiguration_wf
  NewExtendedConfiguration_wf NewExtendedVMessConfiguration_wf

lemma built_wf: "built c \<Longrightarrow> Configuration_wf c"
proof (induction rule: built.induct)
  case (built_address c host port a d)
  then show ?case by (blast intro: WithAddress_wf NewAddress_wf)
qed (erule configuration_wf; blast intro: built_parts_wf)+

lemma advanced_valid_reality:
  "advancedConnection_valid (Some a) c \<Longrightarrow> sec_reality (adv_security a) \<noteq> None \<Longrightarrow>
   cfg_protocol c = ProtocolVLESS \<and> tr_kind (cfg_transport c) = TransportTCP
   \<and> tls_enabled (cfg_tls c) \<and> \<not> tls_insecureSkipVerify (cfg_tls c)"
  unfolding advancedConnection_valid_def Let_def option.case if_False_conj by blast

lemma advanced_valid_socks:
  "advancedConnection_valid adv c \<Longrightarrow> cfg_protocol c = ProtocolSOCKS5 \<Longrightarrow> \<not> tls_enabled (cfg_tls c)"
  unfolding advancedConnection_valid_def Let_def if_False_conj
  by (simp only: Protocol.distinct simp_thms if_True split: option.splits)

lemma Configuration_valid_parts:
  assumes "Configuration_valid c"
  shows "advancedConnection_valid (cfg_advanced c) c" "cred_protocol (cfg_credential c) = cfg_protocol c"
    "cfg_protocol c = ProtocolTrojan \<or> cfg_protocol c = ProtocolHysteria2 \<Longrightarrow> tls_enabled (cfg_tls c)"
    "cfg_protocol c = ProtocolShadowsocks \<Longrightarrow> tr_kind (cfg_transport c) = TransportTCP \<and> \<not> tls_enabled (cfg_tls c)"
    "tls_enabled (cfg_tls c) \<Longrightarrow> tls_serverName (cfg_tls c) \<noteq> []"
    "address_valid (cfg_address c)" "Credential_valid (cfg_credential c)" "Transport_valid (cfg_transport c)"
    "cfg_protocol c = ProtocolVMess \<or> cfg_protocol c = ProtocolShadowsocks \<Longrightarrow> cfg_method c \<noteq> []"
  using assms unfolding Configuration_valid_conj by blast+

text \<open>
  C5. Every configuration the exported constructors can build satisfies the connection
  rules: the credential belongs to the protocol, Trojan and Hysteria2 always use TLS,
  Shadowsocks and SOCKS5 never do, TLS always has a server name, and a Reality handshake is
  confined to verified TLS over plain TCP for VLESS.
\<close>

theorem built_configuration_rules:
  assumes "built c"
  shows "Configuration_valid c \<and> cred_protocol (cfg_credential c) = cfg_protocol c
    \<and> (cfg_protocol c \<in> {ProtocolTrojan, ProtocolHysteria2} \<longrightarrow> tls_enabled (cfg_tls c))
    \<and> (cfg_protocol c \<in> {ProtocolShadowsocks, ProtocolSOCKS5} \<longrightarrow> \<not> tls_enabled (cfg_tls c))
    \<and> (tls_enabled (cfg_tls c) \<longrightarrow> tls_serverName (cfg_tls c) \<noteq> [])
    \<and> (sec_reality (Configuration_SecurityOptions c) \<noteq> None \<longrightarrow>
         cfg_protocol c = ProtocolVLESS \<and> tr_kind (cfg_transport c) = TransportTCP
         \<and> tls_enabled (cfg_tls c) \<and> \<not> tls_insecureSkipVerify (cfg_tls c))"
proof -
  have valid: "Configuration_valid c" using built_wf [OF assms] by (simp add: Configuration_wf_def)
  note parts = Configuration_valid_parts [OF valid]
  have "sec_reality (Configuration_SecurityOptions c) \<noteq> None \<Longrightarrow>
      cfg_protocol c = ProtocolVLESS \<and> tr_kind (cfg_transport c) = TransportTCP
      \<and> tls_enabled (cfg_tls c) \<and> \<not> tls_insecureSkipVerify (cfg_tls c)"
    using parts(1) by (cases "cfg_advanced c")
      (simp_all add: Configuration_SecurityOptions_def no_security_def advanced_valid_reality)
  with valid parts(2-5) advanced_valid_socks [OF parts(1)] show ?thesis by blast
qed

definition sample_address :: Address where
  "sample_address = \<lparr>address_host = ''a.example'', address_port = 443, address_kind = hostDNS\<rparr>"

definition sample_credential :: Credential where
  "sample_credential = \<lparr>cred_protocol = ProtocolTrojan, cred_secret = Some ''pw'', cred_username = []\<rparr>"

definition sample_tls :: TLSConfig where
  "sample_tls = \<lparr>tls_enabled = True, tls_serverName = [], tls_insecureSkipVerify = False\<rparr>"

definition sample_configuration :: Configuration where
  "sample_configuration = \<lparr>cfg_protocol = ProtocolTrojan, cfg_address = sample_address,
     cfg_credential = sample_credential, cfg_transport = NewTCPTransport,
     cfg_tls = sample_tls\<lparr>tls_serverName := ''a.example''\<rparr>, cfg_method = [], cfg_advanced = None\<rparr>"

lemma sample_parts:
  "NewAddress ''a.example'' 443 = Inr sample_address"
  "NewTrojanCredential ''pw'' = Inr sample_credential"
  "NewTLS [] False = Inr sample_tls"
  "NewConfiguration ProtocolTrojan sample_address sample_credential NewTCPTransport sample_tls = Inr sample_configuration"
  by code_simp+

lemma sample_built: "built sample_configuration"
  by (rule built_basic [OF sample_parts(1) _ _ _ sample_parts(4)])
    (auto intro: built_credential.intros(2) [OF sample_parts(2)] built_transport.intros
      built_tls.intros(2) [OF sample_parts(3)])

theorem built_configuration_rules_witness:
  "built sample_configuration \<and> tls_enabled (cfg_tls sample_configuration)"
  using built_configuration_rules [OF sample_built] sample_built by (simp add: sample_configuration_def)

section \<open>User identifiers, exactly\<close>

lemma hex_value_lower: "hex_value c = Some d \<Longrightarrow> d < 16 \<and> hex_digit d = to_lower_char c \<and> (d = 0 \<longleftrightarrow> c = CHR ''0'')"
proof -
  assume d: "hex_value c = Some d"
  have zero: "c = CHR ''0'' \<longleftrightarrow> code c = 48" using code_inj [of c "CHR ''0''"] by (auto simp: code_def)
  have c: "byte (code c) = c" "byte 48 = CHR ''0''" by (simp, code_simp)
  show ?thesis
    using d code_less [of c] zero c
    by (auto simp: hex_value_def hex_digit_def to_lower_char_def is_digit_def is_upper_def add.commute split: if_splits)
qed

lemma hex_decode_Some_iff:
  "(\<exists>bs. hex_decode s = Some bs) \<longleftrightarrow> even (length s) \<and> list_all (\<lambda>c. hex_value c \<noteq> None) s"
proof (induction s rule: hex_decode.induct)
  case (3 a b s)
  then show ?case by (auto split: option.splits)
qed simp_all

lemma hex_encode_decode:
  "hex_decode s = Some bs \<Longrightarrow> hex_encode bs = map to_lower_char s \<and> (list_all (\<lambda>c. c = byte 0) bs \<longleftrightarrow> list_all (\<lambda>c. c = CHR ''0'') s)"
proof (induction s arbitrary: bs rule: hex_decode.induct)
  case (3 a b s)
  then obtain x y rest where v: "hex_value a = Some x" "hex_value b = Some y" "hex_decode s = Some rest" "bs = byte (16 * x + y) # rest"
    by (auto split: option.splits)
  note x = hex_value_lower [OF v(1)] and y = hex_value_lower [OF v(2)]
  have "byte (16 * x + y) = byte 0 \<longleftrightarrow> x = 0 \<and> y = 0" using byte_inj [of "16 * x + y" 0] x y by auto
  then show ?case using 3 v x y by (simp add: hex_encode_def)
qed (simp_all add: hex_encode_def)

lemma hex_encode_append: "hex_encode (a @ b) = hex_encode a @ hex_encode b"
  by (simp add: hex_encode_def)

lemma hex_encode_zeros: "hex_encode (replicate n (byte 0)) = replicate (2 * n) CHR ''0''"
proof (induction n)
  case (Suc n)
  have "hex_encode [byte 0] = ''00''" by code_simp
  then show ?case using Suc hex_encode_append [of "[byte 0]" "replicate n (byte 0)"] by simp
qed (simp add: hex_encode_def)

definition uuid_hyphens :: "string \<Rightarrow> bool" where
  "uuid_hyphens raw \<longleftrightarrow> raw ! 8 = CHR ''-'' \<and> raw ! 13 = CHR ''-'' \<and> raw ! 18 = CHR ''-'' \<and> raw ! 23 = CHR ''-''"

definition uuid_digits :: "string \<Rightarrow> string" where
  "uuid_digits raw = filter (\<lambda>c. c \<noteq> CHR ''-'') raw"

lemma canonicalUUID_Inr_iff:
  "canonicalUUID raw = Inr u \<longleftrightarrow>
     length raw = 36 \<and> uuid_hyphens raw \<and> even (length (uuid_digits raw))
     \<and> list_all (\<lambda>c. hex_value c \<noteq> None) (uuid_digits raw) \<and> \<not> list_all (\<lambda>c. c = CHR ''0'') (uuid_digits raw)
     \<and> u = hyphenate (map to_lower_char (uuid_digits raw) @ replicate (32 - length (uuid_digits raw)) CHR ''0'')"
proof (cases "length raw = 36 \<and> uuid_hyphens raw \<and> (\<exists>bs. hex_decode (uuid_digits raw) = Some bs)")
  case True
  then obtain bs where bs: "hex_decode (uuid_digits raw) = Some bs" and raw: "length raw = 36" "uuid_hyphens raw" by blast
  have zeros: "list_all (\<lambda>c. c = byte 0) (replicate n (byte 0))" for n by (simp add: list_all_length)
  have len: "2 * length bs = length (uuid_digits raw)" using hex_decode_length [OF bs] by simp
  have "hex_encode (bs @ replicate (16 - length bs) (byte 0))
      = map to_lower_char (uuid_digits raw) @ replicate (32 - length (uuid_digits raw)) CHR ''0''"
    using hex_encode_decode [OF bs] len by (simp add: hex_encode_append hex_encode_zeros right_diff_distrib')
  moreover have "list_all (\<lambda>c. c = byte 0) (bs @ replicate (16 - length bs) (byte 0)) \<longleftrightarrow> list_all (\<lambda>c. c = CHR ''0'') (uuid_digits raw)"
    using hex_encode_decode [OF bs] zeros by simp
  moreover have "even (length (uuid_digits raw)) \<and> list_all (\<lambda>c. hex_value c \<noteq> None) (uuid_digits raw)"
    using hex_decode_Some_iff [of "uuid_digits raw"] bs by blast
  moreover have "canonicalUUID raw = (if list_all (\<lambda>c. c = byte 0) (bs @ replicate (16 - length bs) (byte 0))
      then invalid ''vless.user_id'' ''must not be the nil UUID''
      else Inr (hyphenate (hex_encode (bs @ replicate (16 - length bs) (byte 0)))))"
    using bs raw unfolding canonicalUUID_def uuid_hyphens_def uuid_digits_def hyphenate_def Let_def by simp
  ultimately show ?thesis using raw by (auto simp: invalid_def)
next
  case False
  then have "\<not> (even (length (uuid_digits raw)) \<and> list_all (\<lambda>c. hex_value c \<noteq> None) (uuid_digits raw))"
    if "length raw = 36" "uuid_hyphens raw"
    using that hex_decode_Some_iff [of "uuid_digits raw"] by blast
  moreover have "canonicalUUID raw \<noteq> Inr u"
    using False by (auto simp: canonicalUUID_def uuid_hyphens_def uuid_digits_def invalid_def Let_def split: if_splits option.splits)
  ultimately show ?thesis by blast
qed

lemma filter_all_lengths:
  assumes "length (filter P xs) + length (filter P ys) = length xs + length ys"
  shows "filter P xs = xs" "filter P ys = ys"
proof -
  have "length (filter P xs) = length xs" "length (filter P ys) = length ys"
    using assms length_filter_le [of P xs] length_filter_le [of P ys] by linarith+
  then show "filter P xs = xs" "filter P ys = ys"
    using length_filter_less [of _ xs P] length_filter_less [of _ ys P] by (metis filter_True less_irrefl)+
qed

lemma hyphenate_segments:
  assumes "length a = 8" "length b = 4" "length c = 4" "length d = 4" "length e = 12"
  shows "hyphenate (a @ b @ c @ d @ e) = a @ ''-'' @ b @ ''-'' @ c @ ''-'' @ d @ ''-'' @ e"
  using assms by (simp add: hyphenate_def)

lemma uuid_split:
  assumes "length raw = 36" "uuid_hyphens raw"
  obtains a b c d e where "raw = a @ ''-'' @ b @ ''-'' @ c @ ''-'' @ d @ ''-'' @ e"
    "length a = 8" "length b = 4" "length c = 4" "length d = 4" "length e = 12"
proof -
  have step: "s = take n s @ s ! n # drop (Suc n) s" if "n < length s" for s :: string and n
    using that by (rule id_take_nth_drop)
  let ?r1 = "drop 9 raw" let ?r2 = "drop 5 ?r1" let ?r3 = "drop 5 ?r2" let ?r4 = "drop 5 ?r3"
  have "raw = take 8 raw @ ''-'' @ ?r1" "?r1 = take 4 ?r1 @ ''-'' @ ?r2" "?r2 = take 4 ?r2 @ ''-'' @ ?r3" "?r3 = take 4 ?r3 @ ''-'' @ ?r4"
    using step [of 8 raw] step [of 4 ?r1] step [of 4 ?r2] step [of 4 ?r3] assms by (simp_all add: uuid_hyphens_def)
  then have "raw = take 8 raw @ ''-'' @ take 4 ?r1 @ ''-'' @ take 4 ?r2 @ ''-'' @ take 4 ?r3 @ ''-'' @ ?r4"
    by metis
  then show thesis using assms(1) by (intro that [of "take 8 raw" "take 4 ?r1" "take 4 ?r2" "take 4 ?r3" ?r4]) simp_all
qed

lemma uuid_full:
  assumes "length raw = 36" "uuid_hyphens raw" "length (uuid_digits raw) = 32"
  shows "hyphenate (uuid_digits raw) = raw"
proof -
  let ?f = "filter (\<lambda>c. c \<noteq> CHR ''-'')"
  obtain a b c d e where raw: "raw = a @ ''-'' @ b @ ''-'' @ c @ ''-'' @ d @ ''-'' @ e"
    and len: "length a = 8" "length b = 4" "length c = 4" "length d = 4" "length e = 12"
    using uuid_split [OF assms(1,2)] by blast
  have "?f (a @ b @ c @ d @ e) = a @ b @ c @ d @ e"
    by (rule filter_all_lengths(1) [of _ _ "[]"]) (use assms(3) raw len in \<open>simp add: uuid_digits_def\<close>)
  then have "uuid_digits raw = a @ b @ c @ d @ e" unfolding raw uuid_digits_def by simp
  then show ?thesis using raw hyphenate_segments [OF len] by simp
qed

lemma to_lower_char_hyphen: "to_lower_char c = CHR ''-'' \<longleftrightarrow> c = CHR ''-''"
proof
  assume "to_lower_char c = CHR ''-''"
  moreover have "code (CHR ''-'') = 45" by (simp add: code_def)
  ultimately have "code (to_lower_char c) = 45" by simp
  then have "\<not> is_upper c" by (auto simp: to_lower_char_def is_upper_def)
  then show "c = CHR ''-''" using \<open>to_lower_char c = CHR ''-''\<close> by (simp add: to_lower_char_def)
qed (simp add: to_lower_char_def is_upper_def code_def)

lemma uuid_digits_lower: "uuid_digits (map to_lower_char s) = map to_lower_char (uuid_digits s)"
  by (simp add: uuid_digits_def filter_map o_def to_lower_char_hyphen)

lemma hyphenate_map: "hyphenate (map f e) = map f (take 8 e) @ ''-'' @ map f (take 4 (drop 8 e)) @ ''-'' @ map f (take 4 (drop 12 e)) @ ''-''
    @ map f (take 4 (drop 16 e)) @ ''-'' @ map f (take 12 (drop 20 e))"
  by (simp add: hyphenate_def take_map drop_map)

lemma hyphenate_lower: "hyphenate (map to_lower_char e) = map to_lower_char (hyphenate e)"
  using to_lower_char_hyphen [of "CHR ''-''"] unfolding hyphenate_map by (simp add: hyphenate_def)

lemma canonicalUUID_lower_iff:
  assumes "canonicalUUID raw = Inr u"
  shows "length (uuid_digits raw) = 32 \<longleftrightarrow> u = map to_lower_char raw"
proof
  assume "length (uuid_digits raw) = 32"
  then show "u = map to_lower_char raw"
    using assms uuid_full [of raw] by (simp add: canonicalUUID_Inr_iff hyphenate_lower)
next
  assume u: "u = map to_lower_char raw"
  obtain bs where bs: "length bs = 16" "u = hyphenate (hex_encode bs)" by (rule canonicalUUID_Inr [OF assms])
  have "uuid_digits u = hex_encode bs"
    unfolding bs uuid_digits_def using bs(1) hex_encode_no_hyphen by (intro filter_hyphenate) simp_all
  then have "length (uuid_digits (map to_lower_char raw)) = 32" using bs(1) u by simp
  then show "length (uuid_digits raw) = 32" by (simp add: uuid_digits_lower)
qed

text \<open>
  C11. User identifiers, exactly: a text is accepted if and only if it has 36 characters with hyphens
  at the four places of a UUID, its other characters that are not hyphens are an even number of
  hexadecimal digits, and they are not all zero. The result is these digits in lower case,
  completed with zeros to 32 digits and hyphenated again; it is accepted and returned unchanged.
  Only a text with exactly four hyphens is a UUID: its result is the text in lower case. A text
  with more hyphens is accepted too, and stands for a user identifier that it does not spell.
\<close>

theorem canonicalUUID_exact:
  "(canonicalUUID raw = Inr u \<longleftrightarrow>
      length raw = 36 \<and> uuid_hyphens raw \<and> even (length (uuid_digits raw))
      \<and> list_all (\<lambda>c. hex_value c \<noteq> None) (uuid_digits raw) \<and> \<not> list_all (\<lambda>c. c = CHR ''0'') (uuid_digits raw)
      \<and> u = hyphenate (map to_lower_char (uuid_digits raw) @ replicate (32 - length (uuid_digits raw)) CHR ''0''))
   \<and> (canonicalUUID raw = Inr u \<longrightarrow> canonicalUUID u = Inr u
      \<and> (length (uuid_digits raw) = 32 \<longleftrightarrow> u = map to_lower_char raw))"
  using canonicalUUID_Inr_iff [of raw u] canonicalUUID_canonical [of raw u] canonicalUUID_lower_iff [of raw u] by blast

theorem canonicalUUID_exact_witness:
  "canonicalUUID ''ABCDEF01-2345-6789-abcd-ef01234567--'' = Inr ''abcdef01-2345-6789-abcd-ef0123456700''
   \<and> canonicalUUID ''abcdef01-2345-6789-abcd-ef0123456700'' = Inr ''abcdef01-2345-6789-abcd-ef0123456700''
   \<and> length (uuid_digits ''ABCDEF01-2345-6789-abcd-ef01234567--'') \<noteq> 32"
proof -
  have "canonicalUUID ''ABCDEF01-2345-6789-abcd-ef01234567--'' = Inr ''abcdef01-2345-6789-abcd-ef0123456700''" by code_simp
  moreover have "map to_lower_char ''ABCDEF01-2345-6789-abcd-ef01234567--'' \<noteq> ''abcdef01-2345-6789-abcd-ef0123456700''" by code_simp
  ultimately show ?thesis
    using canonicalUUID_exact [of "''ABCDEF01-2345-6789-abcd-ef01234567--''" "''abcdef01-2345-6789-abcd-ef0123456700''"] by metis
qed

end
