(* ===== verification/Sha256.thy ===== *)
theory Sha256
  imports Prelude
begin

text \<open>
  SHA-256 (FIPS 180-4), the function \<^verbatim>\<open>sha256.Sum256\<close> of Go's standard library that every
  identity, revision, fingerprint and generation of the program goes through, and the
  interface the components rely on: digests have 32 bytes. That two different inputs have
  different digests is not a theorem about any hash function; where a property needs it, the
  property names the two inputs.
\<close>

unbundle bit_operations_syntax

type_synonym u32 = "32 word"

section \<open>Round functions\<close>

definition ch :: "u32 \<Rightarrow> u32 \<Rightarrow> u32 \<Rightarrow> u32" where
  "ch x y z = (x AND y) XOR (NOT x AND z)"

definition maj :: "u32 \<Rightarrow> u32 \<Rightarrow> u32 \<Rightarrow> u32" where
  "maj x y z = (x AND y) XOR (x AND z) XOR (y AND z)"

definition big_sigma0 :: "u32 \<Rightarrow> u32" where
  "big_sigma0 x = word_rotr 2 x XOR word_rotr 13 x XOR word_rotr 22 x"

definition big_sigma1 :: "u32 \<Rightarrow> u32" where
  "big_sigma1 x = word_rotr 6 x XOR word_rotr 11 x XOR word_rotr 25 x"

definition small_sigma0 :: "u32 \<Rightarrow> u32" where
  "small_sigma0 x = word_rotr 7 x XOR word_rotr 18 x XOR drop_bit 3 x"

definition small_sigma1 :: "u32 \<Rightarrow> u32" where
  "small_sigma1 x = word_rotr 17 x XOR word_rotr 19 x XOR drop_bit 10 x"

definition round_constants :: "u32 list" where
  "round_constants =
    [1116352408, 1899447441, 3049323471, 3921009573, 961987163, 1508970993, 2453635748, 2870763221,
     3624381080, 310598401, 607225278, 1426881987, 1925078388, 2162078206, 2614888103, 3248222580,
     3835390401, 4022224774, 264347078, 604807628, 770255983, 1249150122, 1555081692, 1996064986,
     2554220882, 2821834349, 2952996808, 3210313671, 3336571891, 3584528711, 113926993, 338241895,
     666307205, 773529912, 1294757372, 1396182291, 1695183700, 1986661051, 2177026350, 2456956037,
     2730485921, 2820302411, 3259730800, 3345764771, 3516065817, 3600352804, 4094571909, 275423344,
     430227734, 506948616, 659060556, 883997877, 958139571, 1322822218, 1537002063, 1747873779,
     1955562222, 2024104815, 2227730452, 2361852424, 2428436474, 2756734187, 3204031479, 3329325298]"

section \<open>Message schedule, compression and padding\<close>

text \<open>The schedule is kept most recent word first.\<close>

fun extend_schedule :: "nat \<Rightarrow> u32 list \<Rightarrow> u32 list" where
  "extend_schedule 0 ws = ws"
| "extend_schedule (Suc k) ws =
     extend_schedule k
       ((small_sigma1 (ws ! 1) + ws ! 6 + small_sigma0 (ws ! 14) + ws ! 15) # ws)"

definition schedule :: "u32 list \<Rightarrow> u32 list" where
  "schedule block = rev (extend_schedule 48 (rev block))"

datatype hash_state = HashState u32 u32 u32 u32 u32 u32 u32 u32

fun compress_round :: "hash_state \<Rightarrow> u32 \<times> u32 \<Rightarrow> hash_state" where
  "compress_round (HashState a b c d e f g h) (k, w) =
     (let t1 = h + big_sigma1 e + ch e f g + k + w;
          t2 = big_sigma0 a + maj a b c
      in HashState (t1 + t2) a b c (d + t1) e f g)"

fun add_state :: "hash_state \<Rightarrow> hash_state \<Rightarrow> hash_state" where
  "add_state (HashState a b c d e f g h) (HashState a' b' c' d' e' f' g' h') =
     HashState (a + a') (b + b') (c + c') (d + d') (e + e') (f + f') (g + g') (h + h')"

definition compress :: "hash_state \<Rightarrow> u32 list \<Rightarrow> hash_state" where
  "compress s block =
     add_state s (foldl compress_round s (zip round_constants (schedule block)))"

definition initial_state :: hash_state where
  "initial_state = HashState 0x6a09e667 0xbb67ae85 0x3c6ef372 0xa54ff53a
                             0x510e527f 0x9b05688c 0x1f83d9ab 0x5be0cd19"

definition pad_message :: "bytes \<Rightarrow> bytes" where
  "pad_message m =
     m @ byte 128 # replicate ((119 - length m mod 64) mod 64) (byte 0)
       @ put_uint64 (8 * length m)"

fun be_words :: "bytes \<Rightarrow> u32 list" where
  "be_words (a # b # c # d # rest) =
     of_nat (((code a * 256 + code b) * 256 + code c) * 256 + code d) # be_words rest"
| "be_words _ = []"

fun blocks_fuel :: "nat \<Rightarrow> u32 list \<Rightarrow> u32 list list" where
  "blocks_fuel 0 ws = []"
| "blocks_fuel (Suc k) ws = (if ws = [] then [] else take 16 ws # blocks_fuel k (drop 16 ws))"

fun state_bytes :: "hash_state \<Rightarrow> bytes" where
  "state_bytes (HashState a b c d e f g h) =
     concat (map (\<lambda>w. put_uint32 (unat w)) [a, b, c, d, e, f, g, h])"

definition sha256 :: "bytes \<Rightarrow> bytes" where
  "sha256 m =
     (let ws = be_words (pad_message m)
      in state_bytes (foldl compress initial_state (blocks_fuel (length ws) ws)))"

section \<open>The interface the components rely on\<close>

lemma length_put_uint [simp]:
  "length (put_uint16 n) = 2" "length (put_uint32 n) = 4" "length (put_uint64 n) = 8"
  by (simp_all add: put_uint16_def put_uint32_def put_uint64_def)

lemma length_state_bytes [simp]: "length (state_bytes s) = 32"
  by (cases s) simp

lemma length_sha256 [simp]: "length (sha256 m) = 32"
  by (simp add: sha256_def Let_def)

text \<open>
  The digest interface: a fixed width, hence a non-empty result that can be cut back out of a
  concatenation.
\<close>

locale digest =
  fixes H :: "bytes \<Rightarrow> bytes" and width :: nat
  assumes width_H: "length (H m) = width" and width_pos: "0 < width"
begin

lemma nonempty: "H m \<noteq> []"
  using width_H [of m] width_pos by auto

lemma suffix_cancel: "x @ H m = y @ H n \<Longrightarrow> x = y \<and> H m = H n"
  by (simp add: width_H)

end

interpretation sha: digest sha256 32
  by unfold_locales simp_all

end
