(* ===== verification/Endpoint_Identity.thy ===== *)
theory Endpoint_Identity
  imports Endpoint_Config Sha256
begin

text \<open>
  \<^verbatim>\<open>internal/endpoint/identity.go\<close>: the canonical encoding of a configuration, the logical
  endpoint identifier and the confidential connection revision. The lemmas show that the
  encoding is unambiguous on every configuration the constructors build, with and without the
  credentials, that every identifier parses, and that identities are totally ordered.
\<close>

section \<open>Identifiers and revisions\<close>

type_synonym ID = string

definition id_prefixes :: "string list" where
  "id_prefixes = [''ef1_'', ''ef2_'', ''ef3_'']"

definition ParseID :: "string \<Rightarrow> endpoint_error + ID" where
  "ParseID value =
     (if \<not> list_ex (has_prefix value) id_prefixes
      then invalid ''endpoint.id'' ''has an unsupported identity version''
      else
        let encoded = drop 4 value
        in case base32_decode (to_upper encoded) of
             None \<Rightarrow> invalid ''endpoint.id'' ''is not a canonical endpoint identifier''
           | Some decoded \<Rightarrow>
               if length decoded \<noteq> 32 \<or> to_lower encoded \<noteq> encoded
               then invalid ''endpoint.id'' ''is not a canonical endpoint identifier''
               else Inr value)"

definition ID_String :: "ID \<Rightarrow> string" where
  "ID_String i = (if i = [] then ''<invalid-endpoint-id>'' else i)"

record Identity =
  id_value :: ID
  id_revision :: "bytes option"

definition Identity_Equal :: "Identity \<Rightarrow> Identity \<Rightarrow> bool" where
  "Identity_Equal i other =
     (if id_value i \<noteq> id_value other \<or> id_revision i = None \<or> id_revision other = None
      then id_value i = id_value other \<and> id_revision i = None \<and> id_revision other = None
      else id_revision i = id_revision other)"

definition Identity_Compare :: "Identity \<Rightarrow> Identity \<Rightarrow> int" where
  "Identity_Compare i other =
     (let compared = bytes_Compare (id_value i) (id_value other)
      in if compared \<noteq> 0 then compared
         else case id_revision i of
           None \<Rightarrow> if id_revision other = None then 0 else -1
         | Some r \<Rightarrow> (case id_revision other of None \<Rightarrow> 1 | Some s \<Rightarrow> bytes_Compare r s))"

definition SameEndpoint :: "Identity \<Rightarrow> Identity \<Rightarrow> bool" where
  "SameEndpoint i other \<longleftrightarrow> id_value i = id_value other"

type_synonym Revision = "bytes option"

definition RestoreRevision :: "bytes \<Rightarrow> string + Revision" where
  "RestoreRevision encoded =
     (if length encoded \<noteq> 32 then Inl ''connection revision must contain 32 protected bytes''
      else Inr (Some encoded))"

definition Revision_Equal :: "Revision \<Rightarrow> Revision \<Rightarrow> bool" where
  "Revision_Equal r other \<longleftrightarrow> r \<noteq> None \<and> other \<noteq> None \<and> r = other"

definition RevealForPersistence :: "Revision \<Rightarrow> string + bytes" where
  "RevealForPersistence r = (case r of None \<Rightarrow> Inl ''invalid connection revision'' | Some v \<Rightarrow> Inr v)"

section \<open>Canonical encoding\<close>

definition write_uint8 :: "nat \<Rightarrow> bytes" where
  "write_uint8 n = [byte n]"

definition write_bool :: "bool \<Rightarrow> bytes" where
  "write_bool b = [byte (if b then 1 else 0)]"

definition version3 :: "Configuration \<Rightarrow> bool" where
  "version3 c \<longleftrightarrow> cfg_advanced c \<noteq> None \<or> tr_advanced (cfg_transport c) \<noteq> None"

definition version2 :: "Configuration \<Rightarrow> bool" where
  "version2 c \<longleftrightarrow> version3 c \<or> cfg_protocol c = ProtocolVMess \<or> cfg_protocol c = ProtocolShadowsocks
     \<or> tr_webSocketHost (cfg_transport c) \<noteq> []"

definition identity_domain :: "Configuration \<Rightarrow> bool \<Rightarrow> string" where
  "identity_domain c includeCredential =
     (if version3 c then if includeCredential then ''egressfox.connection/v3'' else ''egressfox.endpoint/v3''
      else if version2 c then if includeCredential then ''egressfox.connection/v2'' else ''egressfox.endpoint/v2''
      else if includeCredential then ''egressfox.connection/v1'' else ''egressfox.endpoint/v1'')"

definition encode_base :: "Configuration \<Rightarrow> bytes" where
  "encode_base c =
     write_uint8 (Protocol_code (cfg_protocol c))
     @ write_uint8 (hostKind_code (address_kind (cfg_address c)))
     @ write_string (address_host (cfg_address c))
     @ put_uint16 (address_port (cfg_address c))
     @ write_uint8 (TransportKind_code (tr_kind (cfg_transport c)))
     @ write_string (WebSocketPath (cfg_transport c))
     @ write_bool (tls_enabled (cfg_tls c))
     @ write_string (tls_serverName (cfg_tls c))
     @ write_bool (tls_insecureSkipVerify (cfg_tls c))"

definition encode_strings :: "string list \<Rightarrow> bytes" where
  "encode_strings xs = write_uint8 (length xs) @ concat (map write_string xs)"

definition encode_security :: "SecurityOptions \<Rightarrow> bool \<Rightarrow> bytes" where
  "encode_security s includeCredential =
     encode_strings (sec_alpn s)
     @ write_string (sec_fingerprint s)
     @ (case sec_reality s of
          None \<Rightarrow> write_bool False
        | Some r \<Rightarrow> write_bool True @ write_string (reality_publicKey r)
            @ (if includeCredential then write_string (reality_shortID r) else []))"

text \<open>The conversion to \<^verbatim>\<open>uint32\<close> keeps the number modulo \<open>2 ^ 32\<close>.\<close>

definition encode_hysteria :: "Hysteria2Options option \<Rightarrow> bool \<Rightarrow> bytes" where
  "encode_hysteria hy includeCredential =
     (case hy of
        None \<Rightarrow> write_bool False
      | Some h \<Rightarrow>
          write_bool True
          @ put_uint32 (nat (hy_upMbps h mod 2 ^ 32))
          @ put_uint32 (nat (hy_downMbps h mod 2 ^ 32))
          @ write_bool (hy_obfsPassword h \<noteq> None)
          @ (case hy_obfsPassword h of
               Some p \<Rightarrow> if includeCredential then write_string p else []
             | None \<Rightarrow> []))"

definition encode_version2 :: "Configuration \<Rightarrow> bytes" where
  "encode_version2 c = write_string (tr_webSocketHost (cfg_transport c)) @ write_string (cfg_method c)"

text \<open>
  The third version reads the advanced options through a pointer that validity guarantees; the
  empty block stands for the nil dereference, which no valid configuration reaches.
\<close>

definition encode_version3 :: "Configuration \<Rightarrow> bool \<Rightarrow> bytes" where
  "encode_version3 c includeCredential =
     write_string (Transport_Path (cfg_transport c))
     @ write_string (Transport_Host (cfg_transport c))
     @ write_string (identityService (cfg_transport c))
     @ (case cfg_advanced c of
          None \<Rightarrow> []
        | Some a \<Rightarrow>
            write_uint8 (VLESSFlow_code (adv_flow a))
            @ encode_security (adv_security a) includeCredential
            @ encode_hysteria (adv_hysteria a) includeCredential)"

definition encode_credential :: "Configuration \<Rightarrow> bytes" where
  "encode_credential c =
     write_uint8 (Protocol_code (cred_protocol (cfg_credential c)))
     @ write_string (Credential_Reveal (cfg_credential c))
     @ (if version3 c then write_string (cred_username (cfg_credential c)) else [])"

definition encode_ports :: "Configuration \<Rightarrow> bytes" where
  "encode_ports c =
     (case Configuration_Hysteria2 c of
        None \<Rightarrow> []
      | Some h \<Rightarrow> if hy_portRanges h = [] then []
                  else write_string ''hysteria2-ports/v1'' @ encode_strings (hy_portRanges h))"

definition canonicalConfiguration :: "Configuration \<Rightarrow> bool \<Rightarrow> bytes" where
  "canonicalConfiguration c includeCredential =
     write_string (identity_domain c includeCredential)
     @ encode_base c
     @ (if version2 c then encode_version2 c else [])
     @ (if version3 c then encode_version3 c includeCredential else [])
     @ (if includeCredential then encode_credential c else [])
     @ (if version3 c then encode_ports c else [])"

definition Configuration_Identity :: "Configuration \<Rightarrow> Identity" where
  "Configuration_Identity c =
     (if \<not> Configuration_valid c then \<lparr>id_value = [], id_revision = None\<rparr>
      else
        let version = (if cfg_advanced c \<noteq> None \<or> tr_advanced (cfg_transport c) \<noteq> None then ''ef3_''
              else if cfg_protocol c = ProtocolVMess \<or> cfg_protocol c = ProtocolShadowsocks
                \<or> tr_webSocketHost (cfg_transport c) \<noteq> [] then ''ef2_''
              else ''ef1_'');
            logical = canonicalConfiguration c False;
            logicalDigest = sha256 logical;
            encoded = base32_encode logicalDigest;
            private = canonicalConfiguration c True
        in \<lparr>id_value = version @ to_lower encoded, id_revision = Some (sha256 private)\<rparr>)"

definition Configuration_ID :: "Configuration \<Rightarrow> ID" where
  "Configuration_ID c = id_value (Configuration_Identity c)"

section \<open>The encoding is unambiguous\<close>

lemma write_string_iff [simp]:
  "short a \<Longrightarrow> short b \<Longrightarrow> write_string a @ r = write_string b @ s \<longleftrightarrow> a = b \<and> r = s"
  using ws.cancel_iff [of a b r s] by (simp add: short_def)

lemma write_string_inj [simp]: "short a \<Longrightarrow> short b \<Longrightarrow> write_string a = write_string b \<longleftrightarrow> a = b"
  using write_string_iff [of a b "[]" "[]"] by simp

lemma put_uint16_iff [simp]:
  "m < 65536 \<Longrightarrow> n < 65536 \<Longrightarrow> put_uint16 m @ r = put_uint16 n @ s \<longleftrightarrow> m = n \<and> r = s"
  using u16.cancel_iff [of m n r s] by simp

lemma put_uint32_iff [simp]:
  "m < 2 ^ 32 \<Longrightarrow> n < 2 ^ 32 \<Longrightarrow> put_uint32 m @ r = put_uint32 n @ s \<longleftrightarrow> m = n \<and> r = s"
  using u32.cancel_iff [of m n r s] by simp

lemma put_inj [simp]:
  "m < 65536 \<Longrightarrow> n < 65536 \<Longrightarrow> put_uint16 m = put_uint16 n \<longleftrightarrow> m = n"
  "m < 2 ^ 32 \<Longrightarrow> n < 2 ^ 32 \<Longrightarrow> put_uint32 m = put_uint32 n \<longleftrightarrow> m = n"
  using put_uint16_iff [of m n "[]" "[]"] put_uint32_iff [of m n "[]" "[]"] by simp_all

lemma write_uint8_iff [simp]:
  "m < 256 \<Longrightarrow> n < 256 \<Longrightarrow> write_uint8 m @ r = write_uint8 n @ s \<longleftrightarrow> m = n \<and> r = s"
  unfolding write_uint8_def by (auto dest: arg_cong [where f = code])

lemma write_bool_iff [simp]: "write_bool a @ r = write_bool b @ s \<longleftrightarrow> a = b \<and> r = s"
  unfolding write_bool_def by (auto dest: arg_cong [where f = code] split: if_splits)

lemma Protocol_code_bound [simp]: "Protocol_code p < 256"
  by (cases p) simp_all

lemma TransportKind_code_bound [simp]: "TransportKind_code t < 256"
  by (cases t) simp_all

lemma hostKind_code_bound [simp]: "hostKind_code k < 256"
  by (cases k) simp_all

lemma VLESSFlow_code_bound [simp]: "VLESSFlow_code f < 256"
  by (cases f) simp_all

lemma Protocol_code_inj [simp]: "Protocol_code p = Protocol_code q \<longleftrightarrow> p = q"
  by (cases p; cases q) simp_all

lemma TransportKind_code_inj [simp]: "TransportKind_code p = TransportKind_code q \<longleftrightarrow> p = q"
  by (cases p; cases q) simp_all

lemma hostKind_code_inj [simp]: "hostKind_code p = hostKind_code q \<longleftrightarrow> p = q"
  by (cases p; cases q) simp_all

lemma VLESSFlow_code_inj [simp]: "VLESSFlow_code p = VLESSFlow_code q \<longleftrightarrow> p = q"
  by (cases p; cases q) simp_all

lemma encode_strings_iff [simp]:
  assumes "length xs < 256" "length ys < 256" "list_all short xs" "list_all short ys"
  shows "encode_strings xs @ r = encode_strings ys @ s \<longleftrightarrow> xs = ys \<and> r = s"
proof
  assume "encode_strings xs @ r = encode_strings ys @ s"
  then have "length xs = length ys" "concat (map write_string xs) @ r = concat (map write_string ys) @ s"
    using assms(1,2) by (simp_all add: encode_strings_def)
  moreover have "list_all (\<lambda>s. length s < 256 ^ 4) xs" "list_all (\<lambda>s. length s < 256 ^ 4) ys"
    using assms(3,4) by (simp_all add: list_all_iff short_def)
  ultimately show "xs = ys \<and> r = s" by (intro ws.concat_cancel)
qed simp

text \<open>The part of a configuration that the encoding without credentials keeps.\<close>

definition redact_security :: "bool \<Rightarrow> SecurityOptions \<Rightarrow> SecurityOptions" where
  "redact_security inc s =
     (if inc then s else s\<lparr>sec_reality := map_option (\<lambda>r. r\<lparr>reality_shortID := []\<rparr>) (sec_reality s)\<rparr>)"

definition redact_hysteria :: "bool \<Rightarrow> Hysteria2Options \<Rightarrow> Hysteria2Options" where
  "redact_hysteria inc h =
     (if inc then h else h\<lparr>hy_obfsPassword := map_option (\<lambda>_. []) (hy_obfsPassword h)\<rparr>)"

definition redact_advanced :: "bool \<Rightarrow> advancedConnection \<Rightarrow> advancedConnection" where
  "redact_advanced inc a =
     a\<lparr>adv_security := redact_security inc (adv_security a),
       adv_hysteria := map_option (redact_hysteria inc) (adv_hysteria a)\<rparr>"

definition redact :: "bool \<Rightarrow> Configuration \<Rightarrow> Configuration" where
  "redact inc c =
     c\<lparr>cfg_credential := (if inc then cfg_credential c else
          \<lparr>cred_protocol = cred_protocol (cfg_credential c), cred_secret = None, cred_username = []\<rparr>),
       cfg_advanced := map_option (redact_advanced inc) (cfg_advanced c)\<rparr>"

lemma encode_security_cancel:
  assumes "SecurityOptions_wf s" "SecurityOptions_wf t" "encode_security s inc @ r = encode_security t inc @ u"
  shows "redact_security inc s = redact_security inc t \<and> r = u"
proof -
  have "sec_alpn s = sec_alpn t" "sec_fingerprint s = sec_fingerprint t"
    and rest: "(case sec_reality s of None \<Rightarrow> write_bool False
        | Some r \<Rightarrow> write_bool True @ write_string (reality_publicKey r)
            @ (if inc then write_string (reality_shortID r) else [])) @ r
      = (case sec_reality t of None \<Rightarrow> write_bool False
        | Some r \<Rightarrow> write_bool True @ write_string (reality_publicKey r)
            @ (if inc then write_string (reality_shortID r) else [])) @ u"
    using assms by (simp_all add: encode_security_def SecurityOptions_wf_def)
  moreover have "map_option (\<lambda>r. if inc then r else r\<lparr>reality_shortID := []\<rparr>) (sec_reality s)
      = map_option (\<lambda>r. if inc then r else r\<lparr>reality_shortID := []\<rparr>) (sec_reality t) \<and> r = u"
    using rest assms(1,2)
    by (cases "sec_reality s"; cases "sec_reality t"; cases inc)
      (auto simp: SecurityOptions_wf_def Reality_wf_def intro!: Reality.equality)
  ultimately show ?thesis
    by (cases inc) (auto simp: redact_security_def option.map_ident intro!: SecurityOptions.equality)
qed

definition hysteria_fields :: "bool \<Rightarrow> Hysteria2Options \<Rightarrow> int \<times> int \<times> string option" where
  "hysteria_fields inc h = (hy_upMbps h, hy_downMbps h, hy_obfsPassword (redact_hysteria inc h))"

lemma encode_hysteria_cancel:
  assumes "pred_option Hysteria2Options_wf h" "pred_option Hysteria2Options_wf k"
    "encode_hysteria h inc @ r = encode_hysteria k inc @ s"
  shows "map_option (hysteria_fields inc) h = map_option (hysteria_fields inc) k \<and> r = s"
proof (cases h; cases k)
  fix x y assume hk: "h = Some x" "k = Some y"
  have small: "nat (hy_upMbps z mod 2 ^ 32) = nat (hy_upMbps z)" "nat (hy_downMbps z mod 2 ^ 32) = nat (hy_downMbps z)"
      "nat (hy_upMbps z) < 2 ^ 32" "nat (hy_downMbps z) < 2 ^ 32" if "Hysteria2Options_wf z" for z
    using that by (auto simp: Hysteria2Options_wf_def)
  have "Hysteria2Options_wf x" "Hysteria2Options_wf y" using hk assms(1,2) by simp_all
  note small = small [OF this(1)] small [OF this(2)]
  have "nat (hy_upMbps x) = nat (hy_upMbps y)" "nat (hy_downMbps x) = nat (hy_downMbps y)"
    and rest: "write_bool (hy_obfsPassword x \<noteq> None)
        @ (case hy_obfsPassword x of Some p \<Rightarrow> if inc then write_string p else [] | None \<Rightarrow> []) @ r
      = write_bool (hy_obfsPassword y \<noteq> None)
        @ (case hy_obfsPassword y of Some p \<Rightarrow> if inc then write_string p else [] | None \<Rightarrow> []) @ s"
    using assms(3) hk unfolding encode_hysteria_def by (simp_all only: option.case small append_assoc write_bool_iff put_uint32_iff)
  then have "hy_upMbps x = hy_upMbps y" "hy_downMbps x = hy_downMbps y"
    using assms(1,2) hk by (auto simp: Hysteria2Options_wf_def eq_nat_nat_iff)
  with rest hk assms(1,2) show ?thesis
    by (cases "hy_obfsPassword x"; cases "hy_obfsPassword y"; cases inc)
      (auto simp: hysteria_fields_def redact_hysteria_def Hysteria2Options_wf_def)
qed (use assms(3) in \<open>auto simp: encode_hysteria_def\<close>)

lemma encode_base_cancel:
  assumes "Configuration_wf c" "Configuration_wf d" "encode_base c @ r = encode_base d @ s"
  shows "cfg_protocol c = cfg_protocol d \<and> cfg_address c = cfg_address d
    \<and> tr_kind (cfg_transport c) = tr_kind (cfg_transport d)
    \<and> WebSocketPath (cfg_transport c) = WebSocketPath (cfg_transport d) \<and> cfg_tls c = cfg_tls d \<and> r = s"
  using assms
  by (simp add: encode_base_def Configuration_wf_def Address_wf_def Transport_wf_def TLS_wf_def
      Address.equality TLSConfig.equality)

lemma identity_domain_versions:
  "identity_domain c inc = identity_domain d inc \<Longrightarrow> version2 c = version2 d \<and> version3 c = version3 d"
  by (cases inc) (auto simp: identity_domain_def version2_def split: if_splits)

lemma identity_domain_short [simp]: "short (identity_domain c inc)"
  by (simp add: identity_domain_def short_def)

text \<open>For a well-formed transport the encoded fields determine all of them.\<close>

lemma Transport_wf_advanced:
  assumes "Transport_wf t"
  shows "tr_advanced t = (if tr_kind t = TransportTCP \<or> tr_kind t = TransportWebSocket then None
     else Some \<lparr>at_path = Transport_Path t, at_host = Transport_Host t,
       at_service = (if tr_kind t = TransportXHTTP then [] else identityService t),
       at_mode = (if tr_kind t = TransportXHTTP then identityService t else [])\<rparr>)"
proof (cases "tr_advanced t")
  case None
  then show ?thesis using assms by (auto simp: Transport_wf_def Transport_valid_def)
next
  case (Some a)
  then have "advancedTransport_valid a (tr_kind t)" "tr_kind t = TransportQUIC \<longrightarrow> at_mode a = []"
    using assms by (auto simp: Transport_wf_def Transport_valid_def Transport_Mode_def)
  then show ?thesis using Some
    by (cases "tr_kind t") (auto simp: advancedTransport_valid_def Transport_Path_def Transport_Host_def
        identityService_def Transport_Mode_def Transport_Service_def)
qed

lemma Transport_wf_path:
  "Transport_wf t \<Longrightarrow> tr_webSocketPath t = (if tr_kind t = TransportWebSocket then Some (WebSocketPath t) else None)"
  by (auto simp: Transport_wf_def Transport_valid_def WebSocketPath_def advancedTransport_valid_def
      split: option.splits if_splits)

lemma Transport_fields:
  assumes "Transport_wf t" "Transport_wf u" "tr_kind t = tr_kind u" "WebSocketPath t = WebSocketPath u"
    "tr_webSocketHost t = tr_webSocketHost u" "Transport_Path t = Transport_Path u"
    "Transport_Host t = Transport_Host u" "identityService t = identityService u"
  shows "t = u"
  by (rule Transport.equality)
    (simp_all only: Transport_wf_advanced [OF assms(1)] Transport_wf_advanced [OF assms(2)]
      Transport_wf_path [OF assms(1)] Transport_wf_path [OF assms(2)] assms(3-8), simp)

lemma Credential_fields:
  "Credential_wf a \<Longrightarrow> Credential_wf b \<Longrightarrow> cred_protocol a = cred_protocol b \<Longrightarrow>
   Credential_Reveal a = Credential_Reveal b \<Longrightarrow> cred_username a = cred_username b \<Longrightarrow> a = b"
  by (rule Credential.equality)
    (auto simp: Credential_wf_def Credential_valid_def Credential_Reveal_def split: option.splits)

lemma write_string_nonempty [simp]: "write_string s \<noteq> []"
proof -
  have "length (put_uint32 (length s)) = 4" by (simp add: put_uint32_def)
  then have "put_uint32 (length s) \<noteq> []" by (metis length_0_conv zero_neq_numeral)
  then show ?thesis by (simp add: write_string_def)
qed

lemma encode_ports_inj:
  assumes "map_option (hysteria_fields inc) h = map_option (hysteria_fields inc) k"
    "pred_option Hysteria2Options_wf h" "pred_option Hysteria2Options_wf k"
    "(case h of None \<Rightarrow> [] | Some h \<Rightarrow> if hy_portRanges h = [] then []
        else write_string ''hysteria2-ports/v1'' @ encode_strings (hy_portRanges h))
     = (case k of None \<Rightarrow> [] | Some h \<Rightarrow> if hy_portRanges h = [] then []
        else write_string ''hysteria2-ports/v1'' @ encode_strings (hy_portRanges h))"
  shows "map_option hy_portRanges h = map_option hy_portRanges k"
proof (cases h; cases k)
  fix x y assume hk: "h = Some x" "k = Some y"
  have "list_all short (hy_portRanges x)" "list_all short (hy_portRanges y)"
    "length (hy_portRanges x) < 256" "length (hy_portRanges y) < 256"
    using assms(2,3) hk by (simp_all add: Hysteria2Options_wf_def)
  then show ?thesis
    using assms(4) hk encode_strings_iff [of "hy_portRanges x" "hy_portRanges y" "[]" "[]"]
    by (auto simp: short_def split: if_splits)
qed (use assms(1) in auto)

text \<open>The options, from their encoded fields and their ports.\<close>

lemma redact_hysteria_eq:
  assumes "map_option (hysteria_fields inc) h = map_option (hysteria_fields inc) k"
    "map_option hy_portRanges h = map_option hy_portRanges k"
  shows "map_option (redact_hysteria inc) h = map_option (redact_hysteria inc) k"
  using assms by (cases h; cases k; cases inc)
    (auto simp: hysteria_fields_def redact_hysteria_def intro!: Hysteria2Options.equality)

lemma valid_version3: "Configuration_valid c \<Longrightarrow> version3 c \<longleftrightarrow> cfg_advanced c \<noteq> None"
  using Configuration_valid_parts(1) [of c]
  by (cases "cfg_advanced c") (simp_all add: version3_def advancedConnection_valid_def Let_def)

lemma valid_plain_protocol:
  "Configuration_valid c \<Longrightarrow> cfg_advanced c = None \<Longrightarrow>
   cfg_protocol c \<noteq> ProtocolSOCKS5 \<and> cfg_protocol c \<noteq> ProtocolHTTPProxy \<and> tr_advanced (cfg_transport c) = None"
  using Configuration_valid_parts(1) [of c] by (simp add: advancedConnection_valid_def Let_def)

lemma encode_version2_cancel:
  "Configuration_wf c \<Longrightarrow> Configuration_wf d \<Longrightarrow> encode_version2 c @ r = encode_version2 d @ s \<Longrightarrow>
   tr_webSocketHost (cfg_transport c) = tr_webSocketHost (cfg_transport d) \<and> cfg_method c = cfg_method d \<and> r = s"
  by (simp add: encode_version2_def Configuration_wf_def Transport_wf_def)

lemma encode_version3_cancel:
  assumes "Configuration_wf c" "Configuration_wf d" "cfg_advanced c = Some a" "cfg_advanced d = Some b"
    "encode_version3 c inc @ r = encode_version3 d inc @ s"
  shows "Transport_Path (cfg_transport c) = Transport_Path (cfg_transport d)
    \<and> Transport_Host (cfg_transport c) = Transport_Host (cfg_transport d)
    \<and> identityService (cfg_transport c) = identityService (cfg_transport d)
    \<and> adv_flow a = adv_flow b \<and> redact_security inc (adv_security a) = redact_security inc (adv_security b)
    \<and> map_option (hysteria_fields inc) (adv_hysteria a) = map_option (hysteria_fields inc) (adv_hysteria b)
    \<and> r = s"
proof -
  have wf: "SecurityOptions_wf (adv_security a)" "SecurityOptions_wf (adv_security b)"
    "pred_option Hysteria2Options_wf (adv_hysteria a)" "pred_option Hysteria2Options_wf (adv_hysteria b)"
    "Transport_wf (cfg_transport c)" "Transport_wf (cfg_transport d)"
    using assms(1-4) by (simp_all add: Configuration_wf_def)
  then have head: "Transport_Path (cfg_transport c) = Transport_Path (cfg_transport d)
      \<and> Transport_Host (cfg_transport c) = Transport_Host (cfg_transport d)
      \<and> identityService (cfg_transport c) = identityService (cfg_transport d) \<and> adv_flow a = adv_flow b"
    and rest: "encode_security (adv_security a) inc @ encode_hysteria (adv_hysteria a) inc @ r
      = encode_security (adv_security b) inc @ encode_hysteria (adv_hysteria b) inc @ s"
    using assms(3-5) by (simp_all add: encode_version3_def Transport_wf_def)
  from encode_security_cancel [OF wf(1,2) rest]
  have sec: "redact_security inc (adv_security a) = redact_security inc (adv_security b)"
    and hy: "encode_hysteria (adv_hysteria a) inc @ r = encode_hysteria (adv_hysteria b) inc @ s" by auto
  from head sec encode_hysteria_cancel [OF wf(3,4) hy] show ?thesis by blast
qed

lemma plain_username:
  assumes "Configuration_wf c" "\<not> version3 c"
  shows "cred_username (cfg_credential c) = []"
proof -
  have valid: "Configuration_valid c" and cred: "Credential_wf (cfg_credential c)"
    using assms(1) by (simp_all add: Configuration_wf_def)
  then have "cfg_advanced c = None" using assms(2) valid_version3 by blast
  then show ?thesis
    using valid_plain_protocol [OF valid] Configuration_valid_parts(2) [OF valid] cred
    by (simp add: Credential_wf_def)
qed

lemma encode_credential_cancel:
  assumes "Configuration_wf c" "Configuration_wf d" "version3 c = version3 d"
    "encode_credential c @ r = encode_credential d @ s"
  shows "cfg_credential c = cfg_credential d \<and> r = s"
proof -
  have wf: "Credential_wf (cfg_credential c)" "Credential_wf (cfg_credential d)"
    using assms(1,2) by (simp_all add: Configuration_wf_def)
  then have sh: "short (cred_username (cfg_credential c))" "short (cred_username (cfg_credential d))"
    "short (Credential_Reveal (cfg_credential c))" "short (Credential_Reveal (cfg_credential d))"
    by (simp_all add: Credential_wf_def)
  then have head: "cred_protocol (cfg_credential c) = cred_protocol (cfg_credential d)"
      "Credential_Reveal (cfg_credential c) = Credential_Reveal (cfg_credential d)"
    and rest: "(if version3 c then write_string (cred_username (cfg_credential c)) else []) @ r
        = (if version3 c then write_string (cred_username (cfg_credential d)) else []) @ s"
    using assms(3,4) unfolding encode_credential_def by simp_all
  have "cred_username (cfg_credential c) = cred_username (cfg_credential d) \<and> r = s"
  proof (cases "version3 c")
    case True
    then show ?thesis using rest sh by simp
  next
    case False
    then show ?thesis using rest plain_username [OF assms(1)] plain_username [OF assms(2)] assms(3) by simp
  qed
  then show ?thesis using Credential_fields [OF wf] head by blast
qed

text \<open>The two shapes of the encoding after the common fields.\<close>

lemma advanced_part_cancel:
  assumes wf: "Configuration_wf c" "Configuration_wf d" and v3: "version3 c" "version3 d"
    and eq: "encode_version3 c inc @ (if inc then encode_credential c else []) @ encode_ports c
      = encode_version3 d inc @ (if inc then encode_credential d else []) @ encode_ports d"
  shows "Transport_Path (cfg_transport c) = Transport_Path (cfg_transport d)
    \<and> Transport_Host (cfg_transport c) = Transport_Host (cfg_transport d)
    \<and> identityService (cfg_transport c) = identityService (cfg_transport d)
    \<and> map_option (redact_advanced inc) (cfg_advanced c) = map_option (redact_advanced inc) (cfg_advanced d)
    \<and> (inc \<longrightarrow> cfg_credential c = cfg_credential d)"
proof -
  have "Configuration_valid c" "Configuration_valid d" using wf by (simp_all add: Configuration_wf_def)
  then obtain a b where ab: "cfg_advanced c = Some a" "cfg_advanced d = Some b" using v3 valid_version3 by blast
  from encode_version3_cancel [OF wf ab eq]
  have fields: "Transport_Path (cfg_transport c) = Transport_Path (cfg_transport d)
      \<and> Transport_Host (cfg_transport c) = Transport_Host (cfg_transport d)
      \<and> identityService (cfg_transport c) = identityService (cfg_transport d)"
    and adv: "adv_flow a = adv_flow b" "redact_security inc (adv_security a) = redact_security inc (adv_security b)"
      "map_option (hysteria_fields inc) (adv_hysteria a) = map_option (hysteria_fields inc) (adv_hysteria b)"
    and tail: "(if inc then encode_credential c else []) @ encode_ports c
      = (if inc then encode_credential d else []) @ encode_ports d" by blast+
  have cred: "(inc \<longrightarrow> cfg_credential c = cfg_credential d) \<and> encode_ports c = encode_ports d"
    using tail encode_credential_cancel [OF wf, of "encode_ports c" "encode_ports d"] v3 by (cases inc) simp_all
  then have "map_option hy_portRanges (adv_hysteria a) = map_option hy_portRanges (adv_hysteria b)"
    using adv(3) wf ab
    by (intro encode_ports_inj) (simp_all add: encode_ports_def Configuration_Hysteria2_def Configuration_wf_def)
  from redact_hysteria_eq [OF adv(3) this] adv(1,2)
  have "redact_advanced inc a = redact_advanced inc b"
    by (simp add: redact_advanced_def advancedConnection.equality)
  with fields cred ab show ?thesis by simp
qed

lemma plain_part_cancel:
  assumes wf: "Configuration_wf c" "Configuration_wf d" and v3: "\<not> version3 c" "\<not> version3 d"
    and eq: "(if inc then encode_credential c else []) = (if inc then encode_credential d else [])"
  shows "Transport_Path (cfg_transport c) = Transport_Path (cfg_transport d)
    \<and> Transport_Host (cfg_transport c) = Transport_Host (cfg_transport d)
    \<and> identityService (cfg_transport c) = identityService (cfg_transport d)
    \<and> map_option (redact_advanced inc) (cfg_advanced c) = map_option (redact_advanced inc) (cfg_advanced d)
    \<and> (inc \<longrightarrow> cfg_credential c = cfg_credential d)"
  using v3 eq encode_credential_cancel [OF wf, of "[]" "[]"]
  by (cases inc) (simp_all add: version3_def Transport_Path_def Transport_Host_def identityService_def
      Transport_Service_def Transport_Mode_def)

lemma redact_eqI:
  assumes wf: "Configuration_wf c" "Configuration_wf d"
    and "cfg_protocol c = cfg_protocol d" "cfg_address c = cfg_address d" "cfg_tls c = cfg_tls d"
    "cfg_method c = cfg_method d" "cfg_transport c = cfg_transport d" "inc \<longrightarrow> cfg_credential c = cfg_credential d"
    "map_option (redact_advanced inc) (cfg_advanced c) = map_option (redact_advanced inc) (cfg_advanced d)"
  shows "redact inc c = redact inc d"
proof -
  have "cred_protocol (cfg_credential c) = cred_protocol (cfg_credential d)"
    using wf assms(3) Configuration_valid_parts(2) by (metis Configuration_wf_def)
  with assms(3-) show ?thesis by (cases inc) (simp_all add: redact_def Configuration.equality)
qed

lemma not_version2:
  "Configuration_wf c \<Longrightarrow> \<not> version2 c \<Longrightarrow> tr_webSocketHost (cfg_transport c) = [] \<and> cfg_method c = []"
  by (simp add: version2_def Configuration_wf_def)

lemma canonicalConfiguration_redact:
  assumes wf: "Configuration_wf c" "Configuration_wf d"
    and eq: "canonicalConfiguration c inc = canonicalConfiguration d inc"
  shows "redact inc c = redact inc d"
proof -
  have dom: "identity_domain c inc = identity_domain d inc"
    using eq by (simp add: canonicalConfiguration_def)
  note versions = identity_domain_versions [OF dom]
  let ?tail = "\<lambda>c. (if version3 c then encode_version3 c inc else [])
     @ (if inc then encode_credential c else []) @ (if version3 c then encode_ports c else [])"
  have "encode_base c @ (if version2 c then encode_version2 c else []) @ ?tail c
      = encode_base d @ (if version2 d then encode_version2 d else []) @ ?tail d"
    using eq dom by (simp add: canonicalConfiguration_def)
  from encode_base_cancel [OF wf this]
  have base: "cfg_protocol c = cfg_protocol d" "cfg_address c = cfg_address d"
      "tr_kind (cfg_transport c) = tr_kind (cfg_transport d)"
      "WebSocketPath (cfg_transport c) = WebSocketPath (cfg_transport d)" "cfg_tls c = cfg_tls d"
    and e2: "(if version2 c then encode_version2 c else []) @ ?tail c
      = (if version2 d then encode_version2 d else []) @ ?tail d" by blast+
  have v2: "tr_webSocketHost (cfg_transport c) = tr_webSocketHost (cfg_transport d) \<and> cfg_method c = cfg_method d
      \<and> ?tail c = ?tail d"
  proof (cases "version2 c")
    case True
    then show ?thesis using e2 versions encode_version2_cancel [OF wf, of "?tail c" "?tail d"] by simp
  next
    case False
    then show ?thesis
      using e2 versions not_version2 [OF wf(1)] not_version2 [OF wf(2)] by (simp only: if_False append_Nil simp_thms)
  qed
  have adv: "Transport_Path (cfg_transport c) = Transport_Path (cfg_transport d)
    \<and> Transport_Host (cfg_transport c) = Transport_Host (cfg_transport d)
    \<and> identityService (cfg_transport c) = identityService (cfg_transport d)
    \<and> map_option (redact_advanced inc) (cfg_advanced c) = map_option (redact_advanced inc) (cfg_advanced d)
    \<and> (inc \<longrightarrow> cfg_credential c = cfg_credential d)"
    using v2 versions advanced_part_cancel [OF wf, of inc] plain_part_cancel [OF wf, of inc]
    by (cases "version3 c") simp_all
  have "cfg_transport c = cfg_transport d"
    using wf base v2 adv by (intro Transport_fields) (simp_all add: Configuration_wf_def)
  with base v2 adv show ?thesis by (intro redact_eqI wf) blast+
qed

text \<open>Conversely, the encoding without credentials depends on nothing else.\<close>

lemma version_redact [simp]: "version3 (redact inc c) = version3 c" "version2 (redact inc c) = version2 c"
  by (simp_all add: version2_def version3_def redact_def)

lemma encode_redact [simp]:
  "encode_base (redact inc c) = encode_base c" "encode_version2 (redact inc c) = encode_version2 c"
  "identity_domain (redact inc c) inc = identity_domain c inc"
  by (simp_all add: encode_base_def encode_version2_def identity_domain_def) (simp_all add: redact_def)

lemma encode_security_redact [simp]: "encode_security (redact_security inc s) inc = encode_security s inc"
  by (cases "sec_reality s") (simp_all add: encode_security_def redact_security_def)

lemma encode_hysteria_redact [simp]:
  "encode_hysteria (map_option (redact_hysteria inc) h) inc = encode_hysteria h inc"
  by (cases h; cases "hy_obfsPassword (the h)") (simp_all add: encode_hysteria_def redact_hysteria_def)

lemma encode_version3_redact [simp]: "encode_version3 (redact inc c) inc = encode_version3 c inc"
  by (cases "cfg_advanced c") (simp_all add: encode_version3_def redact_def redact_advanced_def)

lemma encode_ports_redact [simp]: "encode_ports (redact inc c) = encode_ports c"
  by (cases "cfg_advanced c"; cases "adv_hysteria (the (cfg_advanced c))")
    (simp_all add: encode_ports_def redact_def redact_advanced_def redact_hysteria_def Configuration_Hysteria2_def)

lemma encode_credential_redact [simp]: "encode_credential (redact True c) = encode_credential c"
  by (simp add: encode_credential_def) (simp add: redact_def)

lemma canonicalConfiguration_redacted: "canonicalConfiguration (redact inc c) inc = canonicalConfiguration c inc"
  by (cases inc) (simp_all add: canonicalConfiguration_def)

lemma canonicalConfiguration_iff:
  "Configuration_wf c \<Longrightarrow> Configuration_wf d \<Longrightarrow>
   canonicalConfiguration c inc = canonicalConfiguration d inc \<longleftrightarrow> redact inc c = redact inc d"
  using canonicalConfiguration_redact canonicalConfiguration_redacted by metis

lemma redact_True [simp]: "redact True c = c"
proof -
  have "map_option (redact_hysteria True) h = h" for h by (cases h) (simp_all add: redact_hysteria_def)
  then have "redact_advanced True a = a" for a by (simp add: redact_advanced_def redact_security_def)
  then have "map_option (redact_advanced True) x = x" for x by (cases x) simp_all
  then show ?thesis by (simp add: redact_def)
qed

section \<open>Equivalence of configurations\<close>

lemma SecurityOptions_equal_iff: "SecurityOptions_equal s t \<longleftrightarrow> s = t"
  by (auto simp: SecurityOptions_equal_def list_all2_eq [symmetric] intro!: SecurityOptions.equality)

lemma hysteria_equal_iff:
  assumes "Hysteria2Options_wf h" "Hysteria2Options_wf k"
  shows "hy_upMbps h = hy_upMbps k \<and> hy_downMbps h = hy_downMbps k
    \<and> RevealSalamanderPassword h = RevealSalamanderPassword k \<and> hy_portRanges h = hy_portRanges k \<longleftrightarrow> h = k"
  using assms
  by (cases "hy_obfsPassword h"; cases "hy_obfsPassword k")
    (auto simp: RevealSalamanderPassword_def Hysteria2Options_wf_def intro!: Hysteria2Options.equality)

lemma advancedConnection_equal_iff:
  assumes "pred_option (\<lambda>a. SecurityOptions_wf (adv_security a) \<and> pred_option Hysteria2Options_wf (adv_hysteria a)) x"
    "pred_option (\<lambda>a. SecurityOptions_wf (adv_security a) \<and> pred_option Hysteria2Options_wf (adv_hysteria a)) y"
  shows "advancedConnection_equal x y \<longleftrightarrow> x = y"
proof (cases x; cases y)
  fix a b assume xy: "x = Some a" "y = Some b"
  then show ?thesis
    using assms hysteria_equal_iff
    by (cases "adv_hysteria a"; cases "adv_hysteria b")
      (auto simp: advancedConnection_equal_def SecurityOptions_equal_iff intro!: advancedConnection.equality)
qed (auto simp: advancedConnection_equal_def)

lemma Credential_equal_iff: "Credential_wf a \<Longrightarrow> Credential_wf b \<Longrightarrow> Credential_equal a b \<longleftrightarrow> a = b"
  using Credential_fields [of a b] by (auto simp: Credential_equal_def Credential_wf_def)

lemma Transport_equal_iff:
  assumes "Transport_wf t" "Transport_wf u"
  shows "Transport_equal t u \<longleftrightarrow> t = u"
  using Transport_wf_path [OF assms(1)] Transport_wf_path [OF assms(2)]
  by (auto simp: Transport_equal_def intro!: Transport.equality)

lemma Equivalent_iff: "Configuration_wf c \<Longrightarrow> Configuration_wf d \<Longrightarrow> Equivalent c d \<longleftrightarrow> c = d"
  by (auto simp: Equivalent_def Configuration_wf_def Credential_equal_iff Transport_equal_iff
      advancedConnection_equal_iff intro: Configuration.equality)

section \<open>Identifiers\<close>

lemma base32_digit_cases:
  "c \<in> set base32_alphabet \<Longrightarrow>
   to_upper_char (to_lower_char c) = c \<and> code c < 128 \<and> code (to_lower_char c) < 128 \<and> 32 \<le> code c
   \<and> to_lower_char (to_lower_char c) = to_lower_char c"
  unfolding base32_alphabet_def
  by (auto simp: to_upper_char_def to_lower_char_def is_upper_def is_lower_def code_def byte_def)

lemma to_lower_ascii: "list_all (\<lambda>c. code c < 128) s \<Longrightarrow> to_lower s = map to_lower_char s"
  by (induction s) auto

lemma to_upper_ascii: "list_all (\<lambda>c. code c < 128) s \<Longrightarrow> to_upper s = map to_upper_char s"
  by (induction s) auto

lemma base32_case:
  assumes "set s \<subseteq> set base32_alphabet"
  shows "to_upper (to_lower s) = s \<and> to_lower (to_lower s) = to_lower s"
proof -
  have ascii: "list_all (\<lambda>c. code c < 128) s" "list_all (\<lambda>c. code c < 128) (map to_lower_char s)"
    using assms base32_digit_cases by (auto simp: list_all_iff)
  have "map (\<lambda>c. to_upper_char (to_lower_char c)) s = s" "map (\<lambda>c. to_lower_char (to_lower_char c)) s = map to_lower_char s"
    using assms base32_digit_cases by (auto intro!: map_idI)
  then show ?thesis
    by (simp add: to_lower_ascii [OF ascii(1)] to_upper_ascii [OF ascii(2)] to_lower_ascii [OF ascii(2)] comp_def)
qed

lemma base32_encode_digits: "set (base32_encode bs) \<subseteq> set base32_alphabet"
  using radix_encode_alphabet [of base32_alphabet 5] length_alphabets(1) by (auto simp: base32_encode_def)

lemma base32_decode_encode:
  assumes "length bs = 32"
  shows "base32_decode (base32_encode bs) = Some bs"
proof -
  obtain pad where pad: "pad < 5" "radix_bits 5 base32_alphabet (base32_encode bs) = Some (byte_bits bs @ replicate pad False)"
      "5 * length (base32_encode bs) = 8 * length bs + pad"
    using radix_bits_encode [OF distinct_alphabets(1) length_alphabets(1)] by (auto simp: base32_encode_def)
  have len: "length (base32_encode bs) = 52" using pad(1,3) assms by simp
  have "strip_newlines (base32_encode bs) = base32_encode bs"
    using base32_encode_digits [of bs] base32_digit_cases by (intro strip_newlines_id) (auto simp: list_all_iff)
  then show ?thesis
    using pad assms len whole_bytes_byte_bits [of bs "length (byte_bits bs @ replicate pad False)" "replicate pad False"]
    by (simp add: base32_decode_def Let_def)
qed

definition version_prefix :: "Configuration \<Rightarrow> string" where
  "version_prefix c = (if version3 c then ''ef3_'' else if version2 c then ''ef2_'' else ''ef1_'')"

lemma Configuration_Identity_valid:
  assumes "Configuration_valid c"
  shows "Configuration_Identity c =
    \<lparr>id_value = version_prefix c @ to_lower (base32_encode (sha256 (canonicalConfiguration c False))),
     id_revision = Some (sha256 (canonicalConfiguration c True))\<rparr>"
  using assms by (auto simp: Configuration_Identity_def version_prefix_def version2_def version3_def Let_def)

lemma version_prefix_redact: "version_prefix (redact inc c) = version_prefix c"
  by (simp add: version_prefix_def)

lemma length_version_prefix [simp]: "length (version_prefix c) = 4"
  by (simp add: version_prefix_def)

lemma version_prefix_drop: "drop 4 (version_prefix c @ s) = s"
  by simp

lemma base32_lower_inj:
  assumes "length x = 32" "length y = 32" "to_lower (base32_encode x) = to_lower (base32_encode y)"
  shows "x = y"
  using base32_case [OF base32_encode_digits, of x] base32_case [OF base32_encode_digits, of y]
    base32_decode_encode [OF assms(1)] base32_decode_encode [OF assms(2)] assms(3)
  by (metis option.inject)

text \<open>The sample configuration with another password.\<close>

definition sample_rotated :: Configuration where
  "sample_rotated = sample_configuration\<lparr>cfg_credential := sample_credential\<lparr>cred_secret := Some ''new''\<rparr>\<rparr>"

lemma sample_rotated_parts:
  "NewTrojanCredential ''new'' = Inr (sample_credential\<lparr>cred_secret := Some ''new''\<rparr>)"
  "NewConfiguration ProtocolTrojan sample_address (sample_credential\<lparr>cred_secret := Some ''new''\<rparr>) NewTCPTransport sample_tls
    = Inr sample_rotated"
  by code_simp+

lemma sample_rotated_built: "built sample_rotated"
  by (rule built_basic [OF sample_parts(1) _ _ _ sample_rotated_parts(2)])
    (auto intro: built_credential.intros(2) [OF sample_rotated_parts(1)] built_transport.intros
      built_tls.intros(2) [OF sample_parts(3)])

text \<open>Two inputs that break the digest.\<close>

definition sha256_collision :: "bytes \<Rightarrow> bytes \<Rightarrow> bool" where
  "sha256_collision x y \<longleftrightarrow> x \<noteq> y \<and> sha256 x = sha256 y"

lemma ID_eq_iff:
  assumes "Configuration_wf c" "Configuration_wf d"
  shows "Configuration_ID c = Configuration_ID d \<longleftrightarrow>
    version_prefix c = version_prefix d \<and> sha256 (canonicalConfiguration c False) = sha256 (canonicalConfiguration d False)"
proof -
  have valid: "Configuration_valid c" "Configuration_valid d" using assms by (simp_all add: Configuration_wf_def)
  show ?thesis
  proof
    assume "Configuration_ID c = Configuration_ID d"
    then have eq: "version_prefix c @ to_lower (base32_encode (sha256 (canonicalConfiguration c False)))
        = version_prefix d @ to_lower (base32_encode (sha256 (canonicalConfiguration d False)))"
      using valid by (simp add: Configuration_ID_def Configuration_Identity_valid)
    have "to_lower (base32_encode (sha256 (canonicalConfiguration c False)))
        = to_lower (base32_encode (sha256 (canonicalConfiguration d False)))"
      using arg_cong [OF eq, of "drop 4"] unfolding version_prefix_drop .
    with eq show "version_prefix c = version_prefix d
        \<and> sha256 (canonicalConfiguration c False) = sha256 (canonicalConfiguration d False)"
      using base32_lower_inj by auto
  qed (use valid in \<open>simp add: Configuration_ID_def Configuration_Identity_valid\<close>)
qed

text \<open>
  C1. The connection identity is exact: two configurations that the constructors can build have
  equal identities, without a SHA-256 collision between their canonical encodings, precisely
  when they are equivalent. No two different connections share the encoding that is hashed.
\<close>

theorem identity_exact:
  assumes "built c" "built d"
  shows "Identity_Equal (Configuration_Identity c) (Configuration_Identity d)
      \<and> \<not> sha256_collision (canonicalConfiguration c True) (canonicalConfiguration d True)
    \<longleftrightarrow> Equivalent c d"
proof -
  have wf: "Configuration_wf c" "Configuration_wf d" using assms built_wf by blast+
  then have valid: "Configuration_valid c" "Configuration_valid d" by (simp_all add: Configuration_wf_def)
  have enc: "canonicalConfiguration c True = canonicalConfiguration d True \<longleftrightarrow> c = d"
    using canonicalConfiguration_iff [OF wf, of True] by simp
  show ?thesis
    unfolding Equivalent_iff [OF wf] enc [symmetric]
    by (auto simp: Identity_Equal_def Configuration_Identity_valid [OF valid(1)] Configuration_Identity_valid [OF valid(2)]
        sha256_collision_def enc)
qed

theorem identity_exact_witness:
  "built sample_configuration \<and> built sample_rotated
   \<and> \<not> (Identity_Equal (Configuration_Identity sample_configuration) (Configuration_Identity sample_rotated)
      \<and> \<not> sha256_collision (canonicalConfiguration sample_configuration True) (canonicalConfiguration sample_rotated True))"
proof -
  have "\<not> Equivalent sample_configuration sample_rotated" by code_simp
  with identity_exact [OF sample_built sample_rotated_built] sample_built sample_rotated_built show ?thesis by blast
qed

text \<open>
  C4. The public endpoint identifier carries everything except the secrets: two buildable
  configurations have the same identifier, without a SHA-256 collision, precisely when they
  agree on every field once the credential, the Reality short identifier and the obfuscation
  password are removed. Rotating credentials never changes the identifier, and no two
  different endpoints share it.
\<close>

theorem endpoint_id_exact:
  assumes "built c" "built d"
  shows "Configuration_ID c = Configuration_ID d
      \<and> \<not> sha256_collision (canonicalConfiguration c False) (canonicalConfiguration d False)
    \<longleftrightarrow> redact False c = redact False d"
proof -
  have wf: "Configuration_wf c" "Configuration_wf d" using assms built_wf by blast+
  have "redact False c = redact False d \<Longrightarrow> version_prefix c = version_prefix d"
    using version_prefix_redact [of False c] version_prefix_redact [of False d] by simp
  then show ?thesis
    unfolding ID_eq_iff [OF wf] sha256_collision_def canonicalConfiguration_iff [OF wf, of False, symmetric]
    by argo
qed

theorem endpoint_id_exact_witness:
  "built sample_configuration \<and> built sample_rotated \<and> sample_configuration \<noteq> sample_rotated
   \<and> Configuration_ID sample_configuration = Configuration_ID sample_rotated"
proof -
  have "redact False sample_configuration = redact False sample_rotated"
    by (simp add: sample_rotated_def sample_configuration_def redact_def sample_credential_def)
  moreover have "sample_configuration \<noteq> sample_rotated" by code_simp
  ultimately show ?thesis
    using endpoint_id_exact [OF sample_built sample_rotated_built] sample_built sample_rotated_built by blast
qed

text \<open>
  C7. Every identifier a valid configuration produces is accepted by the parser that restores
  identifiers from state.
\<close>

theorem ParseID_of_configuration:
  assumes "Configuration_valid c"
  shows "ParseID (Configuration_ID c) = Inr (Configuration_ID c)"
proof -
  let ?e = "base32_encode (sha256 (canonicalConfiguration c False))"
  have "Configuration_ID c = version_prefix c @ to_lower ?e"
    using assms by (simp add: Configuration_ID_def Configuration_Identity_valid)
  moreover have "list_ex (has_prefix (version_prefix c @ s)) id_prefixes" for s
    by (simp add: version_prefix_def id_prefixes_def has_prefix_def)
  moreover have "to_upper (to_lower ?e) = ?e \<and> to_lower (to_lower ?e) = to_lower ?e"
    by (rule base32_case [OF base32_encode_digits])
  moreover have "base32_decode ?e = Some (sha256 (canonicalConfiguration c False))"
    by (rule base32_decode_encode) simp
  ultimately show ?thesis by (simp add: ParseID_def Let_def)
qed

theorem ParseID_of_configuration_witness:
  "Configuration_valid sample_configuration
   \<and> ParseID (Configuration_ID sample_configuration) = Inr (Configuration_ID sample_configuration)"
proof -
  have "Configuration_valid sample_configuration" by code_simp
  with ParseID_of_configuration [OF this] show ?thesis by blast
qed

section \<open>Order\<close>

definition identity_less :: "Identity \<Rightarrow> Identity \<Rightarrow> bool" where
  "identity_less i j \<longleftrightarrow> Identity_Compare i j < 0"

lemma identity_less_iff:
  "identity_less i j \<longleftrightarrow> id_value i < id_value j \<or> id_value i = id_value j
     \<and> (case id_revision j of None \<Rightarrow> False
        | Some s \<Rightarrow> (case id_revision i of None \<Rightarrow> True | Some r \<Rightarrow> r < s))"
  by (auto simp: identity_less_def Identity_Compare_def bytes_Compare_simps Let_def split: option.splits)

lemma Identity_Compare_0: "Identity_Compare i j = 0 \<longleftrightarrow> i = j"
  by (auto simp: Identity_Compare_def bytes_Compare_simps Let_def intro!: Identity.equality
      split: option.splits if_splits)

lemma Identity_Compare_swap: "Identity_Compare j i = - Identity_Compare i j"
  by (auto simp: Identity_Compare_def bytes_Compare_def Let_def split: option.splits if_splits)

lemma identity_less_trans: "identity_less i j \<Longrightarrow> identity_less j k \<Longrightarrow> identity_less i k"
  by (auto simp: identity_less_iff split: option.splits)

interpretation identity_order: strict_total identity_less "\<lambda>_. True"
proof unfold_locales
  fix x y z :: Identity
  show total: "\<not> identity_less x y \<Longrightarrow> \<not> identity_less y x \<Longrightarrow> x = y" for x y
    using Identity_Compare_swap [of x y] Identity_Compare_0 [of x y] by (simp add: identity_less_def)
  show asym: "identity_less x y \<Longrightarrow> \<not> identity_less y x" for x y
    using Identity_Compare_swap [of x y] by (simp add: identity_less_def)
  show "\<not> identity_less y x \<Longrightarrow> \<not> identity_less z y \<Longrightarrow> \<not> identity_less z x"
    using total asym identity_less_trans by metis
qed

text \<open>
  C10. Identities are totally ordered: the three-way comparison is zero exactly on equal
  identities, changes sign when its arguments are swapped, and is transitive, so a sorted
  inventory has one order.
\<close>

theorem Identity_Compare_order:
  "(Identity_Compare i j = 0 \<longleftrightarrow> i = j) \<and> Identity_Compare j i = - Identity_Compare i j
   \<and> (Identity_Compare i j < 0 \<and> Identity_Compare j k < 0 \<longrightarrow> Identity_Compare i k < 0)"
  using Identity_Compare_0 Identity_Compare_swap identity_less_trans [unfolded identity_less_def] by blast

theorem Identity_Compare_order_witness:
  "Identity_Compare \<lparr>id_value = ''ef1_a'', id_revision = None\<rparr> \<lparr>id_value = ''ef1_b'', id_revision = Some ''r''\<rparr> < 0"
proof -
  let ?i = "\<lparr>id_value = ''ef1_a'', id_revision = None\<rparr>" and ?j = "\<lparr>id_value = ''ef1_a'', id_revision = Some ''r''\<rparr>"
    and ?k = "\<lparr>id_value = ''ef1_b'', id_revision = Some ''r''\<rparr>"
  have "Identity_Compare ?i ?j < 0" "Identity_Compare ?j ?k < 0" by code_simp+
  with Identity_Compare_order [of ?i ?j ?k] show ?thesis by blast
qed

section \<open>The identifiers the parser accepts\<close>

lemma radix_bits_Some_iff: "(\<exists>bits. radix_bits k alphabet s = Some bits) \<longleftrightarrow> set s \<subseteq> set alphabet"
proof (induction s)
  case (Cons c s)
  have "index_of alphabet c = None \<longleftrightarrow> c \<notin> set alphabet" by (induction alphabet) auto
  then show ?case using Cons by (auto split: option.splits)
qed simp

lemma length_radix_bits: "radix_bits k alphabet s = Some bits \<Longrightarrow> length bits = k * length s"
  by (induction s arbitrary: bits) (auto split: option.splits)

lemma length_whole_bytes: "length bits \<le> fuel \<Longrightarrow> length (whole_bytes fuel bits) = length bits div 8"
proof (induction fuel bits rule: whole_bytes.induct)
  case (2 fuel bits)
  then show ?case using le_div_geq [of 8 "length bits"] by auto
qed simp

lemma base32_digest_length:
  assumes "set t \<subseteq> set base32_alphabet" "strip_newlines s = t"
  shows "\<exists>d. base32_decode s = Some d \<and> (length d = 32 \<longleftrightarrow> length t = 52)"
proof -
  obtain bits where bits: "radix_bits 5 base32_alphabet t = Some bits" using assms(1) radix_bits_Some_iff by metis
  define r where "r = length t mod 8"
  define kept where "kept = (if r = 1 \<or> r = 3 \<or> r = 6 then length t - r else length t)"
  have decode: "base32_decode s = Some (whole_bytes (length bits) (take (5 * kept) bits))"
    using bits by (simp add: base32_decode_def assms(2) Let_def r_def kept_def)
  have kept: "kept \<le> length t" by (simp add: kept_def)
  have "length (whole_bytes (length bits) (take (5 * kept) bits)) = (5 * kept) div 8"
    using length_whole_bytes [of "take (5 * kept) bits" "length bits"] length_radix_bits [OF bits] kept by simp
  moreover have "(5 * kept) div 8 = 32 \<longleftrightarrow> kept = 52" by linarith
  moreover have "kept = 52 \<longleftrightarrow> length t = 52"
  proof -
    have "length t - r = 8 * (length t div 8)" using minus_mod_eq_mult_div [of "length t" 8] by (simp add: r_def)
    moreover have "(8 :: nat) * q \<noteq> 52" for q by presburger
    ultimately have "length t - r \<noteq> 52" by metis
    moreover have "r = 4" if "length t = 52" using that by (simp add: r_def)
    ultimately show ?thesis by (auto simp: kept_def split: if_splits)
  qed
  ultimately show ?thesis using decode by simp
qed

lemma base32_decode_alphabet: "base32_decode s = Some d \<Longrightarrow> set (strip_newlines s) \<subseteq> set base32_alphabet"
  using radix_bits_Some_iff [of 5 base32_alphabet "strip_newlines s"] by (auto simp: base32_decode_def Let_def split: option.splits)

lemma id_prefix_split:
  "list_ex (has_prefix value) id_prefixes \<longleftrightarrow> (\<exists>p\<in>set id_prefixes. value = p @ drop 4 value)"
proof -
  have "has_prefix value p \<longleftrightarrow> value = p @ drop 4 value" if "p \<in> set id_prefixes" for p
  proof -
    have len: "length p = 4" using that by (auto simp: id_prefixes_def)
    have "value = take 4 value @ drop 4 value" by simp
    then show ?thesis unfolding has_prefix_def len by (metis append_same_eq)
  qed
  then show ?thesis by (auto simp: list_ex_iff)
qed

lemma ParseID_Inr_iff:
  "ParseID value = Inr i \<longleftrightarrow> i = value \<and> (\<exists>p\<in>set id_prefixes. \<exists>body. value = p @ body \<and> to_lower body = body
     \<and> length (strip_newlines (to_upper body)) = 52 \<and> set (strip_newlines (to_upper body)) \<subseteq> set base32_alphabet)"
proof -
  let ?b = "drop 4 value" let ?t = "strip_newlines (to_upper (drop 4 value))"
  have prefix: "(\<exists>p\<in>set id_prefixes. \<exists>body. value = p @ body \<and> P body)
      \<longleftrightarrow> (\<exists>p\<in>set id_prefixes. value = p @ ?b) \<and> P ?b" for P
    by (auto simp: id_prefixes_def)
  have digest: "(\<exists>d. base32_decode (to_upper ?b) = Some d \<and> length d = 32) \<longleftrightarrow> length ?t = 52 \<and> set ?t \<subseteq> set base32_alphabet"
    using base32_digest_length [of ?t "to_upper ?b"] base32_decode_alphabet [of "to_upper ?b"] by fastforce
  have "ParseID value = Inr i \<longleftrightarrow> i = value \<and> list_ex (has_prefix value) id_prefixes \<and> to_lower ?b = ?b
      \<and> (\<exists>d. base32_decode (to_upper ?b) = Some d \<and> length d = 32)"
    by (auto simp: ParseID_def Let_def invalid_def split: option.splits if_splits)
  then show ?thesis unfolding prefix digest id_prefix_split by blast
qed

text \<open>
  The digest a text stands for, and the sixteen texts of 52 digits that stand for one digest:
  the four spare bits of the last digit are arbitrary.
\<close>

definition id_digest :: "string \<Rightarrow> bytes option" where
  "id_digest i = base32_decode (to_upper (drop 4 i))"

definition id_spelling :: "bytes \<Rightarrow> nat \<Rightarrow> string" where
  "id_spelling d k = map (\<lambda>g. base32_alphabet ! bits_nat g) (group_bits 260 5 (byte_bits d @ nat_bits 4 k))"

lemma id_spelling_bits:
  assumes "length d = 32"
  shows "radix_bits 5 base32_alphabet (id_spelling d k) = Some (byte_bits d @ nat_bits 4 k)" "length (id_spelling d k) = 52"
proof -
  let ?bits = "byte_bits d @ nat_bits 4 k" let ?gs = "group_bits 260 5 ?bits"
  obtain pad where pad: "pad < 5" "concat ?gs = ?bits @ replicate pad False" "list_all (\<lambda>g. length g = 5) ?gs"
    using group_bits_concat [of 5 ?bits 260] assms by auto
  have "5 * length ?gs = 260 + pad" using length_concat_uniform [OF pad(3)] pad(2) assms by simp
  then have "pad = 0" "length ?gs = 52" using pad(1) by presburger+
  then show "radix_bits 5 base32_alphabet (id_spelling d k) = Some ?bits" "length (id_spelling d k) = 52"
    using radix_bits_map_nth [OF distinct_alphabets(1) length_alphabets(1) pad(3)] pad(2) by (simp_all add: id_spelling_def)
qed

lemma id_spelling_digits: "length d = 32 \<Longrightarrow> set (id_spelling d k) \<subseteq> set base32_alphabet"
  using id_spelling_bits(1) radix_bits_Some_iff by metis

lemma id_spelling_inj:
  assumes "length d = 32" "k < 16" "l < 16" "id_spelling d k = id_spelling d l"
  shows "k = l"
proof -
  have "byte_bits d @ nat_bits 4 k = byte_bits d @ nat_bits 4 l"
    using id_spelling_bits(1) [OF assms(1), of k] id_spelling_bits(1) [OF assms(1), of l] unfolding assms(4)
    by (simp only: option.inject)
  then have "bits_nat (nat_bits 4 k) = bits_nat (nat_bits 4 l)" by (simp only: append_same_eq same_append_eq)
  moreover have "bits_nat (nat_bits 4 n) = n" if "n < 16" for n using that by (intro bits_nat_nat_bits) simp
  ultimately show ?thesis using assms(2,3) by metis
qed

lemma index_of_Some: "index_of xs c = Some v \<Longrightarrow> v < length xs \<and> xs ! v = c"
  by (induction xs arbitrary: v) (auto split: if_splits)

lemma radix_bits_inj:
  assumes "length alphabet = 2 ^ k" "radix_bits k alphabet s = Some bits" "radix_bits k alphabet t = Some bits" "length s = length t"
  shows "s = t"
  using assms(4,2,3)
proof (induction s t arbitrary: bits rule: list_induct2)
  case (Cons x s y t)
  obtain v w p q where v: "index_of alphabet x = Some v" "radix_bits k alphabet s = Some p" "bits = nat_bits k v @ p"
    and w: "index_of alphabet y = Some w" "radix_bits k alphabet t = Some q" "bits = nat_bits k w @ q"
    using Cons.prems by (auto split: option.splits)
  have same: "nat_bits k v = nat_bits k w" "p = q" using v(3) w(3) by simp_all
  then have "v = w"
    using bits_nat_nat_bits [of v k] bits_nat_nat_bits [of w k] index_of_Some [OF v(1)] index_of_Some [OF w(1)] assms(1) by metis
  then show ?case using Cons.IH [OF v(2)] w(2) same index_of_Some [OF v(1)] index_of_Some [OF w(1)] by simp
qed simp

lemma id_spelling_canonical:
  assumes "length d = 32"
  shows "id_spelling d 0 = base32_encode d"
proof -
  obtain pad where pad: "pad < 5" "radix_bits 5 base32_alphabet (base32_encode d) = Some (byte_bits d @ replicate pad False)"
      "5 * length (base32_encode d) = 8 * length d + pad"
    using radix_bits_encode [OF distinct_alphabets(1) length_alphabets(1)] by (auto simp: base32_encode_def)
  have "pad = 4" "length (base32_encode d) = 52" using pad(1,3) assms by simp_all presburger+
  moreover have "nat_bits 4 0 = replicate 4 False" by code_simp
  ultimately show ?thesis
    using radix_bits_inj [OF length_alphabets(1) id_spelling_bits(1) [OF assms, of 0]] pad(2) id_spelling_bits(2) [OF assms, of 0] by simp
qed

lemma spelled_case:
  assumes "set s \<subseteq> set base32_alphabet" "set nl \<subseteq> {byte 10, byte 13}"
  shows "to_upper (to_lower s @ nl) = s @ nl" "to_lower (to_lower s @ nl) = to_lower s @ nl" "strip_newlines (s @ nl) = s"
proof -
  have s: "list_all (\<lambda>c. code c < 128) s" "list_all (\<lambda>c. code c < 128) (map to_lower_char s)" "list_all (\<lambda>c. 32 \<le> code c) s"
    using assms(1) base32_digit_cases by (auto simp: list_all_iff)
  have nl: "list_all (\<lambda>c. code c < 128) nl" "map to_upper_char nl = nl" "map to_lower_char nl = nl" "strip_newlines nl = []"
    using assms(2) by (auto simp: list_all_iff to_upper_char_def to_lower_char_def is_lower_def is_upper_def strip_newlines_def
        filter_empty_conv intro!: map_idI)
  have lower: "to_lower s = map to_lower_char s" by (rule to_lower_ascii [OF s(1)])
  have "map (\<lambda>c. to_upper_char (to_lower_char c)) s = s" "map (\<lambda>c. to_lower_char (to_lower_char c)) s = map to_lower_char s"
    using assms(1) base32_digit_cases by (auto intro!: map_idI)
  then show "to_upper (to_lower s @ nl) = s @ nl" "to_lower (to_lower s @ nl) = to_lower s @ nl"
    using s nl to_upper_ascii [of "map to_lower_char s @ nl"] to_lower_ascii [of "map to_lower_char s @ nl"]
    by (simp_all add: lower comp_def)
  have "strip_newlines (s @ nl) = strip_newlines s @ strip_newlines nl" by (simp add: strip_newlines_def)
  then show "strip_newlines (s @ nl) = s" using nl(4) strip_newlines_id [OF s(3)] by simp
qed

lemma spelled_digest:
  assumes "length d = 32" "p \<in> set id_prefixes" "set nl \<subseteq> {byte 10, byte 13}"
  shows "id_digest (p @ to_lower (id_spelling d k) @ nl) = Some d"
proof -
  note digits = id_spelling_digits [OF assms(1), of k]
  have "length p = 4" using assms(2) by (auto simp: id_prefixes_def)
  then have "id_digest (p @ to_lower (id_spelling d k) @ nl) = base32_decode (id_spelling d k @ nl)"
    by (simp add: id_digest_def spelled_case(1) [OF digits assms(3)])
  also have "\<dots> = Some (whole_bytes 260 (byte_bits d @ nat_bits 4 k))"
    using id_spelling_bits [OF assms(1), of k] assms(1) by (simp add: base32_decode_def spelled_case(3) [OF digits assms(3)] Let_def)
  also have "whole_bytes 260 (byte_bits d @ nat_bits 4 k) = d" using assms(1) by (intro whole_bytes_byte_bits) simp_all
  finally show ?thesis .
qed

text \<open>
  C12. The identifiers the parser accepts, exactly: one of the three version prefixes followed by a
  text that lower-casing leaves alone and whose upper case is, line breaks aside, 52 digits of
  base32. This is more than the identifiers that are produced: every digest has sixteen texts of
  52 digits, because the four spare bits of the last digit are ignored, and line breaks may
  follow; all of these are accepted, stand for the same digest, and are kept as different
  identifiers. The produced identifier is the one with zero spare bits and no line break.
\<close>

theorem ParseID_exact:
  "(ParseID value = Inr i \<longleftrightarrow> i = value \<and> (\<exists>p\<in>set id_prefixes. \<exists>body. value = p @ body \<and> to_lower body = body
      \<and> length (strip_newlines (to_upper body)) = 52 \<and> set (strip_newlines (to_upper body)) \<subseteq> set base32_alphabet))
   \<and> (length d = 32 \<and> p \<in> set id_prefixes \<and> k < 16 \<and> l < 16 \<and> set nl \<subseteq> {byte 10, byte 13} \<longrightarrow>
      ParseID (p @ to_lower (id_spelling d k) @ nl) = Inr (p @ to_lower (id_spelling d k) @ nl)
      \<and> id_digest (p @ to_lower (id_spelling d k) @ nl) = Some d
      \<and> (p @ to_lower (id_spelling d k) @ nl = p @ to_lower (id_spelling d l) @ nl' \<longleftrightarrow> k = l \<and> nl = nl')
      \<and> id_spelling d 0 = base32_encode d)"
proof (intro conjI impI)
  assume "length d = 32 \<and> p \<in> set id_prefixes \<and> k < 16 \<and> l < 16 \<and> set nl \<subseteq> {byte 10, byte 13}"
  then have d: "length d = 32" and p: "p \<in> set id_prefixes" and kl: "k < 16" "l < 16" and nl: "set nl \<subseteq> {byte 10, byte 13}"
    by simp_all
  note digits = id_spelling_digits [OF d] and case_k = spelled_case [OF id_spelling_digits [OF d, of k] nl]
  show "ParseID (p @ to_lower (id_spelling d k) @ nl) = Inr (p @ to_lower (id_spelling d k) @ nl)"
    using p case_k digits [of k] id_spelling_bits(2) [OF d, of k] unfolding ParseID_Inr_iff by metis
  show "id_digest (p @ to_lower (id_spelling d k) @ nl) = Some d" by (rule spelled_digest [OF d p nl])
  show "id_spelling d 0 = base32_encode d" by (rule id_spelling_canonical [OF d])
  have "to_lower (id_spelling d j) = map to_lower_char (id_spelling d j)" for j
    using digits [of j] base32_digit_cases by (intro to_lower_ascii) (auto simp: list_all_iff)
  then have "length (to_lower (id_spelling d j)) = 52" for j by (simp add: id_spelling_bits(2) [OF d])
  then have "to_lower (id_spelling d k) @ nl = to_lower (id_spelling d l) @ nl'
      \<longleftrightarrow> to_lower (id_spelling d k) = to_lower (id_spelling d l) \<and> nl = nl'" by simp
  moreover have "to_lower (id_spelling d k) = to_lower (id_spelling d l) \<longleftrightarrow> k = l"
    using id_spelling_inj [OF d kl] base32_case [OF digits, of k] base32_case [OF digits, of l] by metis
  ultimately show "p @ to_lower (id_spelling d k) @ nl = p @ to_lower (id_spelling d l) @ nl' \<longleftrightarrow> k = l \<and> nl = nl'" by simp
qed (rule ParseID_Inr_iff)

theorem ParseID_exact_witness:
  "\<exists>i j. ParseID i = Inr i \<and> ParseID j = Inr j \<and> i \<noteq> j \<and> id_digest i = Some (replicate 32 (byte 7)) \<and> id_digest j = id_digest i"
proof -
  let ?d = "replicate 32 (byte 7)"
  let ?i = "''ef1_'' @ to_lower (id_spelling ?d 0) @ []" and ?j = "''ef1_'' @ to_lower (id_spelling ?d 5) @ []"
  have d: "length ?d = 32" "''ef1_'' \<in> set id_prefixes" by (simp_all add: id_prefixes_def)
  have "ParseID ?i = Inr ?i" "id_digest ?i = Some ?d" "?i \<noteq> ?j"
    using ParseID_exact [of "[]" "[]" ?d "''ef1_''" 0 5 "[]" "[]"] d by auto
  moreover have "ParseID ?j = Inr ?j" "id_digest ?j = Some ?d"
    using ParseID_exact [of "[]" "[]" ?d "''ef1_''" 5 0 "[]" "[]"] d by auto
  ultimately show ?thesis by metis
qed

end
