(* ===== verification/Endpoint_Inventory.thy ===== *)
theory Endpoint_Inventory
  imports Endpoint_Identity
begin

text \<open>
  \<^verbatim>\<open>internal/endpoint/provenance.go\<close> and \<^verbatim>\<open>internal/endpoint/inventory.go\<close>: source and record
  identifiers, aliases, merging of provenance, inventory records and deduplication. A Go map
  that is only collected and sorted afterwards is a list in order of first insertion; the
  lemmas show that the results do not depend on that order, nor on the order of the records,
  and characterise them by the sets they are built from.
\<close>

section \<open>Provenance\<close>

definition maxProvenanceIDBytes :: nat where "maxProvenanceIDBytes = 128"
definition maxAliasBytes :: nat where "maxAliasBytes = 256"

definition provenance_char :: "char \<Rightarrow> bool" where
  "provenance_char c \<longleftrightarrow> is_lower c \<or> is_upper c \<or> is_digit c \<or> c = CHR ''.'' \<or> c = CHR ''_'' \<or> c = CHR ''-''"

definition validateProvenanceID :: "string \<Rightarrow> string \<Rightarrow> endpoint_error + unit" where
  "validateProvenanceID field value =
     (if length value = 0 \<or> length value > maxProvenanceIDBytes
      then invalid field ''must contain between 1 and 128 characters''
      else if \<not> list_all provenance_char value
      then invalid field ''must use only ASCII letters, digits, dots, underscores, and hyphens''
      else Inr ())"

definition NewSourceID :: "string \<Rightarrow> endpoint_error + string" where
  "NewSourceID value = and_then (validateProvenanceID ''provenance.source_id'' value) (\<lambda>_. Inr value)"

definition NewRecordID :: "string \<Rightarrow> endpoint_error + string" where
  "NewRecordID value = and_then (validateProvenanceID ''provenance.record_id'' value) (\<lambda>_. Inr value)"

record Provenance =
  prov_source :: string
  prov_record :: string
  prov_aliases :: "string list option"

text \<open>
  The code points of a valid UTF-8 text, \<^verbatim>\<open>unicode.IsControl\<close> and the range table of the
  category \<^verbatim>\<open>Cf\<close> of the standard library.
\<close>

fun utf8_runes :: "string \<Rightarrow> nat list" where
  "utf8_runes [] = []"
| "utf8_runes (a # s) =
     (if code a < 128 then code a # utf8_runes s
      else if code a < 224 \<and> 1 \<le> length s
      then ((code a mod 32) * 64 + code (s ! 0) mod 64) # utf8_runes (drop 1 s)
      else if code a < 240 \<and> 2 \<le> length s
      then ((code a mod 16) * 4096 + (code (s ! 0) mod 64) * 64 + code (s ! 1) mod 64) # utf8_runes (drop 2 s)
      else if 3 \<le> length s
      then ((code a mod 8) * 262144 + (code (s ! 0) mod 64) * 4096 + (code (s ! 1) mod 64) * 64
             + code (s ! 2) mod 64) # utf8_runes (drop 3 s)
      else 65533 # utf8_runes s)"

definition rune_control :: "nat \<Rightarrow> bool" where
  "rune_control r \<longleftrightarrow> r < 32 \<or> 127 \<le> r \<and> r < 160"

definition format_ranges :: "(nat \<times> nat) list" where
  "format_ranges =
     [(0xAD, 0xAD), (0x600, 0x605), (0x61C, 0x61C), (0x6DD, 0x6DD), (0x70F, 0x70F), (0x890, 0x891),
      (0x8E2, 0x8E2), (0x180E, 0x180E), (0x200B, 0x200F), (0x202A, 0x202E), (0x2060, 0x2064),
      (0x2066, 0x206F), (0xFEFF, 0xFEFF), (0xFFF9, 0xFFFB), (0x110BD, 0x110BD), (0x110CD, 0x110CD),
      (0x13430, 0x1343F), (0x1BCA0, 0x1BCA3), (0x1D173, 0x1D17A), (0xE0001, 0xE0001), (0xE0020, 0xE007F)]"

definition rune_format :: "nat \<Rightarrow> bool" where
  "rune_format r \<longleftrightarrow> list_ex (\<lambda>(lo, hi). lo \<le> r \<and> r \<le> hi) format_ranges"

text \<open>The checks on one alias, in the order of the loop.\<close>

definition alias_error :: "string \<Rightarrow> string option" where
  "alias_error alias =
     (if alias = [] then Some ''must not be empty''
      else if length alias > maxAliasBytes then Some ''must not exceed 256 bytes''
      else if \<not> utf8_valid alias then Some ''must be valid UTF-8''
      else if list_ex (\<lambda>r. rune_control r \<or> rune_format r) (utf8_runes alias)
      then Some ''must not contain control characters''
      else None)"

fun aliases_error :: "string list \<Rightarrow> string option" where
  "aliases_error [] = None"
| "aliases_error (alias # rest) =
     (case alias_error alias of Some problem \<Rightarrow> Some problem | None \<Rightarrow> aliases_error rest)"

definition normalizeAliases :: "string list \<Rightarrow> endpoint_error + string list" where
  "normalizeAliases aliases =
     (case aliases_error aliases of
        Some problem \<Rightarrow> invalid ''provenance.alias'' problem
      | None \<Rightarrow> Inr (sort_strings (remdups aliases)))"

definition NewProvenance :: "string \<Rightarrow> string \<Rightarrow> string list \<Rightarrow> endpoint_error + Provenance" where
  "NewProvenance source rec_id aliases =
     (if source = [] then invalid ''provenance.source_id'' ''must be constructed with NewSourceID''
      else if rec_id = [] then invalid ''provenance.record_id'' ''must be constructed with NewRecordID''
      else and_then (normalizeAliases aliases) (\<lambda>normalized.
        Inr \<lparr>prov_source = source, prov_record = rec_id, prov_aliases = Some normalized\<rparr>))"

definition Provenance_Aliases :: "Provenance \<Rightarrow> string list" where
  "Provenance_Aliases p = (case prov_aliases p of None \<Rightarrow> [] | Some values \<Rightarrow> values)"

definition Provenance_valid :: "Provenance \<Rightarrow> bool" where
  "Provenance_valid p \<longleftrightarrow> prov_source p \<noteq> [] \<and> prov_record p \<noteq> []"

definition Provenance_key :: "Provenance \<Rightarrow> string" where
  "Provenance_key p = prov_source p @ byte 0 # prov_record p"

definition Provenance_clone :: "Provenance \<Rightarrow> Provenance" where
  "Provenance_clone p = p\<lparr>prov_aliases := Some (Provenance_Aliases p)\<rparr>"

text \<open>One iteration of the merge loop. A failing normalisation leaves no alias.\<close>

definition merge_aliases :: "Provenance \<Rightarrow> Provenance \<Rightarrow> Provenance" where
  "merge_aliases existing p =
     existing\<lparr>prov_aliases := Some (case normalizeAliases (Provenance_Aliases existing @ Provenance_Aliases p) of
        Inl _ \<Rightarrow> [] | Inr aliases \<Rightarrow> aliases)\<rparr>"

definition merge_step :: "Provenance list \<Rightarrow> Provenance \<Rightarrow> Provenance list" where
  "merge_step byKey p =
     (if list_ex (\<lambda>q. Provenance_key q = Provenance_key p) byKey
      then map (\<lambda>q. if Provenance_key q = Provenance_key p then merge_aliases q p else q) byKey
      else byKey @ [Provenance_clone p])"

definition provenance_less :: "Provenance \<Rightarrow> Provenance \<Rightarrow> bool" where
  "provenance_less l r =
     (if prov_source l \<noteq> prov_source r then prov_source l < prov_source r else prov_record l < prov_record r)"

definition mergeProvenance :: "Provenance list list \<Rightarrow> Provenance list" where
  "mergeProvenance groups = sort_by provenance_less (foldl merge_step [] (concat groups))"

section \<open>Records and inventories\<close>

record Record =
  rec_configuration :: Configuration
  rec_provenance :: "Provenance list"

definition NewRecord :: "Configuration \<Rightarrow> Provenance list \<Rightarrow> endpoint_error + Record" where
  "NewRecord configuration provenance =
     (if \<not> Configuration_valid configuration
      then invalid ''record.configuration'' ''must be constructed with NewConfiguration''
      else if provenance = []
      then invalid ''record.provenance'' ''must contain at least one source relationship''
      else if \<not> list_all Provenance_valid provenance
      then invalid ''record.provenance'' ''contains an invalid source relationship''
      else Inr \<lparr>rec_configuration = configuration, rec_provenance = mergeProvenance [provenance]\<rparr>)"

definition Record_Identity :: "Record \<Rightarrow> Identity" where
  "Record_Identity r = Configuration_Identity (rec_configuration r)"

definition Record_ID :: "Record \<Rightarrow> ID" where
  "Record_ID r = Configuration_ID (rec_configuration r)"

definition Record_Provenance :: "Record \<Rightarrow> Provenance list" where
  "Record_Provenance r = map Provenance_clone (rec_provenance r)"

definition Record_valid :: "Record \<Rightarrow> bool" where
  "Record_valid r =
     (if \<not> Configuration_valid (rec_configuration r) \<or> rec_provenance r = [] then False
      else list_all Provenance_valid (rec_provenance r))"

definition Record_clone :: "Record \<Rightarrow> Record" where
  "Record_clone r = r\<lparr>rec_provenance := Record_Provenance r\<rparr>"

type_synonym Inventory = "Record list"

definition Inventory_Records :: "Inventory \<Rightarrow> Record list" where
  "Inventory_Records inventory = map Record_clone inventory"

definition Inventory_Len :: "Inventory \<Rightarrow> nat" where
  "Inventory_Len inventory = length inventory"

text \<open>
  The comparison of \<^verbatim>\<open>sortRecords\<close> reads the revision of a valid record, which is always
  present; the missing one stands for the nil dereference.
\<close>

definition record_less :: "Record \<Rightarrow> Record \<Rightarrow> bool" where
  "record_less l r =
     (let li = Record_Identity l; ri = Record_Identity r
      in if id_value li \<noteq> id_value ri then id_value li < id_value ri
         else case (id_revision li, id_revision ri) of
           (Some x, Some y) \<Rightarrow> bytes_Compare x y < 0
         | _ \<Rightarrow> False)"

definition sortRecords :: "Record list \<Rightarrow> Record list" where
  "sortRecords records = sort_by record_less records"

definition mergeMatchingRecords :: "Record \<Rightarrow> Record \<Rightarrow> endpoint_error + Record" where
  "mergeMatchingRecords left right =
     (if \<not> Equivalent (rec_configuration left) (rec_configuration right)
      then Inl (ConflictError (Record_ID left))
      else Inr (left\<lparr>rec_provenance := mergeProvenance [rec_provenance left, rec_provenance right]\<rparr>))"

text \<open>The loop over the sorted records; the last record of the result is kept apart.\<close>

fun dedup_loop :: "Record \<Rightarrow> Record list \<Rightarrow> endpoint_error + Record list" where
  "dedup_loop current [] = Inr [current]"
| "dedup_loop current (r # rest) =
     (if \<not> Identity_Equal (Record_Identity current) (Record_Identity r)
      then and_then (dedup_loop r rest) (\<lambda>rs. Inr (current # rs))
      else and_then (mergeMatchingRecords current r) (\<lambda>merged. dedup_loop merged rest))"

definition Deduplicate :: "Record list \<Rightarrow> endpoint_error + Inventory" where
  "Deduplicate records =
     (if \<not> list_all Record_valid records
      then invalid ''inventory.record'' ''must be constructed with NewRecord''
      else case sortRecords (map Record_clone records) of
        [] \<Rightarrow> Inr []
      | r # rest \<Rightarrow> dedup_loop r rest)"

section \<open>Merging provenance\<close>

definition alias_ok :: "string \<Rightarrow> bool" where
  "alias_ok a \<longleftrightarrow> alias_error a = None"

definition canonical_aliases :: "string list \<Rightarrow> bool" where
  "canonical_aliases xs \<longleftrightarrow> list_all alias_ok xs \<and> sorted_wrt (<) xs"

definition Provenance_wf :: "Provenance \<Rightarrow> bool" where
  "Provenance_wf p \<longleftrightarrow> Provenance_valid p \<and> byte 0 \<notin> set (prov_source p) \<and> byte 0 \<notin> set (prov_record p)
     \<and> (\<exists>xs. prov_aliases p = Some xs \<and> canonical_aliases xs)"

lemma aliases_error_iff: "aliases_error xs = None \<longleftrightarrow> list_all alias_ok xs"
  by (induction xs) (auto simp: alias_ok_def split: option.splits)

lemma normalizeAliases_ok: "list_all alias_ok xs \<Longrightarrow> normalizeAliases xs = Inr (sorted_list_of_set (set xs))"
  by (simp add: normalizeAliases_def aliases_error_iff [symmetric] sort_strings_set)

lemma normalizeAliases_Inr:
  "normalizeAliases xs = Inr ys \<longleftrightarrow> list_all alias_ok xs \<and> ys = sorted_list_of_set (set xs)"
  by (auto simp: normalizeAliases_def aliases_error_iff [symmetric] sort_strings_set invalid_def split: option.splits)

lemma canonical_sorted_list: "finite A \<Longrightarrow> (\<forall>a \<in> A. alias_ok a) \<Longrightarrow> canonical_aliases (sorted_list_of_set A)"
  by (simp add: canonical_aliases_def list_all_iff strict_sorted_iff [symmetric])

lemma canonical_aliases_eq: "canonical_aliases xs \<Longrightarrow> sorted_list_of_set (set xs) = xs"
  by (rule strictly_sorted_unique [where R = "(<)"]) (auto simp: canonical_aliases_def)

lemma provenance_char_not_zero: "provenance_char c \<Longrightarrow> c \<noteq> byte 0"
proof
  assume "provenance_char c" "c = byte 0"
  then have "provenance_char (byte 0)" by simp
  moreover have "\<not> provenance_char (byte 0)" by code_simp
  ultimately show False by simp
qed

lemma validateProvenanceID_ok:
  "validateProvenanceID field value = Inr u \<Longrightarrow> value \<noteq> [] \<and> byte 0 \<notin> set value"
  using provenance_char_not_zero by (auto simp: validateProvenanceID_def invalid_def list_all_iff split: if_splits)

lemma NewProvenance_wf:
  "NewSourceID s = Inr s' \<Longrightarrow> NewRecordID r = Inr r' \<Longrightarrow> NewProvenance s' r' aliases = Inr p \<Longrightarrow> Provenance_wf p"
  by (auto simp: NewSourceID_def NewRecordID_def NewProvenance_def and_then_Inr_iff invalid_def Provenance_wf_def
      Provenance_valid_def normalizeAliases_Inr list_all_iff intro!: canonical_sorted_list
      dest!: validateProvenanceID_ok split: if_splits)

lemma Provenance_key_iff:
  "Provenance_wf p \<Longrightarrow> Provenance_wf q \<Longrightarrow>
   Provenance_key p = Provenance_key q \<longleftrightarrow> prov_source p = prov_source q \<and> prov_record p = prov_record q"
  by (auto simp: Provenance_key_def Provenance_wf_def append_eq_append_conv2 Cons_eq_append_conv append_eq_Cons_conv)

lemma clone_wf [simp]: "Provenance_wf p \<Longrightarrow> Provenance_clone p = p"
  by (auto simp: Provenance_wf_def Provenance_clone_def Provenance_Aliases_def)

lemma Aliases_wf:
  "Provenance_wf p \<Longrightarrow> prov_aliases p = Some (Provenance_Aliases p) \<and> canonical_aliases (Provenance_Aliases p)"
  by (auto simp: Provenance_wf_def Provenance_Aliases_def)

text \<open>What a list of relationships says, without order and repetition.\<close>

definition keys_of :: "Provenance set \<Rightarrow> (string \<times> string) set" where
  "keys_of P = (\<lambda>p. (prov_source p, prov_record p)) ` P"

definition aliases_of :: "Provenance set \<Rightarrow> string \<times> string \<Rightarrow> string set" where
  "aliases_of P k = (\<Union>p \<in> {p \<in> P. (prov_source p, prov_record p) = k}. set (Provenance_Aliases p))"

definition canonical_entry :: "Provenance set \<Rightarrow> string \<times> string \<Rightarrow> Provenance" where
  "canonical_entry P k = \<lparr>prov_source = fst k, prov_record = snd k,
     prov_aliases = Some (sorted_list_of_set (aliases_of P k))\<rparr>"

definition merged_set :: "Provenance set \<Rightarrow> Provenance set" where
  "merged_set P = canonical_entry P ` keys_of P"

lemma aliases_of_insert:
  "aliases_of (insert p P) k = aliases_of P k \<union> (if (prov_source p, prov_record p) = k then set (Provenance_Aliases p) else {})"
  by (auto simp: aliases_of_def)

lemma keys_of_insert: "keys_of (insert p P) = insert (prov_source p, prov_record p) (keys_of P)"
  by (simp add: keys_of_def)

lemma aliases_of_outside: "k \<notin> keys_of P \<Longrightarrow> aliases_of P k = {}"
proof -
  assume "k \<notin> keys_of P"
  then have "{p \<in> P. (prov_source p, prov_record p) = k} = {}" unfolding keys_of_def by blast
  then show ?thesis by (simp only: aliases_of_def UN_empty)
qed

lemma finite_aliases_of: "finite P \<Longrightarrow> finite (aliases_of P k)"
  by (simp add: aliases_of_def)

lemma merge_aliases_wf:
  assumes "Provenance_wf q" "Provenance_wf p"
  shows "merge_aliases q p
    = q\<lparr>prov_aliases := Some (sorted_list_of_set (set (Provenance_Aliases q) \<union> set (Provenance_Aliases p)))\<rparr>"
  using Aliases_wf [OF assms(1)] Aliases_wf [OF assms(2)]
  by (simp add: merge_aliases_def normalizeAliases_ok canonical_aliases_def)

lemma Aliases_canonical_entry [simp]:
  "finite P \<Longrightarrow> set (Provenance_Aliases (canonical_entry P k)) = aliases_of P k"
  by (simp add: canonical_entry_def Provenance_Aliases_def finite_aliases_of)

lemma canonical_entry_fields [simp]:
  "prov_source (canonical_entry P k) = fst k" "prov_record (canonical_entry P k) = snd k"
  by (simp_all add: canonical_entry_def)

lemma canonical_entry_wf:
  assumes "finite P" "\<forall>p \<in> P. Provenance_wf p" "k \<in> keys_of P"
  shows "Provenance_wf (canonical_entry P k)"
proof -
  obtain p where p: "p \<in> P" "k = (prov_source p, prov_record p)" using assms(3) by (auto simp: keys_of_def)
  have "\<forall>a \<in> aliases_of P k. alias_ok a"
    using assms(2) Aliases_wf by (fastforce simp: aliases_of_def canonical_aliases_def list_all_iff)
  then have "canonical_aliases (sorted_list_of_set (aliases_of P k))"
    by (intro canonical_sorted_list finite_aliases_of assms(1))
  moreover have "Provenance_wf p" using assms(2) p(1) by blast
  ultimately show ?thesis using p(2) by (simp add: Provenance_wf_def Provenance_valid_def canonical_entry_def)
qed

lemma merge_step_set:
  assumes P: "finite P" "\<forall>q \<in> P. Provenance_wf q" and p: "Provenance_wf p" and acc: "set acc = merged_set P"
  shows "set (merge_step acc p) = merged_set (insert p P)"
proof -
  let ?k = "(prov_source p, prov_record p)"
  have key: "Provenance_key (canonical_entry P k) = Provenance_key p \<longleftrightarrow> k = ?k" if "k \<in> keys_of P" for k
    using Provenance_key_iff [OF canonical_entry_wf [OF P that] p] by (cases k) auto
  have other: "canonical_entry (insert p P) k = canonical_entry P k" if "k \<noteq> ?k" for k
    using that by (auto simp: canonical_entry_def aliases_of_insert)
  show ?thesis
  proof (cases "?k \<in> keys_of P")
    case True
    have "list_ex (\<lambda>q. Provenance_key q = Provenance_key p) acc"
      using True key acc by (auto simp: list_ex_iff merged_set_def)
    then have "set (merge_step acc p) = (\<lambda>k. if Provenance_key (canonical_entry P k) = Provenance_key p
        then merge_aliases (canonical_entry P k) p else canonical_entry P k) ` keys_of P"
      using acc unfolding merge_step_def merged_set_def by (simp only: if_True set_map image_image)
    moreover have same: "merge_aliases (canonical_entry P ?k) p = canonical_entry (insert p P) ?k"
      using merge_aliases_wf [OF canonical_entry_wf [OF P True] p] P(1)
      by (simp add: canonical_entry_def aliases_of_insert Provenance_Aliases_def finite_aliases_of)
    moreover have "(if Provenance_key (canonical_entry P k) = Provenance_key p
        then merge_aliases (canonical_entry P k) p else canonical_entry P k) = canonical_entry (insert p P) k"
      if "k \<in> keys_of P" for k
      using key [OF that] other [of k] same by (cases "k = ?k") (simp_all only: if_True if_False simp_thms)
    ultimately have "set (merge_step acc p) = canonical_entry (insert p P) ` keys_of P"
      by (simp only: cong: image_cong)
    then show ?thesis using True by (simp add: merged_set_def keys_of_insert insert_absorb)
  next
    case False
    then have "\<not> list_ex (\<lambda>q. Provenance_key q = Provenance_key p) acc"
      using key acc by (auto simp: list_ex_iff merged_set_def)
    moreover have "canonical_entry (insert p P) ?k = p"
    proof -
      have "aliases_of P ?k = {}" using False by (rule aliases_of_outside)
      then show ?thesis
        using Aliases_wf [OF p] canonical_aliases_eq by (simp add: canonical_entry_def aliases_of_insert)
    qed
    moreover have "canonical_entry (insert p P) ` keys_of P = canonical_entry P ` keys_of P"
      using False other by (intro image_cong refl) metis
    ultimately show ?thesis using acc p by (simp add: merge_step_def merged_set_def keys_of_insert)
  qed
qed

lemma key_merge_aliases [simp]: "Provenance_key (merge_aliases q p) = Provenance_key q"
  by (simp add: merge_aliases_def Provenance_key_def)

lemma key_clone [simp]: "Provenance_key (Provenance_clone p) = Provenance_key p"
  by (simp add: Provenance_clone_def Provenance_key_def)

lemma merge_step_distinct:
  assumes "distinct (map Provenance_key acc)"
  shows "distinct (map Provenance_key (merge_step acc p))"
proof (cases "list_ex (\<lambda>q. Provenance_key q = Provenance_key p) acc")
  case True
  then have "map Provenance_key (merge_step acc p) = map Provenance_key acc"
    by (simp add: merge_step_def)
  then show ?thesis using assms by simp
next
  case False
  then show ?thesis using assms by (auto simp: merge_step_def list_ex_iff)
qed

lemma merge_fold:
  assumes "finite P" "\<forall>q \<in> P. Provenance_wf q" "\<forall>p \<in> set ps. Provenance_wf p" "set acc = merged_set P"
    "distinct (map Provenance_key acc)"
  shows "set (foldl merge_step acc ps) = merged_set (P \<union> set ps) \<and> distinct (map Provenance_key (foldl merge_step acc ps))"
  using assms
proof (induction ps arbitrary: acc P)
  case Nil
  then show ?case by simp
next
  case (Cons p ps)
  have "set (foldl merge_step (merge_step acc p) ps) = merged_set (insert p P \<union> set ps)
      \<and> distinct (map Provenance_key (foldl merge_step (merge_step acc p) ps))"
    using Cons.prems by (intro Cons.IH) (simp_all add: merge_step_set merge_step_distinct)
  then show ?case by simp
qed

lemma provenance_less_key:
  "provenance_less l r \<longleftrightarrow> prov_source l < prov_source r \<or> prov_source l = prov_source r \<and> prov_record l < prov_record r"
  by (auto simp: provenance_less_def)

lemma provenance_less_asym: "provenance_less l r \<Longrightarrow> \<not> provenance_less r l"
  by (auto simp: provenance_less_key)

interpretation prov_order: strict_weak provenance_less "\<lambda>_. True"
  by unfold_locales (auto simp: provenance_less_key)

lemma sorted_provenance_strict:
  "distinct (map Provenance_key ps) \<Longrightarrow> sorted_wrt (\<lambda>a b. \<not> provenance_less b a) ps \<Longrightarrow> sorted_wrt provenance_less ps"
proof (induction ps)
  case (Cons p ps)
  have "provenance_less p q" if "q \<in> set ps" for q
  proof -
    have "Provenance_key p \<noteq> Provenance_key q" "\<not> provenance_less q p" using Cons.prems that by (auto simp: image_iff)
    then show ?thesis by (auto simp: provenance_less_key Provenance_key_def)
  qed
  with Cons show ?case by simp
qed simp

text \<open>The merged list is the strictly sorted list of the canonical entries.\<close>

lemma mergeProvenance_spec:
  assumes "\<forall>g \<in> set groups. \<forall>p \<in> set g. Provenance_wf p"
  shows "sorted_wrt provenance_less (mergeProvenance groups)"
    and "set (mergeProvenance groups) = merged_set (\<Union>g \<in> set groups. set g)"
proof -
  have fold: "set (foldl merge_step [] (concat groups)) = merged_set (\<Union>g \<in> set groups. set g)
      \<and> distinct (map Provenance_key (foldl merge_step [] (concat groups)))"
    using merge_fold [of "{}" "concat groups" "[]"] assms by (simp add: merged_set_def keys_of_def)
  then show "set (mergeProvenance groups) = merged_set (\<Union>g \<in> set groups. set g)"
    by (simp add: mergeProvenance_def)
  have "mset (map Provenance_key (mergeProvenance groups)) = mset (map Provenance_key (foldl merge_step [] (concat groups)))"
    by (simp add: mergeProvenance_def)
  then have "distinct (map Provenance_key (mergeProvenance groups))"
    using fold by (metis mset_eq_imp_distinct_iff)
  then show "sorted_wrt provenance_less (mergeProvenance groups)"
    unfolding mergeProvenance_def by (intro sorted_provenance_strict prov_order.sort_by_sorted) (simp_all add: list_all_iff)
qed

lemma mergeProvenance_cong:
  assumes "\<forall>g \<in> set groups. \<forall>p \<in> set g. Provenance_wf p" "\<forall>g \<in> set groups'. \<forall>p \<in> set g. Provenance_wf p"
    "merged_set (\<Union>g \<in> set groups. set g) = merged_set (\<Union>g \<in> set groups'. set g)"
  shows "mergeProvenance groups = mergeProvenance groups'"
  using mergeProvenance_spec [OF assms(1)] mergeProvenance_spec [OF assms(2)] assms(3)
  by (intro strictly_sorted_unique [where R = provenance_less] provenance_less_asym) auto

lemma merged_set_wf: "finite P \<Longrightarrow> \<forall>p \<in> P. Provenance_wf p \<Longrightarrow> q \<in> merged_set P \<Longrightarrow> Provenance_wf q"
  by (auto simp: merged_set_def canonical_entry_wf)

lemma keys_of_merged [simp]: "keys_of (merged_set P) = keys_of P"
  by (auto simp: merged_set_def keys_of_def image_image)

lemma keys_of_Un: "keys_of (P \<union> Q) = keys_of P \<union> keys_of Q"
  by (auto simp: keys_of_def)

lemma aliases_of_Un: "aliases_of (P \<union> Q) k = aliases_of P k \<union> aliases_of Q k"
  by (auto simp: aliases_of_def)

lemma aliases_of_merged:
  assumes "finite P"
  shows "aliases_of (merged_set P) k = aliases_of P k"
proof (cases "k \<in> keys_of P")
  case True
  have "{p \<in> merged_set P. (prov_source p, prov_record p) = k} = {canonical_entry P k}"
    using True by (auto simp: merged_set_def)
  then show ?thesis using assms by (simp add: aliases_of_def [of "merged_set P"])
next
  case False
  then show ?thesis by (simp add: aliases_of_outside)
qed

lemma merged_set_eqI: "keys_of P = keys_of Q \<Longrightarrow> (\<And>k. aliases_of P k = aliases_of Q k) \<Longrightarrow> merged_set P = merged_set Q"
  by (simp add: merged_set_def canonical_entry_def)

lemma merged_set_Un_merged: "finite P \<Longrightarrow> finite Q \<Longrightarrow> merged_set (merged_set P \<union> merged_set Q) = merged_set (P \<union> Q)"
  by (rule merged_set_eqI) (simp_all add: keys_of_Un aliases_of_Un aliases_of_merged)

lemma merged_set_idem: "finite P \<Longrightarrow> merged_set (merged_set P) = merged_set P"
  using merged_set_Un_merged [of P P] by simp

section \<open>Deduplication\<close>

definition canonical_provenance :: "Provenance list \<Rightarrow> bool" where
  "canonical_provenance ps \<longleftrightarrow> ps \<noteq> [] \<and> list_all Provenance_wf ps \<and> sorted_wrt provenance_less ps"

definition Record_wf :: "Record \<Rightarrow> bool" where
  "Record_wf r \<longleftrightarrow> Configuration_wf (rec_configuration r) \<and> canonical_provenance (rec_provenance r)"

lemma canonical_merged_set:
  assumes "list_all Provenance_wf ps" "sorted_wrt provenance_less ps"
  shows "merged_set (set ps) = set ps"
proof -
  have entry: "canonical_entry (set ps) (prov_source p, prov_record p) = p" if p: "p \<in> set ps" for p
  proof -
    have wf: "Provenance_wf p" using assms(1) p by (simp add: list_all_iff)
    have "q = p" if "q \<in> set ps" "prov_source q = prov_source p" "prov_record q = prov_record p" for q
      using sorted_wrt_iff_nth_less [of provenance_less ps] assms(2) p that
      by (metis in_set_conv_nth nat_neq_iff provenance_less_key order_less_irrefl)
    then have "{q \<in> set ps. (prov_source q, prov_record q) = (prov_source p, prov_record p)} = {p}" using p by auto
    then have "aliases_of (set ps) (prov_source p, prov_record p) = set (Provenance_Aliases p)"
      unfolding aliases_of_def by simp
    then show ?thesis using Aliases_wf [OF wf] canonical_aliases_eq by (simp add: canonical_entry_def)
  qed
  show ?thesis unfolding merged_set_def keys_of_def image_image by (simp add: entry cong: image_cong)
qed

lemma canonical_provenance_set: "canonical_provenance ps \<Longrightarrow> merged_set (set ps) = set ps"
  by (simp add: canonical_provenance_def canonical_merged_set)

lemma keys_of_empty_iff: "keys_of P = {} \<longleftrightarrow> P = {}"
  by (simp add: keys_of_def)

lemma merge_canonical:
  assumes "\<forall>g \<in> set groups. \<forall>p \<in> set g. Provenance_wf p" "\<exists>g \<in> set groups. g \<noteq> []"
  shows "canonical_provenance (mergeProvenance groups)"
proof -
  obtain g where "g \<in> set groups" "set g \<noteq> {}" using assms(2) by auto
  then have "(\<Union>g \<in> set groups. set g) \<noteq> {}" by (metis SUP_bot_conv(1))
  then have "merged_set (\<Union>g \<in> set groups. set g) \<noteq> {}"
    by (metis merged_set_def image_is_empty keys_of_empty_iff)
  moreover have "\<forall>p \<in> set (mergeProvenance groups). Provenance_wf p"
    unfolding mergeProvenance_spec(2) [OF assms(1)]
  proof
    fix q assume q: "q \<in> merged_set (\<Union>g \<in> set groups. set g)"
    show "Provenance_wf q" by (rule merged_set_wf [OF _ _ q]) (use assms(1) in simp_all)
  qed
  ultimately show ?thesis
    using mergeProvenance_spec [OF assms(1)] by (auto simp: canonical_provenance_def list_all_iff)
qed

lemma NewRecord_wf:
  "NewRecord c ps = Inr r \<Longrightarrow> Configuration_wf c \<Longrightarrow> list_all Provenance_wf ps \<Longrightarrow> Record_wf r"
  by (auto simp: NewRecord_def invalid_def Record_wf_def list_all_iff intro!: merge_canonical split: if_splits)

lemma Record_wf_valid: "Record_wf r \<Longrightarrow> Record_valid r"
  by (auto simp: Record_wf_def Record_valid_def Configuration_wf_def canonical_provenance_def list_all_iff Provenance_wf_def)

lemma Record_clone_wf:
  assumes "Record_wf r"
  shows "Record_clone r = r"
proof -
  have "map Provenance_clone (rec_provenance r) = rec_provenance r"
    using assms by (intro map_idI) (simp add: Record_wf_def canonical_provenance_def list_all_iff)
  then show ?thesis by (simp add: Record_clone_def Record_Provenance_def)
qed

lemma Record_Identity_Some: "Record_wf r \<Longrightarrow> id_revision (Record_Identity r) \<noteq> None"
  by (simp add: Record_wf_def Configuration_wf_def Record_Identity_def Configuration_Identity_valid)

lemma record_less_iff:
  "Record_wf r \<Longrightarrow> Record_wf s \<Longrightarrow> record_less r s \<longleftrightarrow> identity_less (Record_Identity r) (Record_Identity s)"
  using Record_Identity_Some [of r] Record_Identity_Some [of s]
  by (auto simp: record_less_def identity_less_iff Let_def bytes_Compare_simps)

lemma Identity_Equal_wf:
  "Record_wf r \<Longrightarrow> Record_wf s \<Longrightarrow> Identity_Equal (Record_Identity r) (Record_Identity s) \<longleftrightarrow> Record_Identity r = Record_Identity s"
  using Record_Identity_Some [of r] Record_Identity_Some [of s]
  by (auto simp: Identity_Equal_def intro!: Identity.equality)

interpretation record_order: strict_weak record_less Record_wf
proof unfold_locales
  fix x y z assume "Record_wf x" "Record_wf y"
  then show "record_less x y \<Longrightarrow> \<not> record_less y x"
    using identity_order.asym by (simp add: record_less_iff)
  assume "Record_wf z" "\<not> record_less y x" "\<not> record_less z y"
  with \<open>Record_wf x\<close> \<open>Record_wf y\<close> show "\<not> record_less z x"
    using identity_order.weak_trans by (simp add: record_less_iff)
qed

text \<open>Different configurations of a list have different identities.\<close>

definition conflict_free :: "Record set \<Rightarrow> bool" where
  "conflict_free R \<longleftrightarrow> (\<forall>r \<in> R. \<forall>s \<in> R. Record_Identity r = Record_Identity s \<longrightarrow> rec_configuration r = rec_configuration s)"

text \<open>All relationships that a set of records gives a configuration.\<close>

definition provenance_of :: "Record set \<Rightarrow> Configuration \<Rightarrow> Provenance set" where
  "provenance_of R c = (\<Union>r \<in> {r \<in> R. rec_configuration r = c}. set (rec_provenance r))"

definition deduplicated :: "Record set \<Rightarrow> Record list \<Rightarrow> bool" where
  "deduplicated R out \<longleftrightarrow> sorted_wrt record_less out \<and> list_all Record_wf out
     \<and> rec_configuration ` set out = rec_configuration ` R
     \<and> (\<forall>r \<in> set out. set (rec_provenance r) = merged_set (provenance_of R (rec_configuration r)))"

lemma Identity_configuration: "rec_configuration r = rec_configuration s \<Longrightarrow> Record_Identity r = Record_Identity s"
  by (simp add: Record_Identity_def)

lemma deduplicated_member:
  assumes "deduplicated R xs" "deduplicated R ys" "r \<in> set xs"
  shows "r \<in> set ys"
proof -
  have "rec_configuration r \<in> rec_configuration ` set xs" using assms(3) by (rule imageI)
  then have "rec_configuration r \<in> rec_configuration ` set ys" using assms(1,2) by (simp add: deduplicated_def)
  then obtain s where s: "s \<in> set ys" "rec_configuration s = rec_configuration r" by (metis imageE)
  have wf: "Record_wf r" "Record_wf s" using assms s(1) by (simp_all add: deduplicated_def list_all_iff)
  have "set (rec_provenance s) = set (rec_provenance r)" using assms s by (simp add: deduplicated_def)
  then have "rec_provenance s = rec_provenance r"
    using wf by (intro strictly_sorted_unique [where R = provenance_less] provenance_less_asym)
      (simp_all add: Record_wf_def canonical_provenance_def)
  then have "s = r" using s(2) by simp
  then show ?thesis using s(1) by simp
qed

lemma deduplicated_unique:
  assumes "deduplicated R xs" "deduplicated R ys"
  shows "xs = ys"
proof -
  have sorted: "sorted_wrt (\<lambda>a b. identity_less (Record_Identity a) (Record_Identity b)) zs"
    if "deduplicated R zs" for zs
  proof -
    have "sorted_wrt record_less zs" "\<forall>r \<in> set zs. Record_wf r" using that by (simp_all add: deduplicated_def list_all_iff)
    then show ?thesis by (elim sorted_wrt_mono_rel [rotated]) (simp add: record_less_iff)
  qed
  have "set xs = set ys" 
    using deduplicated_member [OF assms] deduplicated_member [OF assms(2) assms(1)] by blast
  then show ?thesis
    using identity_order.asym sorted [OF assms(1)] sorted [OF assms(2)]
    by (intro strictly_sorted_unique [where R = "\<lambda>a b. identity_less (Record_Identity a) (Record_Identity b)"]) simp_all
qed

lemma provenance_of_insert:
  "provenance_of (insert r R) c = (if rec_configuration r = c then set (rec_provenance r) else {}) \<union> provenance_of R c"
proof -
  have "{s \<in> insert r R. rec_configuration s = c}
      = (if rec_configuration r = c then {r} else {}) \<union> {s \<in> R. rec_configuration s = c}" by auto
  then show ?thesis unfolding provenance_of_def by (simp only: UN_Un split: if_split) simp
qed

lemma provenance_of_outside: "c \<notin> rec_configuration ` R \<Longrightarrow> provenance_of R c = {}"
proof -
  assume "c \<notin> rec_configuration ` R"
  then have "{r \<in> R. rec_configuration r = c} = {}" by blast
  then show ?thesis by (simp only: provenance_of_def UN_empty)
qed

lemma finite_provenance_of: "finite R \<Longrightarrow> finite (provenance_of R c)"
  by (simp add: provenance_of_def)

lemma record_less_configuration:
  "Record_wf r \<Longrightarrow> Record_wf r' \<Longrightarrow> Record_wf s \<Longrightarrow> rec_configuration r = rec_configuration r' \<Longrightarrow>
   record_less r s = record_less r' s \<and> record_less s r = record_less s r'"
  by (simp add: record_less_iff Identity_configuration [of r r'])

lemma record_less_irrefl: "Record_wf r \<Longrightarrow> Record_wf s \<Longrightarrow> rec_configuration r = rec_configuration s \<Longrightarrow> \<not> record_less r s"
  using record_order.asym [of r s] record_less_configuration [of r s r] record_less_configuration [of r s s] by blast

lemma deduplicated_single: "Record_wf r \<Longrightarrow> deduplicated {r} [r]"
  using canonical_provenance_set [of "rec_provenance r"]
  by (simp add: deduplicated_def provenance_of_insert provenance_of_outside Record_wf_def)

lemma deduplicated_Cons:
  assumes "deduplicated R out" "Record_wf r" "\<forall>s \<in> R. Record_wf s" "\<forall>s \<in> R. record_less r s"
  shows "deduplicated (insert r R) (r # out)"
proof -
  have fresh: "rec_configuration r \<notin> rec_configuration ` R"
  proof
    assume "rec_configuration r \<in> rec_configuration ` R"
    then obtain s where s: "s \<in> R" "rec_configuration r = rec_configuration s" by (rule imageE)
    have "Record_wf s" "record_less r s" using s(1) assms(3,4) by simp_all
    then show False using record_less_irrefl [OF assms(2) _ s(2)] by simp
  qed
  have out: "sorted_wrt record_less out" "list_all Record_wf out" "rec_configuration ` set out = rec_configuration ` R"
    "\<forall>s \<in> set out. set (rec_provenance s) = merged_set (provenance_of R (rec_configuration s))"
    using assms(1) unfolding deduplicated_def by blast+
  have below: "record_less r s" if "s \<in> set out" for s
  proof -
    have "rec_configuration s \<in> rec_configuration ` R" using imageI [OF that, of rec_configuration] out(3) by simp
    then obtain s' where s': "s' \<in> R" "rec_configuration s = rec_configuration s'" by (rule imageE)
    have wf: "Record_wf s" "Record_wf s'" "record_less r s'"
      using that out(2) s'(1) assms(3,4) by (simp_all add: list_all_iff)
    show ?thesis using record_less_configuration [OF wf(1,2) assms(2) s'(2)] wf(3) by simp
  qed
  have same: "provenance_of (insert r R) (rec_configuration s) = provenance_of R (rec_configuration s)" if "s \<in> set out" for s
  proof -
    have "rec_configuration s \<noteq> rec_configuration r" using imageI [OF that, of rec_configuration] fresh out(3) by auto
    then show ?thesis by (simp add: provenance_of_insert)
  qed
  have "set (rec_provenance r) = merged_set (provenance_of (insert r R) (rec_configuration r))"
    using assms(2) fresh canonical_provenance_set [of "rec_provenance r"]
    by (simp add: provenance_of_insert provenance_of_outside Record_wf_def)
  moreover have "\<forall>s \<in> set out. set (rec_provenance s) = merged_set (provenance_of (insert r R) (rec_configuration s))"
    using out(4) same by simp
  ultimately show ?thesis using out(1-3) below assms(2) unfolding deduplicated_def by simp
qed

lemma mergeMatchingRecords_same:
  assumes "Record_wf l" "Record_wf r" "rec_configuration l = rec_configuration r"
  obtains m where "mergeMatchingRecords l r = Inr m" "Record_wf m" "rec_configuration m = rec_configuration l"
    "set (rec_provenance m) = merged_set (set (rec_provenance l) \<union> set (rec_provenance r))"
proof -
  have wf: "\<forall>g \<in> set [rec_provenance l, rec_provenance r]. \<forall>p \<in> set g. Provenance_wf p"
    using assms(1,2) by (simp add: Record_wf_def canonical_provenance_def list_all_iff)
  have conf: "Configuration_wf (rec_configuration l)" using assms(1) by (simp add: Record_wf_def)
  have "canonical_provenance (mergeProvenance [rec_provenance l, rec_provenance r])"
    using assms(1) by (intro merge_canonical [OF wf]) (simp add: Record_wf_def canonical_provenance_def)
  moreover have "mergeMatchingRecords l r
      = Inr (l\<lparr>rec_provenance := mergeProvenance [rec_provenance l, rec_provenance r]\<rparr>)"
    using assms(3) Equivalent_iff [OF conf conf] by (simp add: mergeMatchingRecords_def)
  ultimately show thesis
    using mergeProvenance_spec(2) [OF wf] conf
    by (intro that [of "l\<lparr>rec_provenance := mergeProvenance [rec_provenance l, rec_provenance r]\<rparr>"])
      (simp_all add: Record_wf_def)
qed

lemma deduplicated_merge:
  assumes "deduplicated (insert m R) out" "finite R" "rec_configuration m = rec_configuration l"
    "rec_configuration r = rec_configuration l"
    "set (rec_provenance m) = merged_set (set (rec_provenance l) \<union> set (rec_provenance r))"
  shows "deduplicated (insert l (insert r R)) out"
proof -
  have "merged_set (provenance_of (insert m R) c) = merged_set (provenance_of (insert l (insert r R)) c)" for c
  proof (cases "c = rec_configuration l")
    case True
    have "merged_set (merged_set (set (rec_provenance l) \<union> set (rec_provenance r)) \<union> provenance_of R c)
        = merged_set (set (rec_provenance l) \<union> set (rec_provenance r) \<union> provenance_of R c)"
      using finite_provenance_of [OF assms(2), of c]
      by (intro merged_set_eqI) (simp_all add: keys_of_Un aliases_of_Un aliases_of_merged)
    then show ?thesis using True assms(3-5) by (simp add: provenance_of_insert Un_assoc)
  next
    case False
    then show ?thesis using assms(3,4) by (simp add: provenance_of_insert)
  qed
  then show ?thesis using assms(1,3,4) unfolding deduplicated_def by simp
qed

lemma conflict_free_subset: "conflict_free R \<Longrightarrow> S \<subseteq> R \<Longrightarrow> conflict_free S"
  unfolding conflict_free_def by blast

lemma conflict_freeD:
  "conflict_free R \<Longrightarrow> r \<in> R \<Longrightarrow> s \<in> R \<Longrightarrow> Record_Identity r = Record_Identity s \<Longrightarrow>
   rec_configuration r = rec_configuration s"
  unfolding conflict_free_def by blast

lemma conflict_free_replace:
  assumes "conflict_free (insert a R)" "rec_configuration m = rec_configuration a"
  shows "conflict_free (insert m R)"
  using assms(1) Identity_configuration [OF assms(2)] unfolding conflict_free_def ball_simps assms(2) by presburger

lemma dedup_loop_spec:
  assumes "list_all Record_wf (cur # rest)" "sorted_wrt (\<lambda>a b. \<not> record_less b a) (cur # rest)"
    "conflict_free (set (cur # rest))"
  shows "\<exists>out. dedup_loop cur rest = Inr out \<and> deduplicated (set (cur # rest)) out"
  using assms
proof (induction rest arbitrary: cur)
  case Nil
  then show ?case by (simp add: deduplicated_single)
next
  case (Cons r rest)
  have wf: "Record_wf cur" "Record_wf r" "list_all Record_wf rest" using Cons.prems(1) by simp_all
  show ?case
  proof (cases "Record_Identity cur = Record_Identity r")
    case False
    have "\<not> record_less r cur" using Cons.prems(2) by simp
    then have less: "record_less cur r" 
      using False identity_order.total [of "Record_Identity cur" "Record_Identity r"]
      unfolding record_less_iff [OF wf(1,2)] record_less_iff [OF wf(2,1)] by blast
    have all: "record_less cur s" if "s \<in> set (r # rest)" for s
    proof -
      have s: "Record_wf s" "s = r \<or> \<not> record_less s r" using that wf Cons.prems(2) by (auto simp: list_all_iff)
      show ?thesis using record_order.weak_trans [OF wf(2) s(1) wf(1)] less s(2) by blast
    qed
    have "list_all Record_wf (r # rest)" "sorted_wrt (\<lambda>a b. \<not> record_less b a) (r # rest)"
      "conflict_free (set (r # rest))"
      using Cons.prems(1,2) conflict_free_subset [OF Cons.prems(3), of "set (r # rest)"] by auto
    from Cons.IH [OF this] obtain out where out: "dedup_loop r rest = Inr out" "deduplicated (set (r # rest)) out"
      by blast
    have "deduplicated (insert cur (set (r # rest))) (cur # out)"
    proof (rule deduplicated_Cons [OF out(2) wf(1)])
      show "\<forall>s \<in> set (r # rest). Record_wf s" using wf(2,3) by (simp add: list_all_iff)
      show "\<forall>s \<in> set (r # rest). record_less cur s" using all by blast
    qed
    then show ?thesis using False out(1) by (simp add: Identity_Equal_wf [OF wf(1,2)] and_then_def)
  next
    case True
    then have conf: "rec_configuration cur = rec_configuration r"
      by (rule conflict_freeD [OF Cons.prems(3), rotated 2]) simp_all
    obtain m where m: "mergeMatchingRecords cur r = Inr m" "Record_wf m" "rec_configuration m = rec_configuration cur"
      "set (rec_provenance m) = merged_set (set (rec_provenance cur) \<union> set (rec_provenance r))"
      by (rule mergeMatchingRecords_same [OF wf(1,2) conf])
    have "\<not> record_less s m" if "s \<in> set rest" for s
      using that wf Cons.prems(2) record_less_configuration [OF m(2) wf(1) _ m(3), of s] by (simp add: list_all_iff)
    then have sorted: "sorted_wrt (\<lambda>a b. \<not> record_less b a) (m # rest)" using Cons.prems(2) by simp
    have free: "conflict_free (set (m # rest))"
      using conflict_free_subset [OF Cons.prems(3), of "insert cur (set rest)"] conflict_free_replace [OF _ m(3)]
      by (simp add: subset_insertI2)
    have "list_all Record_wf (m # rest)" using m(2) wf(3) by simp
    from Cons.IH [OF this sorted free]
    obtain out where out: "dedup_loop m rest = Inr out" "deduplicated (insert m (set rest)) out" by auto
    have "deduplicated (insert cur (insert r (set rest))) out"
      by (rule deduplicated_merge [OF out(2) _ m(3) conf [symmetric] m(4)]) simp
    moreover have "dedup_loop cur (r # rest) = Inr out"
      using True m(1) out(1) Identity_Equal_wf [OF wf(2,2)] by (simp add: and_then_def)
    ultimately show ?thesis by auto
  qed
qed

lemma Deduplicate_spec:
  assumes "list_all Record_wf rs" "conflict_free (set rs)"
  shows "\<exists>out. Deduplicate rs = Inr out \<and> deduplicated (set rs) out"
proof -
  have clone: "map Record_clone rs = rs" using assms(1) by (intro map_idI) (simp add: list_all_iff Record_clone_wf)
  have valid: "list_all Record_valid rs" using assms(1) by (simp add: list_all_iff Record_wf_valid)
  show ?thesis
  proof (cases "sortRecords rs")
    case Nil
    then have "rs = []" by (simp add: sortRecords_def)
    then show ?thesis by (simp add: Deduplicate_def sortRecords_def deduplicated_def)
  next
    case (Cons r rest)
    have "set (r # rest) = set rs" using Cons by (metis sortRecords_def set_sort_by)
    moreover have "sorted_wrt (\<lambda>a b. \<not> record_less b a) (r # rest)"
      unfolding Cons [symmetric] sortRecords_def using assms(1) by (rule record_order.sort_by_sorted)
    ultimately have "\<exists>out. dedup_loop r rest = Inr out \<and> deduplicated (set rs) out"
      using dedup_loop_spec [of r rest] assms by (simp add: list_all_iff)
    then show ?thesis using Cons clone valid by (simp add: Deduplicate_def)
  qed
qed

lemma deduplicated_self:
  assumes "sorted_wrt record_less out" "list_all Record_wf out"
  shows "deduplicated (set out) out"
proof -
  have "set (rec_provenance r) = merged_set (provenance_of (set out) (rec_configuration r))" if r: "r \<in> set out" for r
  proof -
    have "s = r" if "s \<in> set out" "rec_configuration s = rec_configuration r" for s
    proof (rule ccontr)
      assume "s \<noteq> r"
      then have "record_less s r \<or> record_less r s"
        using assms(1) that(1) r by (metis in_set_conv_nth linorder_neqE_nat sorted_wrt_iff_nth_less)
      moreover have "Record_wf s" "Record_wf r" using assms(2) that(1) r by (simp_all add: list_all_iff)
      ultimately show False using record_less_irrefl that(2) by metis
    qed
    then have "{s \<in> set out. rec_configuration s = rec_configuration r} = {r}" using r by blast
    then have "provenance_of (set out) (rec_configuration r) = set (rec_provenance r)" by (simp add: provenance_of_def)
    then show ?thesis
      using assms(2) r canonical_provenance_set [of "rec_provenance r"] by (simp add: list_all_iff Record_wf_def)
  qed
  then show ?thesis using assms by (simp add: deduplicated_def)
qed

text \<open>Relationships and records that the exported constructors return.\<close>

inductive built_provenance :: "Provenance \<Rightarrow> bool" where
  "NewSourceID s = Inr s' \<Longrightarrow> NewRecordID r = Inr r' \<Longrightarrow> NewProvenance s' r' aliases = Inr p \<Longrightarrow> built_provenance p"

inductive built_record :: "Record \<Rightarrow> bool" where
  "built c \<Longrightarrow> list_all built_provenance ps \<Longrightarrow> NewRecord c ps = Inr r \<Longrightarrow> built_record r"

lemma built_provenance_wf: "built_provenance p \<Longrightarrow> Provenance_wf p"
  by (induction rule: built_provenance.induct) (rule NewProvenance_wf)

lemma built_record_wf: "built_record r \<Longrightarrow> Record_wf r"
  by (induction rule: built_record.induct)
    (erule NewRecord_wf, simp_all add: list_all_iff built_wf built_provenance_wf)

definition collision_free :: "Record list \<Rightarrow> bool" where
  "collision_free rs \<longleftrightarrow> list_all (\<lambda>r. list_all (\<lambda>s. \<not> sha256_collision
     (canonicalConfiguration (rec_configuration r) True) (canonicalConfiguration (rec_configuration s) True)) rs) rs"

lemma collision_free_conflict_free:
  assumes "list_all Record_wf rs" "collision_free rs"
  shows "conflict_free (set rs)"
  unfolding conflict_free_def
proof (intro ballI impI)
  fix r s assume rs: "r \<in> set rs" "s \<in> set rs" "Record_Identity r = Record_Identity s"
  have wf: "Configuration_wf (rec_configuration r)" "Configuration_wf (rec_configuration s)"
    using assms(1) rs(1,2) by (simp_all add: list_all_iff Record_wf_def)
  then have "sha256 (canonicalConfiguration (rec_configuration r) True) = sha256 (canonicalConfiguration (rec_configuration s) True)"
    using rs(3) by (simp add: Record_Identity_def Configuration_Identity_valid Configuration_wf_def)
  moreover have "\<not> sha256_collision (canonicalConfiguration (rec_configuration r) True) (canonicalConfiguration (rec_configuration s) True)"
    using assms(2) rs(1,2) by (simp add: collision_free_def list_all_iff)
  ultimately have "canonicalConfiguration (rec_configuration r) True = canonicalConfiguration (rec_configuration s) True"
    by (simp add: sha256_collision_def)
  then show "rec_configuration r = rec_configuration s"
    using canonicalConfiguration_iff [OF wf, of True] by simp
qed

lemma Deduplicate_built:
  assumes "list_all built_record rs" "collision_free rs"
  obtains out where "Deduplicate rs = Inr out" "deduplicated (set rs) out"
proof -
  have wf: "list_all Record_wf rs" using assms(1) by (simp add: list_all_iff built_record_wf)
  then show thesis using Deduplicate_spec [OF wf collision_free_conflict_free [OF wf assms(2)]] that by blast
qed

lemma collision_free_configurations:
  "collision_free rs \<Longrightarrow> rec_configuration ` set rs' = rec_configuration ` set rs \<Longrightarrow> collision_free rs'"
proof -
  assume free: "collision_free rs" and same: "rec_configuration ` set rs' = rec_configuration ` set rs"
  have "\<forall>c \<in> rec_configuration ` set rs. \<forall>d \<in> rec_configuration ` set rs.
      \<not> sha256_collision (canonicalConfiguration c True) (canonicalConfiguration d True)"
    using free by (simp add: collision_free_def list_all_iff)
  then have "\<forall>c \<in> rec_configuration ` set rs'. \<forall>d \<in> rec_configuration ` set rs'.
      \<not> sha256_collision (canonicalConfiguration c True) (canonicalConfiguration d True)"
    unfolding same .
  then show ?thesis by (simp add: collision_free_def list_all_iff)
qed

text \<open>
  C2. Deduplication keeps everything and invents nothing: without a SHA-256 collision it
  succeeds on any list of constructed records, the result has exactly the configurations of the
  input in strictly increasing identity order, and every record carries exactly the source
  relationships that its configuration had anywhere in the input, each with exactly the union
  of the aliases given for it.
\<close>

theorem Deduplicate_exact:
  assumes "list_all built_record rs" "collision_free rs"
  shows "\<exists>out. Deduplicate rs = Inr out
    \<and> sorted_wrt (\<lambda>r s. Identity_Compare (Record_Identity r) (Record_Identity s) < 0) out
    \<and> rec_configuration ` set out = rec_configuration ` set rs
    \<and> (\<forall>r \<in> set out.
         keys_of (set (rec_provenance r)) = keys_of (provenance_of (set rs) (rec_configuration r))
         \<and> (\<forall>k. aliases_of (set (rec_provenance r)) k = aliases_of (provenance_of (set rs) (rec_configuration r)) k))"
proof -
  obtain out where out: "Deduplicate rs = Inr out" "deduplicated (set rs) out" by (rule Deduplicate_built [OF assms])
  have "sorted_wrt record_less out" "list_all Record_wf out" using out(2) unfolding deduplicated_def by blast+
  then have "sorted_wrt (\<lambda>r s. Identity_Compare (Record_Identity r) (Record_Identity s) < 0) out"
    by (elim sorted_wrt_mono_rel [rotated]) (simp add: list_all_iff record_less_iff identity_less_def)
  moreover have "set (rec_provenance r) = merged_set (provenance_of (set rs) (rec_configuration r))" if "r \<in> set out" for r
    using out(2) that unfolding deduplicated_def by blast
  ultimately show ?thesis
    using out unfolding deduplicated_def by (intro exI [of _ out]) (simp add: aliases_of_merged finite_provenance_of)
qed

text \<open>
  C3. Deduplication does not depend on the order or the repetition of its input: two lists with
  the same records give the same inventory, and deduplicating an inventory again changes
  nothing.
\<close>

theorem Deduplicate_deterministic:
  assumes "list_all built_record rs" "collision_free rs" "set rs' = set rs"
  shows "Deduplicate rs' = Deduplicate rs
    \<and> (\<exists>out. Deduplicate rs = Inr out \<and> Deduplicate (Inventory_Records out) = Inr out)"
proof -
  obtain out where out: "Deduplicate rs = Inr out" "deduplicated (set rs) out"
    by (rule Deduplicate_built [OF assms(1,2)])
  have "list_all built_record rs'" using assms(1,3) by (simp add: list_all_iff)
  moreover have "collision_free rs'"
    by (rule collision_free_configurations [OF assms(2)]) (simp add: assms(3))
  ultimately obtain out' where out': "Deduplicate rs' = Inr out'" "deduplicated (set rs') out'"
    by (rule Deduplicate_built)
  have "deduplicated (set rs) out'" using out'(2) assms(3) by simp
  from deduplicated_unique [OF this out(2)] have first: "Deduplicate rs' = Deduplicate rs" using out out' by simp
  have wf: "sorted_wrt record_less out" "list_all Record_wf out" "rec_configuration ` set out = rec_configuration ` set rs"
    using out(2) unfolding deduplicated_def by blast+
  have "map Record_clone out = out" using wf(2) by (intro map_idI) (simp add: list_all_iff Record_clone_wf)
  moreover have "conflict_free (set out)"
    by (rule collision_free_conflict_free [OF wf(2) collision_free_configurations [OF assms(2) wf(3)]])
  from Deduplicate_spec [OF wf(2) this] obtain again where "Deduplicate out = Inr again" "deduplicated (set out) again"
    by blast
  moreover from deduplicated_unique [OF this(2) deduplicated_self [OF wf(1,2)]] have "again = out" .
  ultimately show ?thesis using first out(1) by (simp add: Inventory_Records_def)
qed

definition sample_provenance :: "string \<Rightarrow> string list \<Rightarrow> Provenance" where
  "sample_provenance source aliases = \<lparr>prov_source = source, prov_record = ''r1'', prov_aliases = Some aliases\<rparr>"

definition sample_record :: "string \<Rightarrow> string list \<Rightarrow> Record" where
  "sample_record source aliases = \<lparr>rec_configuration = sample_configuration,
     rec_provenance = [sample_provenance source aliases]\<rparr>"

lemma sample_provenance_built:
  "built_provenance (sample_provenance ''s1'' [''one''])" "built_provenance (sample_provenance ''s2'' [''two''])"
proof -
  have ids: "NewSourceID ''s1'' = Inr ''s1''" "NewSourceID ''s2'' = Inr ''s2''" "NewRecordID ''r1'' = Inr ''r1''"
    by code_simp+
  have "NewProvenance ''s1'' ''r1'' [''one''] = Inr (sample_provenance ''s1'' [''one''])"
    "NewProvenance ''s2'' ''r1'' [''two''] = Inr (sample_provenance ''s2'' [''two''])"
    by code_simp+
  with ids show "built_provenance (sample_provenance ''s1'' [''one''])" "built_provenance (sample_provenance ''s2'' [''two''])"
    by (auto intro: built_provenance.intros)
qed

lemma sample_record_built:
  "built_record (sample_record ''s1'' [''one''])" "built_record (sample_record ''s2'' [''two''])"
proof -
  have "NewRecord sample_configuration [sample_provenance ''s1'' [''one'']] = Inr (sample_record ''s1'' [''one''])"
    "NewRecord sample_configuration [sample_provenance ''s2'' [''two'']] = Inr (sample_record ''s2'' [''two''])"
    by code_simp+
  then show "built_record (sample_record ''s1'' [''one''])" "built_record (sample_record ''s2'' [''two''])"
    using sample_built sample_provenance_built by (auto intro!: built_record.intros)
qed

lemma sample_collision_free: "collision_free [sample_record s a, sample_record t b]"
  by (simp add: collision_free_def sample_record_def sha256_collision_def)

theorem Deduplicate_exact_witness:
  "\<exists>out. Deduplicate [sample_record ''s1'' [''one''], sample_record ''s2'' [''two'']] = Inr out
     \<and> rec_configuration ` set out = {sample_configuration}"
proof -
  have "list_all built_record [sample_record ''s1'' [''one''], sample_record ''s2'' [''two'']]"
    by (simp add: sample_record_built)
  from Deduplicate_exact [OF this sample_collision_free] show ?thesis by (auto simp: sample_record_def)
qed

theorem Deduplicate_deterministic_witness:
  "Deduplicate [sample_record ''s2'' [''two''], sample_record ''s1'' [''one''], sample_record ''s2'' [''two'']]
   = Deduplicate [sample_record ''s1'' [''one''], sample_record ''s2'' [''two'']]"
proof -
  have "list_all built_record [sample_record ''s1'' [''one''], sample_record ''s2'' [''two'']]"
    by (simp add: sample_record_built)
  moreover have "set [sample_record ''s2'' [''two''], sample_record ''s1'' [''one''], sample_record ''s2'' [''two'']]
      = set [sample_record ''s1'' [''one''], sample_record ''s2'' [''two'']]" by auto
  ultimately show ?thesis using Deduplicate_deterministic sample_collision_free by blast
qed

end
