(* ===== verification/Float64.thy ===== *)
theory Float64
  imports Prelude "HOL-Library.Log_Nat"
begin

text \<open>
  The IEEE-754 binary64 arithmetic of Go's \<^verbatim>\<open>float64\<close>, on the rational value of a number: every
  operation is the exact operation followed by rounding to nearest, ties to even, with 53 bits
  of precision and the exponent of the least subnormal number as lower bound. Infinities, NaN
  and signed zero are not represented; the model's callers stay below the largest finite
  number. Each operation rounds on its own, as on a target without fused multiply-add. The
  lemmas show that rounding is monotone and exact on small integers.
\<close>

section \<open>Binary exponents\<close>

definition pow2 :: "int \<Rightarrow> rat" where
  "pow2 k = (if 0 \<le> k then 2 ^ nat k else 1 / 2 ^ nat (- k))"

text \<open>The greatest \<open>k\<close> with \<open>pow2 k \<le> x\<close>, for positive \<open>x\<close>.\<close>

definition ilog2 :: "rat \<Rightarrow> int" where
  "ilog2 x =
     (let (a, b) = quotient_of x; k = bitlen a - bitlen b
      in if x < pow2 k then k - 1 else k)"

section \<open>Rounding\<close>

definition round_even :: "rat \<Rightarrow> int" where
  "round_even t =
     (let m = \<lfloor>t\<rfloor>; d = t - of_int m
      in if d < 1 / 2 \<or> d = 1 / 2 \<and> even m then m else m + 1)"

definition grid :: "rat \<Rightarrow> int" where
  "grid x = max (ilog2 x - 52) (- 1074)"

definition round64 :: "rat \<Rightarrow> rat" where
  "round64 x =
     (if x = 0 then 0
      else let e = grid \<bar>x\<bar>
           in of_int (round_even (x / pow2 e)) * pow2 e)"

text \<open>The integer square root and the rounded square root.\<close>

fun isqrt :: "nat \<Rightarrow> nat" where
  "isqrt n = (if n = 0 then 0 else let r = 2 * isqrt (n div 4) in if (r + 1) ^ 2 \<le> n then r + 1 else r)"

declare isqrt.simps [simp del]

definition sqrt64 :: "rat \<Rightarrow> rat" where
  "sqrt64 x =
     (if x \<le> 0 then 0
      else let e = ilog2 x div 2 - 52; t = x / (pow2 e * pow2 e); s = int (isqrt (nat \<lfloor>t\<rfloor>));
               h = (of_int s + 1 / 2) * (of_int s + 1 / 2)
           in of_int (if t < h \<or> t = h \<and> even s then s else s + 1) * pow2 e)"

definition float_of_int :: "int \<Rightarrow> rat" where "float_of_int n = round64 (of_int n)"
definition float_add :: "rat \<Rightarrow> rat \<Rightarrow> rat" where "float_add x y = round64 (x + y)"
definition float_sub :: "rat \<Rightarrow> rat \<Rightarrow> rat" where "float_sub x y = round64 (x - y)"
definition float_mul :: "rat \<Rightarrow> rat \<Rightarrow> rat" where "float_mul x y = round64 (x * y)"
definition float_div :: "rat \<Rightarrow> rat \<Rightarrow> rat" where "float_div x y = round64 (x / y)"

text \<open>\<^verbatim>\<open>math.Round\<close> rounds half away from zero.\<close>

definition math_Round :: "rat \<Rightarrow> int" where
  "math_Round x = (if 0 \<le> x then \<lfloor>x + 1 / 2\<rfloor> else - \<lfloor>- x + 1 / 2\<rfloor>)"

section \<open>Powers of two and logarithms\<close>

lemma pow2_pos [simp]: "0 < pow2 k"
  by (simp add: pow2_def)

lemma pow2_nonneg [simp]: "0 \<le> pow2 k"
  using pow2_pos [of k] by linarith

lemma pow2_neq_0 [simp]: "pow2 k \<noteq> 0"
  using pow2_pos [of k] by linarith

lemma pow2_Suc: "pow2 (k + 1) = 2 * pow2 k"
proof (cases "0 \<le> k")
  case True
  then have "nat (k + 1) = Suc (nat k)" by simp
  then show ?thesis using True by (simp add: pow2_def)
next
  case False
  then have "nat (- k) = Suc (nat (- (k + 1)))" by simp
  then show ?thesis using False by (auto simp: pow2_def)
qed

lemma pow2_add_nat: "pow2 (k + int n) = 2 ^ n * pow2 k"
proof (induction n)
  case (Suc n)
  have "pow2 (k + int (Suc n)) = pow2 ((k + int n) + 1)" by (simp add: algebra_simps)
  then show ?case using Suc pow2_Suc [of "k + int n"] by simp
qed simp

lemma pow2_mono: "j \<le> k \<Longrightarrow> pow2 j \<le> pow2 k"
  using pow2_add_nat [of j "nat (k - j)"] by simp

lemma pow2_nat: "pow2 (int n) = 2 ^ n"
  by (simp add: pow2_def)

lemma pow2_add: "pow2 (j + k) = pow2 j * pow2 k"
proof (cases "0 \<le> k")
  case True
  then show ?thesis using pow2_add_nat [of j "nat k"] pow2_nat [of "nat k"] by simp
next
  case False
  then have "pow2 j = 2 ^ nat (- k) * pow2 (j + k)" using pow2_add_nat [of "j + k" "nat (- k)"] by simp
  moreover have "pow2 k = 1 / 2 ^ nat (- k)" using False by (simp add: pow2_def)
  ultimately show ?thesis by simp
qed

lemma bitlen_range:
  assumes "0 < n"
  shows "pow2 (bitlen n - 1) \<le> of_int n" "of_int n < pow2 (bitlen n)"
proof -
  have pos: "0 < bitlen n" using assms bitlen_eq_zero_iff [of n] bitlen_nonneg [of n] by linarith
  have "2 ^ nat (bitlen n - 1) \<le> n \<and> n < 2 ^ nat (bitlen n)" using assms by (rule bitlen_bounds)
  then have "(of_int (2 ^ nat (bitlen n - 1)) :: rat) \<le> of_int n" "(of_int n :: rat) < of_int (2 ^ nat (bitlen n))"
    by (simp_all only: of_int_le_iff of_int_less_iff)
  then show "pow2 (bitlen n - 1) \<le> of_int n" "of_int n < pow2 (bitlen n)" using pos by (simp_all add: pow2_def)
qed

lemma ilog2_bounds:
  assumes "0 < x"
  shows "pow2 (ilog2 x) \<le> x" "x < pow2 (ilog2 x + 1)"
proof -
  obtain a b where ab: "quotient_of x = (a, b)" by (cases "quotient_of x")
  then have b: "0 < b" and x: "x = of_int a / of_int b" by (simp_all add: quotient_of_denom_pos quotient_of_div)
  then have a: "0 < a" using assms by (simp add: zero_less_divide_iff)
  define k where "k = bitlen a - bitlen b"
  have "of_int a < pow2 (k + 1) * pow2 (bitlen b - 1)"
    using bitlen_range(2) [OF a] by (simp add: pow2_add [symmetric] k_def)
  also have "\<dots> \<le> pow2 (k + 1) * of_int b"
    using bitlen_range(1) [OF b] by (intro mult_left_mono) simp_all
  finally have up: "x < pow2 (k + 1)" using b by (simp add: x divide_less_eq)
  have "pow2 (k - 1) * of_int b < pow2 (k - 1) * pow2 (bitlen b)"
    using bitlen_range(2) [OF b] by (intro mult_strict_left_mono) simp_all
  also have "\<dots> \<le> of_int a" using bitlen_range(1) [OF a] by (simp add: pow2_add [symmetric] k_def)
  finally have low: "pow2 (k - 1) \<le> x" using b by (simp add: x le_divide_eq)
  show "pow2 (ilog2 x) \<le> x" "x < pow2 (ilog2 x + 1)"
    using up low by (simp_all add: ilog2_def ab k_def [symmetric] Let_def)
qed

lemma ilog2_mono:
  assumes "0 < x" "x \<le> y"
  shows "ilog2 x \<le> ilog2 y"
proof (rule ccontr)
  assume "\<not> ilog2 x \<le> ilog2 y"
  then have "pow2 (ilog2 y + 1) \<le> pow2 (ilog2 x)" by (intro pow2_mono) simp
  then show False using ilog2_bounds(1) [of x] ilog2_bounds(2) [of y] assms by linarith
qed

section \<open>Rounding is monotone\<close>

lemma round_even_range: "of_int (round_even t) \<le> t + 1 / 2" "t - 1 / 2 \<le> of_int (round_even t)"
  unfolding round_even_def Let_def by (auto, linarith+)

lemma round_even_of_int [simp]: "round_even (of_int n) = n"
  by (simp add: round_even_def)

lemma round_even_mono:
  assumes "s \<le> t"
  shows "round_even s \<le> round_even t"
proof (cases "\<lfloor>s\<rfloor> = \<lfloor>t\<rfloor>")
  case True
  then show ?thesis using assms by (auto simp: round_even_def Let_def)
next
  case False
  then have "\<lfloor>s\<rfloor> + 1 \<le> \<lfloor>t\<rfloor>" using floor_mono [OF assms] by simp
  moreover have "round_even s \<le> \<lfloor>s\<rfloor> + 1" "\<lfloor>t\<rfloor> \<le> round_even t" by (simp_all add: round_even_def Let_def)
  ultimately show ?thesis by linarith
qed

lemma round_even_nonneg: "0 \<le> t \<Longrightarrow> 0 \<le> round_even t"
  using round_even_mono [of 0 t] round_even_of_int [of 0] by simp

lemma round64_pos_bounds:
  assumes "0 < x" "- 1074 \<le> ilog2 x - 52"
  shows "pow2 (ilog2 x) \<le> round64 x" "round64 x \<le> pow2 (ilog2 x + 1)"
proof -
  let ?e = "ilog2 x - 52"
  have e: "grid \<bar>x\<bar> = ?e" using assms by (simp add: grid_def)
  have r: "round64 x = of_int (round_even (x / pow2 ?e)) * pow2 ?e" using assms(1) e by (simp add: round64_def Let_def)
  have p: "pow2 (ilog2 x) = of_int (2 ^ 52) * pow2 ?e" "pow2 (ilog2 x + 1) = of_int (2 ^ 53) * pow2 ?e"
    using pow2_add_nat [of ?e 52] pow2_add_nat [of ?e 53] by (simp_all add: add.commute)
  have "of_int (2 ^ 52) \<le> x / pow2 ?e" "x / pow2 ?e \<le> of_int (2 ^ 53)"
    using ilog2_bounds [OF assms(1)] unfolding p by (simp_all add: le_divide_eq divide_le_eq)
  from round_even_mono [OF this(1)] round_even_mono [OF this(2)]
  have "(2 ^ 52 :: int) \<le> round_even (x / pow2 ?e)" "round_even (x / pow2 ?e) \<le> (2 ^ 53 :: int)"
    unfolding round_even_of_int .
  then have "(of_int (2 ^ 52) :: rat) \<le> of_int (round_even (x / pow2 ?e))"
    "(of_int (round_even (x / pow2 ?e)) :: rat) \<le> of_int (2 ^ 53)" by (simp_all only: of_int_le_iff)
  then show "pow2 (ilog2 x) \<le> round64 x" "round64 x \<le> pow2 (ilog2 x + 1)"
    unfolding r p by (intro mult_right_mono; simp)+
qed

lemma round64_nonneg [simp]: "0 \<le> x \<Longrightarrow> 0 \<le> round64 x"
  by (simp add: round64_def Let_def round_even_nonneg)

lemma round64_0 [simp]: "round64 0 = 0"
  by (simp add: round64_def)

lemma round64_mono_pos:
  assumes "0 < x" "x \<le> y"
  shows "round64 x \<le> round64 y"
proof (cases "grid x = grid y")
  case True
  have "round_even (x / pow2 (grid y)) \<le> round_even (y / pow2 (grid y))"
    using assms by (intro round_even_mono divide_right_mono) simp_all
  then show ?thesis using assms True by (simp add: round64_def Let_def)
next
  case False
  have log: "ilog2 x \<le> ilog2 y" using assms by (rule ilog2_mono)
  then have y: "- 1074 < ilog2 y - 52" "ilog2 x < ilog2 y" using False by (auto simp: grid_def)
  have "round64 x \<le> pow2 (ilog2 y)"
  proof (cases "- 1074 \<le> ilog2 x - 52")
    case True
    have "round64 x \<le> pow2 (ilog2 x + 1)" using round64_pos_bounds(2) [OF assms(1) True] .
    also have "\<dots> \<le> pow2 (ilog2 y)" using y(2) by (intro pow2_mono) simp
    finally show ?thesis .
  next
    case False
    let ?n = "nat (ilog2 y + 1074)"
    have g: "grid \<bar>x\<bar> = - 1074" using assms False by (simp add: grid_def)
    have p: "pow2 (ilog2 y) = of_int (2 ^ ?n) * pow2 (- 1074)"
      using pow2_add_nat [of "- 1074" ?n] y(1) by simp
    have "x \<le> pow2 (ilog2 y)"
      using ilog2_bounds(2) [OF assms(1)] pow2_mono [of "ilog2 x + 1" "ilog2 y"] y(2) by simp
    then have "x / pow2 (- 1074) \<le> of_int (2 ^ ?n)" unfolding p by (simp add: divide_le_eq)
    from round_even_mono [OF this] have "round_even (x / pow2 (- 1074)) \<le> 2 ^ ?n" unfolding round_even_of_int .
    then have "(of_int (round_even (x / pow2 (- 1074))) :: rat) \<le> of_int (2 ^ ?n)" by (simp only: of_int_le_iff)
    then have "of_int (round_even (x / pow2 (- 1074))) * pow2 (- 1074) \<le> pow2 (ilog2 y)"
      unfolding p by (intro mult_right_mono) simp_all
    then show ?thesis using g assms(1) by (simp add: round64_def Let_def)
  qed
  also have "\<dots> \<le> round64 y" using round64_pos_bounds(1) [of y] assms y by simp
  finally show ?thesis .
qed

lemma round64_mono: "0 \<le> x \<Longrightarrow> x \<le> y \<Longrightarrow> round64 x \<le> round64 y"
  using round64_mono_pos [of x y] by (cases "x = 0") simp_all

lemma round64_nonpos: "x \<le> 0 \<Longrightarrow> round64 x \<le> 0"
proof -
  assume x: "x \<le> 0"
  have "round_even (x / pow2 (grid \<bar>x\<bar>)) \<le> round_even 0"
    using x by (intro round_even_mono) (simp add: divide_nonpos_pos)
  then have "(of_int (round_even (x / pow2 (grid \<bar>x\<bar>))) :: rat) \<le> 0" using round_even_of_int [of 0] by simp
  then show ?thesis by (simp add: round64_def Let_def mult_nonpos_nonneg)
qed

lemma round64_exact:
  assumes "0 < x" "x / pow2 (grid x) = of_int k"
  shows "round64 x = x"
proof -
  have "round64 x = of_int (round_even (x / pow2 (grid x))) * pow2 (grid x)"
    using assms(1) by (simp add: round64_def Let_def)
  also have "\<dots> = (x / pow2 (grid x)) * pow2 (grid x)" unfolding assms(2) round_even_of_int ..
  finally show ?thesis by simp
qed

text \<open>Integers below \<open>2 ^ 53\<close> are represented exactly.\<close>

lemma round64_of_nat:
  assumes "n < 2 ^ 53"
  shows "round64 (of_nat n) = of_nat n"
proof (cases "n = 0")
  case False
  let ?x = "of_nat n :: rat"
  have pos: "0 < ?x" using False by simp
  have "?x < pow2 53"
  proof -
    have "(of_nat n :: rat) < of_nat (2 ^ 53)" using assms by (simp only: of_nat_less_iff)
    then show ?thesis by (simp add: pow2_def)
  qed
  then have up: "ilog2 ?x < 53"
    using ilog2_bounds(1) [OF pos] pow2_mono [of 53 "ilog2 ?x"] by linarith
  have "pow2 0 \<le> ?x" using False by (simp add: pow2_def)
  then have low: "0 \<le> ilog2 ?x"
    using ilog2_bounds(2) [OF pos] pow2_mono [of "ilog2 ?x + 1" 0] by linarith
  let ?e = "ilog2 ?x - 52"
  have e: "grid ?x = ?e" using low by (simp add: grid_def)
  have "pow2 0 = 2 ^ nat (- ?e) * pow2 ?e" using pow2_add_nat [of ?e "nat (- ?e)"] up by simp
  then have one: "1 = 2 ^ nat (- ?e) * pow2 ?e" by (simp add: pow2_def)
  have "?x / pow2 ?e = of_int (int n * 2 ^ nat (- ?e))"
    using one by (simp add: field_simps)
  then show ?thesis using round64_exact [OF pos] e by metis
qed simp

lemma float_of_int_small: "0 \<le> n \<Longrightarrow> n < 2 ^ 53 \<Longrightarrow> float_of_int n = of_int n"
  using round64_of_nat [of "nat n"] by (simp add: float_of_int_def)

lemma isqrt_bounds: "isqrt n ^ 2 \<le> n \<and> n < (isqrt n + 1) ^ 2"
proof (induction n rule: isqrt.induct)
  case (1 n)
  show ?case
  proof (cases "n = 0")
    case True
    then show ?thesis by (simp add: isqrt.simps)
  next
    case False
    let ?q = "isqrt (n div 4)"
    have q: "?q ^ 2 \<le> n div 4" "n div 4 < (?q + 1) ^ 2" using 1 False by auto
    have "4 * (n div 4) \<le> n" "n < 4 * (n div 4) + 4" by simp_all
    then have "4 * ?q ^ 2 \<le> n" "n < 4 * (?q + 1) ^ 2" using q by linarith+
    then have "(2 * ?q) ^ 2 \<le> n" "n < (2 * ?q + 2) ^ 2" by (simp_all add: power2_eq_square algebra_simps)
    then show ?thesis using False by (subst (1 2) isqrt.simps) (simp add: Let_def)
  qed
qed

lemma sqrt64_nonneg [simp]: "0 \<le> sqrt64 x"
  by (simp add: sqrt64_def Let_def)
lemma ilog2_unique:
  assumes "pow2 k \<le> x" "x < pow2 (k + 1)"
  shows "ilog2 x = k"
proof -
  have pos: "0 < x" using assms(1) pow2_pos [of k] by linarith
  have "\<not> k + 1 \<le> ilog2 x" using ilog2_bounds(1) [OF pos] assms(2) pow2_mono [of "k + 1" "ilog2 x"] by linarith
  moreover have "\<not> ilog2 x + 1 \<le> k" using ilog2_bounds(2) [OF pos] assms(1) pow2_mono [of "ilog2 x + 1" k] by linarith
  ultimately show ?thesis by linarith
qed

lemma round_even_unique: "\<bar>t - of_int m\<bar> < 1 / 2 \<Longrightarrow> round_even t = m"
  using round_even_range [of t] by linarith

lemma round_even_tie:
  assumes "t - of_int m = 1 / 2 \<or> t - of_int m = - 1 / 2" "even m"
  shows "round_even t = m"
proof (cases "t - of_int m = 1 / 2")
  case True
  then have "\<lfloor>t\<rfloor> = m" by (simp add: floor_eq_iff)
  then show ?thesis using True assms(2) by (simp add: round_even_def)
next
  case False
  then have t: "t = of_int m - 1 / 2" using assms(1) by simp
  then have "\<lfloor>t\<rfloor> = m - 1" by (simp add: floor_eq_iff)
  then show ?thesis using t assms(2) by (simp add: round_even_def)
qed

text \<open>A rounded value is found from its exponent and its significand.\<close>

lemma round64_eval:
  assumes "pow2 (e + 52) \<le> x" "x < pow2 (e + 53)" "- 1074 \<le> e" "\<bar>x / pow2 e - of_int m\<bar> < 1 / 2"
  shows "round64 x = of_int m * pow2 e"
proof -
  have pos: "0 < x" using assms(1) pow2_pos [of "e + 52"] by linarith
  have "ilog2 x = e + 52" using assms(1,2) by (intro ilog2_unique) (simp_all add: add.assoc)
  then have "grid \<bar>x\<bar> = e" using pos assms(3) by (simp add: grid_def)
  then show ?thesis using pos round_even_unique [OF assms(4)] by (simp add: round64_def Let_def)
qed

lemma round64_eval_tie:
  assumes "pow2 (e + 52) \<le> x" "x < pow2 (e + 53)" "- 1074 \<le> e"
    and "x / pow2 e - of_int m = 1 / 2 \<or> x / pow2 e - of_int m = - 1 / 2" "even m"
  shows "round64 x = of_int m * pow2 e"
proof -
  have pos: "0 < x" using assms(1) pow2_pos [of "e + 52"] by linarith
  have "ilog2 x = e + 52" using assms(1,2) by (intro ilog2_unique) (simp_all add: add.assoc)
  then have "grid \<bar>x\<bar> = e" using pos assms(3) by (simp add: grid_def)
  then show ?thesis using pos round_even_tie [OF assms(4,5)] by (simp add: round64_def Let_def)
qed

lemma pow2_diff_int:
  assumes "f \<le> e"
  shows "of_int m * pow2 e / pow2 f = of_int (m * 2 ^ nat (e - f))"
proof -
  have "pow2 e = 2 ^ nat (e - f) * pow2 f" using pow2_add_nat [of f "nat (e - f)"] assms by simp
  then show ?thesis by simp
qed

lemma round64_representable:
  assumes "0 < m" "m \<le> 2 ^ 53" "- 1074 \<le> e"
  shows "round64 (of_int m * pow2 e) = of_int m * pow2 e"
proof -
  let ?x = "of_int m * pow2 e"
  have pos: "0 < ?x" using assms(1) by simp
  have top: "pow2 (e + 53) = of_int (2 ^ 53) * pow2 e" using pow2_add_nat [of e 53] by simp
  have "\<exists>k. ?x / pow2 (grid ?x) = of_int k"
  proof (cases "grid ?x \<le> e")
    case True
    then show ?thesis using pow2_diff_int by blast
  next
    case False
    then have log: "e + 53 \<le> ilog2 ?x" using assms(3) by (auto simp: grid_def)
    then have "pow2 (e + 53) \<le> ?x" using pow2_mono [OF log] ilog2_bounds(1) [OF pos] by linarith
    then have "of_int (2 ^ 53) * pow2 e \<le> of_int m * pow2 e" unfolding top .
    then have "(of_int (2 ^ 53) :: rat) \<le> of_int m" by (rule mult_right_le_imp_le) simp
    then have "2 ^ 53 \<le> m" by (simp only: of_int_le_iff)
    then have m: "m = 2 ^ 53" using assms(2) by simp
    then have x: "?x = pow2 (e + 53)" using top by simp
    have "ilog2 ?x = e + 53" unfolding x by (rule ilog2_unique) (simp_all only: pow2_Suc, simp_all)
    then have "grid ?x = e + 1" using assms(3) by (simp add: grid_def)
    moreover have "?x = of_int 1 * pow2 (e + 53)" using x by simp
    ultimately show ?thesis using pow2_diff_int [of "e + 1" "e + 53" 1] by auto
  qed
  then show ?thesis using round64_exact [OF pos] by blast
qed

lemma round64_idem: "0 \<le> x \<Longrightarrow> round64 (round64 x) = round64 x"
proof (cases "x = 0")
  case False
  assume "0 \<le> x"
  then have pos: "0 < x" using False by simp
  let ?g = "grid x" and ?k = "round_even (x / pow2 (grid x))"
  have r: "round64 x = of_int ?k * pow2 ?g" using pos by (simp add: round64_def Let_def)
  have "x < pow2 (ilog2 x + 1)" by (rule ilog2_bounds(2) [OF pos])
  also have "\<dots> \<le> pow2 (?g + 53)" by (rule pow2_mono) (simp add: grid_def)
  also have "\<dots> = of_int (2 ^ 53) * pow2 ?g" using pow2_add_nat [of ?g 53] by simp
  finally have "x / pow2 ?g \<le> of_int (2 ^ 53)" by (simp add: divide_le_eq)
  from round_even_mono [OF this] have k: "?k \<le> 2 ^ 53" unfolding round_even_of_int .
  have "0 \<le> ?k" using pos by (intro round_even_nonneg) simp
  then show ?thesis
    using k round64_representable [of ?k ?g] unfolding r by (cases "?k = 0") (simp_all add: grid_def)
qed simp

lemma float_of_int_1 [simp]: "round64 1 = 1"
  using round64_of_nat [of 1] by simp
lemma isqrt_unique:
  assumes "s ^ 2 \<le> n" "n < (s + 1) ^ 2"
  shows "isqrt n = s"
proof -
  have "isqrt n < s + 1" using isqrt_bounds [of n] assms(2) by (intro power2_less_imp_less [of "isqrt n" "s + 1"]) simp_all
  moreover have "s < isqrt n + 1" using isqrt_bounds [of n] assms(1) by (intro power2_less_imp_less [of s "isqrt n + 1"]) simp_all
  ultimately show ?thesis by simp
qed

lemma sqrt64_eval:
  assumes "pow2 k \<le> x" "x < pow2 (k + 1)" "e = k div 2 - 52" "t = x / (pow2 e * pow2 e)"
    and "of_nat s ^ 2 \<le> t" "t < (of_nat s + 1) ^ 2" "t \<noteq> (of_nat s + 1 / 2) ^ 2"
  shows "sqrt64 x = of_int (if t < (of_nat s + 1 / 2) ^ 2 then int s else int s + 1) * pow2 e"
proof -
  have "0 < x" using assms(1) pow2_pos [of k] by linarith
  moreover have "ilog2 x = k" using assms(1,2) by (rule ilog2_unique)
  moreover have "isqrt (nat \<lfloor>t\<rfloor>) = s"
  proof (rule isqrt_unique)
    have "of_int (int (s ^ 2)) \<le> t" using assms(5) by simp
    then show "s ^ 2 \<le> nat \<lfloor>t\<rfloor>" by (simp only: le_floor_iff nat_le_iff le_nat_iff)
    have "t < of_int (int ((s + 1) ^ 2))" using assms(6) by (simp add: add.commute)
    then have "\<lfloor>t\<rfloor> < int ((s + 1) ^ 2)" by (simp only: floor_less_iff)
    moreover have "0 \<le> \<lfloor>t\<rfloor>" using assms(5) order_trans [OF zero_le_power2 assms(5)] by simp
    ultimately show "nat \<lfloor>t\<rfloor> < (s + 1) ^ 2" by (simp only: nat_less_iff)
  qed
  ultimately show ?thesis
    unfolding sqrt64_def Let_def assms(3) [symmetric] using assms(3,4,7)
    by (auto simp: Let_def power2_eq_square)
qed

end
