(* ===== verification/Artifact.thy ===== *)
theory Artifact
  imports Endpoint_Identity
begin

text \<open>
  \<^verbatim>\<open>internal/artifact/artifact.go\<close>: engine profiles, artifact candidates, their validation by a
  checker and the generation digest. The external checker is a parameter. The lemmas show that
  only checked content becomes a validated artifact and that the generation identifies profile
  and content.
\<close>

type_synonym u8 = "8 word"

section \<open>Profiles\<close>

type_synonym Engine = u8

definition EngineMihomo :: Engine where "EngineMihomo = 1"
definition EngineSingBox :: Engine where "EngineSingBox = 2"

definition Engine_String :: "Engine \<Rightarrow> string" where
  "Engine_String e =
     (if e = EngineMihomo then ''mihomo'' else if e = EngineSingBox then ''sing-box'' else ''unknown'')"

record Profile =
  profile_Engine :: Engine
  profile_Version :: string
  profile_RendererSchema :: string
  profile_MediaType :: string

definition Mihomo11931 :: Profile where
  "Mihomo11931 = \<lparr>profile_Engine = EngineMihomo, profile_Version = ''1.19.31'',
     profile_RendererSchema = ''egressfox.mihomo/v1'', profile_MediaType = ''application/yaml''\<rparr>"

definition SingBox1141 :: Profile where
  "SingBox1141 = \<lparr>profile_Engine = EngineSingBox, profile_Version = ''1.14.1'',
     profile_RendererSchema = ''egressfox.sing-box/v3'', profile_MediaType = ''application/json''\<rparr>"

section \<open>Candidates and validation\<close>

record ArtifactCandidate =
  art_profile :: Profile
  art_content :: bytes

definition NewCandidate :: "Profile \<Rightarrow> bytes \<Rightarrow> string + ArtifactCandidate" where
  "NewCandidate profile content =
     (if Engine_String (profile_Engine profile) = ''unknown'' \<or> profile_Version profile = []
         \<or> profile_RendererSchema profile = [] \<or> profile_MediaType profile = [] \<or> content = []
      then Inl ''invalid artifact candidate metadata''
      else Inr \<lparr>art_profile = profile, art_content = content\<rparr>)"

definition safe_name_char :: "char \<Rightarrow> bool" where
  "safe_name_char c \<longleftrightarrow> is_lower c \<or> is_upper c \<or> is_digit c \<or> c = CHR ''.'' \<or> c = CHR ''/'' \<or> c = CHR ''_'' \<or> c = CHR ''-''"

definition safeValidatorID :: "string \<Rightarrow> bool" where
  "safeValidatorID value =
     (if length value = 0 \<or> length value > 128 then False else list_all safe_name_char value)"

text \<open>The bytes written to the hash, and the digest.\<close>

definition generation_input :: "ArtifactCandidate \<Rightarrow> bytes" where
  "generation_input candidate =
     ''egressfox.artifact/v1'' @ write_uint8 (unat (profile_Engine (art_profile candidate)))
     @ write_string (profile_Version (art_profile candidate))
     @ write_string (profile_RendererSchema (art_profile candidate))
     @ write_string (profile_MediaType (art_profile candidate))
     @ art_content candidate"

definition generation :: "ArtifactCandidate \<Rightarrow> bytes" where
  "generation candidate = sha256 (generation_input candidate)"

record Validated =
  val_candidate :: ArtifactCandidate
  val_generation :: bytes
  val_evidence :: string

text \<open>A checker returns an error or the identifier of the validator; a nil one is \<^term>\<open>None\<close>.\<close>

type_synonym Checker = "ArtifactCandidate \<Rightarrow> string + string"

definition Validate :: "ArtifactCandidate \<Rightarrow> Checker option \<Rightarrow> string + Validated" where
  "Validate candidate checker =
     (case checker of
        None \<Rightarrow> Inl ''artifact validation requires a checker''
      | Some check \<Rightarrow>
          and_then (check candidate) (\<lambda>evidence.
            if \<not> safeValidatorID evidence then Inl ''artifact checker returned invalid evidence''
            else Inr \<lparr>val_candidate = candidate, val_generation = generation candidate, val_evidence = evidence\<rparr>))"

definition Validated_Equal :: "Validated \<Rightarrow> Validated \<Rightarrow> bool" where
  "Validated_Equal a other \<longleftrightarrow>
     art_profile (val_candidate a) = art_profile (val_candidate other) \<and> val_generation a = val_generation other"

section \<open>The generation identifies the artifact\<close>

lemma unat_u8: "unat (w :: u8) < 256"
  using unsigned_less [of w, where ?'a = nat] by simp

definition Profile_short :: "Profile \<Rightarrow> bool" where
  "Profile_short p \<longleftrightarrow> short (profile_Version p) \<and> short (profile_RendererSchema p) \<and> short (profile_MediaType p)"

lemma generation_input_inj:
  assumes "Profile_short (art_profile c)" "Profile_short (art_profile d)" "generation_input c = generation_input d"
  shows "c = d"
proof -
  have "unat (profile_Engine (art_profile c)) < 256" "unat (profile_Engine (art_profile d)) < 256"
    by (rule unat_u8)+
  then show ?thesis
    using assms unfolding generation_input_def Profile_short_def
    by (intro ArtifactCandidate.equality Profile.equality) (simp_all add: word_unat_eq_iff)
qed

text \<open>
  C27. A validated artifact is exactly the content its checker accepted: validation succeeds only
  when the checker returned a well-formed validator identifier for that candidate, and without
  a SHA-256 collision two validated artifacts are equal only if their profile and content are.
\<close>

theorem Validate_binds_content:
  assumes "Validate c (Some check) = Inr v" "Validate d (Some check') = Inr w"
    and "Profile_short (art_profile c)" "Profile_short (art_profile d)"
  shows "check c = Inr (val_evidence v) \<and> safeValidatorID (val_evidence v) \<and> val_candidate v = c
    \<and> (Validated_Equal v w \<and> \<not> sha256_collision (generation_input c) (generation_input d) \<longleftrightarrow> c = d)"
proof -
  have v: "check c = Inr (val_evidence v)" "safeValidatorID (val_evidence v)" "val_candidate v = c" "val_generation v = generation c"
    and w: "val_candidate w = d" "val_generation w = generation d"
    using assms(1,2) by (auto simp: Validate_def and_then_Inr_iff split: if_splits)
  have "generation_input c = generation_input d \<longleftrightarrow> c = d"
    using generation_input_inj [OF assms(3,4)] by blast
  then show ?thesis using v w by (auto simp: Validated_Equal_def sha256_collision_def generation_def)
qed

theorem Validate_binds_content_witness:
  "\<exists>v. Validate \<lparr>art_profile = Mihomo11931, art_content = ''proxies: []''\<rparr> (Some (\<lambda>_. Inr ''mihomo/1.19.31'')) = Inr v
     \<and> val_candidate v = \<lparr>art_profile = Mihomo11931, art_content = ''proxies: []''\<rparr>
     \<and> (Validated_Equal v v \<and> \<not> sha256_collision (generation_input (val_candidate v)) (generation_input (val_candidate v)))"
proof -
  let ?c = "\<lparr>art_profile = Mihomo11931, art_content = ''proxies: []''\<rparr>"
  have "safeValidatorID ''mihomo/1.19.31''" by code_simp
  then obtain v where v: "Validate ?c (Some (\<lambda>_. Inr ''mihomo/1.19.31'')) = Inr v"
    by (auto simp: Validate_def and_then_def)
  have "Profile_short (art_profile ?c)" by (simp add: Profile_short_def short_def Mihomo11931_def)
  from Validate_binds_content [OF v v this this] v show ?thesis by auto
qed

end
