(* ===== verification/Observation.thy ===== *)
theory Observation
  imports Artifact Float64
begin

text \<open>
  \<^verbatim>\<open>internal/observation\<close>: identifiers, target and connection references, evidence keys,
  observations with their sample digest, and the summary of a window of observations. URL
  parsing of a probe target is not modelled; the target digest and the host check are. The
  lemmas show that an observation is within its bounds, and that a summary is a function of the
  observations in the window, with the counts, streaks and the mean it is meant to have.
\<close>

section \<open>Targets\<close>

definition DefaultMaxResponseBytes :: int where "DefaultMaxResponseBytes = 4096"
definition MaxResponseBytes :: int where "MaxResponseBytes = 1048576"

definition safeID :: "string \<Rightarrow> bool" where
  "safeID value =
     (if length value = 0 \<or> length value > 128 then False else list_all safe_name_char value)"

definition NewTargetID :: "string \<Rightarrow> string + string" where
  "NewTargetID value = (if \<not> safeID value then Inl ''invalid probe target identifier'' else Inr value)"

definition NewVantageID :: "string \<Rightarrow> string + string" where
  "NewVantageID value = (if \<not> safeID value then Inl ''invalid probe vantage identifier'' else Inr value)"

type_synonym TargetRevision = "bytes option"

definition restoreTargetRevision :: "bytes \<Rightarrow> string + TargetRevision" where
  "restoreTargetRevision encoded =
     (if length encoded \<noteq> 32 then Inl ''target revision must contain 32 protected bytes'' else Inr (Some encoded))"

definition TargetRevision_Equal :: "TargetRevision \<Rightarrow> TargetRevision \<Rightarrow> bool" where
  "TargetRevision_Equal r other \<longleftrightarrow> r \<noteq> None \<and> other \<noteq> None \<and> r = other"

definition TargetRevision_Reveal :: "TargetRevision \<Rightarrow> string + bytes" where
  "TargetRevision_Reveal r = (case r of None \<Rightarrow> Inl ''invalid target revision'' | Some v \<Rightarrow> Inr v)"

definition target_digest_input :: "string \<Rightarrow> int \<Rightarrow> duration \<Rightarrow> int \<Rightarrow> string \<Rightarrow> bytes" where
  "target_digest_input canonicalURL expectedStatus timeout maxBytes salt =
     ''egressfox.target/http-get/v1'' @ write_string canonicalURL
     @ put_uint64 (to_uint64 expectedStatus) @ put_uint64 (to_uint64 timeout) @ put_uint64 (to_uint64 maxBytes)
     @ (if salt \<noteq> [] then write_string salt else [])"

definition targetDigest :: "string \<Rightarrow> int \<Rightarrow> duration \<Rightarrow> int \<Rightarrow> string \<Rightarrow> bytes" where
  "targetDigest canonicalURL expectedStatus timeout maxBytes salt =
     sha256 (target_digest_input canonicalURL expectedStatus timeout maxBytes salt)"

definition hostname_label :: "string \<Rightarrow> bool" where
  "hostname_label label \<longleftrightarrow> \<not> (length label = 0 \<or> length label > 63 \<or> hd label = CHR ''-'' \<or> last label = CHR ''-'')
     \<and> list_all (\<lambda>c. is_lower c \<or> is_digit c \<or> c = CHR ''-'') label"

definition validHostname :: "string \<Rightarrow> bool" where
  "validHostname host =
     (case ParseAddr host of
        Some address \<Rightarrow> addr_Zone address = []
      | None \<Rightarrow>
          if length host = 0 \<or> length host > 253 then False
          else list_all hostname_label (split_on CHR ''.'' host))"

section \<open>References and keys\<close>

type_synonym Kind = u8

definition KindHTTPGet :: Kind where "KindHTTPGet = 1"

definition Kind_String :: "Kind \<Rightarrow> string" where
  "Kind_String k = (if k = KindHTTPGet then ''http_get'' else ''unknown'')"

type_synonym Outcome = u8

definition OutcomeSuccess :: Outcome where "OutcomeSuccess = 1"
definition OutcomeTimeout :: Outcome where "OutcomeTimeout = 2"
definition OutcomeConnectionFailure :: Outcome where "OutcomeConnectionFailure = 3"
definition OutcomeTLSFailure :: Outcome where "OutcomeTLSFailure = 4"
definition OutcomeUnexpectedResponse :: Outcome where "OutcomeUnexpectedResponse = 5"
definition OutcomeResponseTooLarge :: Outcome where "OutcomeResponseTooLarge = 6"

lemmas outcome_defs = OutcomeSuccess_def OutcomeTimeout_def OutcomeConnectionFailure_def OutcomeTLSFailure_def
  OutcomeUnexpectedResponse_def OutcomeResponseTooLarge_def

definition Outcome_String :: "Outcome \<Rightarrow> string" where
  "Outcome_String v =
     (if v = OutcomeSuccess then ''success'' else if v = OutcomeTimeout then ''timeout''
      else if v = OutcomeConnectionFailure then ''connection_failure'' else if v = OutcomeTLSFailure then ''tls_failure''
      else if v = OutcomeUnexpectedResponse then ''unexpected_response''
      else if v = OutcomeResponseTooLarge then ''response_too_large'' else ''unknown'')"

record ConnectionRef =
  cref_id :: ID
  cref_revision :: Revision

definition NewConnectionRef :: "Identity \<Rightarrow> string + ConnectionRef" where
  "NewConnectionRef identity =
     (if \<not> is_ok (RevealForPersistence (id_revision identity))
         \<or> ID_String (id_value identity) = ''<invalid-endpoint-id>''
      then Inl ''invalid observation connection reference''
      else Inr \<lparr>cref_id = id_value identity, cref_revision = id_revision identity\<rparr>)"

definition RestoreConnectionRef :: "ID \<Rightarrow> Revision \<Rightarrow> string + ConnectionRef" where
  "RestoreConnectionRef i revision =
     (if \<not> is_ok (RevealForPersistence revision) \<or> ID_String i = ''<invalid-endpoint-id>''
      then Inl ''invalid persisted connection reference''
      else Inr \<lparr>cref_id = i, cref_revision = revision\<rparr>)"

definition ConnectionRef_Equal :: "ConnectionRef \<Rightarrow> ConnectionRef \<Rightarrow> bool" where
  "ConnectionRef_Equal r other \<longleftrightarrow>
     cref_id r = cref_id other \<and> Revision_Equal (cref_revision r) (cref_revision other)"

record TargetRef =
  tref_id :: string
  tref_revision :: TargetRevision

definition RestoreTargetRef :: "string \<Rightarrow> bytes \<Rightarrow> string + TargetRef" where
  "RestoreTargetRef i encodedRevision =
     (case restoreTargetRevision encodedRevision of
        Inl _ \<Rightarrow> Inl ''invalid persisted target reference''
      | Inr revision \<Rightarrow>
          if i = [] then Inl ''invalid persisted target reference''
          else Inr \<lparr>tref_id = i, tref_revision = revision\<rparr>)"

definition TargetRef_Equal :: "TargetRef \<Rightarrow> TargetRef \<Rightarrow> bool" where
  "TargetRef_Equal r other \<longleftrightarrow>
     tref_id r = tref_id other \<and> TargetRevision_Equal (tref_revision r) (tref_revision other)"

record Key =
  key_connection :: ConnectionRef
  key_target :: TargetRef
  key_vantage :: string
  key_kind :: Kind
  key_profile :: Profile

definition supportedProfile :: "Profile \<Rightarrow> bool" where
  "supportedProfile profile \<longleftrightarrow> profile = Mihomo11931 \<or> profile = SingBox1141"

definition NewKey :: "ConnectionRef \<Rightarrow> TargetRef \<Rightarrow> string \<Rightarrow> Kind \<Rightarrow> Profile \<Rightarrow> string + Key" where
  "NewKey connection target vantage kind profile =
     (if ID_String (cref_id connection) = ''<invalid-endpoint-id>'' \<or> tref_id target = [] \<or> vantage = []
         \<or> kind \<noteq> KindHTTPGet \<or> \<not> supportedProfile profile
      then Inl ''invalid observation key''
      else Inr \<lparr>key_connection = connection, key_target = target, key_vantage = vantage, key_kind = kind,
                key_profile = profile\<rparr>)"

definition sameKey :: "Key \<Rightarrow> Key \<Rightarrow> bool" where
  "sameKey l r \<longleftrightarrow>
     cref_id (key_connection l) = cref_id (key_connection r)
     \<and> Revision_Equal (cref_revision (key_connection l)) (cref_revision (key_connection r))
     \<and> tref_id (key_target l) = tref_id (key_target r)
     \<and> TargetRevision_Equal (tref_revision (key_target l)) (tref_revision (key_target r))
     \<and> key_vantage l = key_vantage r \<and> key_kind l = key_kind r \<and> key_profile l = key_profile r"

section \<open>Observations\<close>

record Params =
  par_Key :: Key
  par_StartedAt :: instant
  par_CompletedAt :: instant
  par_Duration :: duration
  par_Outcome :: Outcome
  par_StatusCode :: int

record Observation =
  obs_key :: Key
  obs_startedAt :: instant
  obs_completedAt :: instant
  obs_duration :: duration
  obs_outcome :: Outcome
  obs_statusCode :: int
  obs_sampleID :: bytes

text \<open>The bytes hashed into the sample identifier; a nil revision contributes nothing.\<close>

definition revealed :: "bytes option \<Rightarrow> bytes" where
  "revealed r = (case r of None \<Rightarrow> [] | Some v \<Rightarrow> v)"

definition observation_digest_input :: "Observation \<Rightarrow> bytes" where
  "observation_digest_input v =
     (let key = obs_key v
      in ''egressfox.observation/v1''
         @ write_string (ID_String (cref_id (key_connection key))) @ revealed (cref_revision (key_connection key))
         @ write_string (tref_id (key_target key)) @ revealed (tref_revision (key_target key))
         @ write_string (key_vantage key)
         @ [byte (unat (key_kind key)), byte (unat (profile_Engine (key_profile key))), byte (unat (obs_outcome v))]
         @ write_string (profile_Version (key_profile key)) @ write_string (profile_RendererSchema (key_profile key))
         @ put_uint64 (to_uint64 (time_UnixNano (obs_startedAt v)))
         @ put_uint64 (to_uint64 (time_UnixNano (obs_completedAt v)))
         @ put_uint64 (to_uint64 (obs_duration v))
         @ put_uint64 (to_uint64 (obs_statusCode v)))"

definition observationDigest :: "Observation \<Rightarrow> bytes" where
  "observationDigest v = sha256 (observation_digest_input v)"

definition NewObservation :: "Params \<Rightarrow> string + Observation" where
  "NewObservation params =
     and_then (NewKey (key_connection (par_Key params)) (key_target (par_Key params)) (key_vantage (par_Key params))
         (key_kind (par_Key params)) (key_profile (par_Key params))) (\<lambda>_.
       let started = par_StartedAt params; completed = par_CompletedAt params
       in if time_IsZero started \<or> time_IsZero completed \<or> completed < started \<or> par_Duration params < 0
             \<or> par_Duration params > 2 * minute
          then Inl ''invalid observation timing''
          else if par_Outcome params < OutcomeSuccess \<or> par_Outcome params > OutcomeResponseTooLarge
          then Inl ''invalid observation outcome''
          else if (par_Outcome params = OutcomeSuccess \<or> par_Outcome params = OutcomeUnexpectedResponse)
              \<and> (par_StatusCode params < 100 \<or> par_StatusCode params > 599)
          then Inl ''invalid observation HTTP status''
          else if \<not> (par_Outcome params = OutcomeSuccess \<or> par_Outcome params = OutcomeUnexpectedResponse)
              \<and> par_StatusCode params \<noteq> 0
          then Inl ''HTTP status is not valid for this observation outcome''
          else
            let value = \<lparr>obs_key = par_Key params, obs_startedAt = started, obs_completedAt = completed,
                  obs_duration = par_Duration params, obs_outcome = par_Outcome params,
                  obs_statusCode = par_StatusCode params, obs_sampleID = []\<rparr>
            in Inr (value\<lparr>obs_sampleID := observationDigest value\<rparr>))"

definition Successful :: "Observation \<Rightarrow> bool" where
  "Successful v \<longleftrightarrow> obs_outcome v = OutcomeSuccess"

section \<open>Summaries\<close>

record Summary =
  sum_Key :: Key
  sum_Samples :: int
  sum_Successes :: int
  sum_SuccessRatio :: rat
  sum_Latest :: "Observation option"
  sum_LatestSuccess :: "Observation option"
  sum_MeanSuccessDuration :: duration
  sum_ConsecutiveSuccesses :: int
  sum_ConsecutiveFailures :: int
  sum_Fresh :: bool

definition sample_less :: "Observation \<Rightarrow> Observation \<Rightarrow> bool" where
  "sample_less l r =
     (if obs_completedAt l \<noteq> obs_completedAt r then obs_completedAt l < obs_completedAt r
      else bytes_Compare (obs_sampleID l) (obs_sampleID r) < 0)"

text \<open>The first loop: successes, total duration and the latest success.\<close>

definition tally_step :: "int \<times> duration \<times> Observation option \<Rightarrow> Observation \<Rightarrow> int \<times> duration \<times> Observation option" where
  "tally_step acc v =
     (let (successes, sum_total, latest) = acc
      in if Successful v then (successes + 1, wrap64 (sum_total + obs_duration v), Some v) else acc)"

text \<open>The second loop runs backwards; its argument is the reversed list.\<close>

fun streaks :: "int \<Rightarrow> int \<Rightarrow> Observation list \<Rightarrow> int \<times> int" where
  "streaks s f [] = (s, f)"
| "streaks s f (v # rest) =
     (if Successful v then (if f > 0 then (s, f) else streaks (s + 1) f rest)
      else (if s > 0 then (s, f) else streaks s (f + 1) rest))"

definition in_window :: "instant \<Rightarrow> duration \<Rightarrow> Observation \<Rightarrow> bool" where
  "in_window now window v \<longleftrightarrow> \<not> (obs_completedAt v < time_Add now (- window) \<or> obs_completedAt v > now)"

definition summary_of :: "Key \<Rightarrow> Observation list \<Rightarrow> instant \<Rightarrow> duration \<Rightarrow> Summary" where
  "summary_of key filtered now freshness =
     (let samples = int (length filtered);
          (successes, sum_total, latestSuccess) = foldl tally_step (0, 0, None) filtered;
          (cs, cf) = (if samples > 0 then streaks 0 0 (rev filtered) else (0, 0))
      in \<lparr>sum_Key = key, sum_Samples = samples, sum_Successes = successes,
          sum_SuccessRatio = (if samples > 0 then float_div (float_of_int successes) (float_of_int samples) else 0),
          sum_Latest = (if samples > 0 then Some (last filtered) else None),
          sum_LatestSuccess = latestSuccess,
          sum_MeanSuccessDuration = (if successes > 0 then sum_total sdiv successes else 0),
          sum_ConsecutiveSuccesses = cs, sum_ConsecutiveFailures = cf,
          sum_Fresh = (if samples > 0 then time_Sub now (obs_completedAt (last filtered)) \<le> freshness else False)\<rparr>)"

definition Summarize ::
  "Key \<Rightarrow> Observation list \<Rightarrow> instant \<Rightarrow> duration \<Rightarrow> duration \<Rightarrow> string + Summary" where
  "Summarize key values now window freshness =
     and_then (NewKey (key_connection key) (key_target key) (key_vantage key) (key_kind key) (key_profile key)) (\<lambda>_.
       if time_IsZero now \<or> window \<le> 0 \<or> freshness \<le> 0
       then Inl ''summary requires explicit positive time bounds''
       else if \<not> list_all (\<lambda>v. sameKey key (obs_key v)) values
       then Inl ''summary input contains a different evidence key''
       else Inr (summary_of key (sort_by sample_less (filter (in_window now window) values)) now freshness))"
section \<open>Observations are within their bounds\<close>

definition Key_ok :: "Key \<Rightarrow> bool" where
  "Key_ok key \<longleftrightarrow> is_ok (NewKey (key_connection key) (key_target key) (key_vantage key) (key_kind key) (key_profile key))"

lemma NewKey_Inr_iff:
  "NewKey c t v k p = Inr key \<longleftrightarrow>
     ID_String (cref_id c) \<noteq> ''<invalid-endpoint-id>'' \<and> tref_id t \<noteq> [] \<and> v \<noteq> [] \<and> k = KindHTTPGet
     \<and> supportedProfile p
     \<and> key = \<lparr>key_connection = c, key_target = t, key_vantage = v, key_kind = k, key_profile = p\<rparr>"
  by (auto simp: NewKey_def)

lemma Key_ok_iff:
  "Key_ok key \<longleftrightarrow> ID_String (cref_id (key_connection key)) \<noteq> ''<invalid-endpoint-id>'' \<and> tref_id (key_target key) \<noteq> []
     \<and> key_vantage key \<noteq> [] \<and> key_kind key = KindHTTPGet \<and> supportedProfile (key_profile key)"
  by (auto simp: Key_ok_def NewKey_def)

definition carries_status :: "Outcome \<Rightarrow> bool" where
  "carries_status out \<longleftrightarrow> out = OutcomeSuccess \<or> out = OutcomeUnexpectedResponse"

definition Observation_wf :: "Observation \<Rightarrow> bool" where
  "Observation_wf v \<longleftrightarrow>
     Key_ok (obs_key v) \<and> obs_startedAt v \<noteq> 0 \<and> obs_completedAt v \<noteq> 0 \<and> obs_startedAt v \<le> obs_completedAt v
     \<and> 0 \<le> obs_duration v \<and> obs_duration v \<le> 2 * minute
     \<and> OutcomeSuccess \<le> obs_outcome v \<and> obs_outcome v \<le> OutcomeResponseTooLarge
     \<and> (if carries_status (obs_outcome v) then 100 \<le> obs_statusCode v \<and> obs_statusCode v \<le> 599 else obs_statusCode v = 0)
     \<and> obs_sampleID v = observationDigest v"

lemma observationDigest_sampleID [simp]: "observationDigest (v\<lparr>obs_sampleID := s\<rparr>) = observationDigest v"
  by (simp add: observationDigest_def observation_digest_input_def)

definition params_of :: "Observation \<Rightarrow> Params" where
  "params_of v = \<lparr>par_Key = obs_key v, par_StartedAt = obs_startedAt v, par_CompletedAt = obs_completedAt v,
     par_Duration = obs_duration v, par_Outcome = obs_outcome v, par_StatusCode = obs_statusCode v\<rparr>"

lemma NewObservation_cases:
  "NewObservation p = Inr v \<longleftrightarrow>
     Key_ok (par_Key p) \<and> par_StartedAt p \<noteq> 0 \<and> par_CompletedAt p \<noteq> 0 \<and> par_StartedAt p \<le> par_CompletedAt p
     \<and> 0 \<le> par_Duration p \<and> par_Duration p \<le> 2 * minute
     \<and> OutcomeSuccess \<le> par_Outcome p \<and> par_Outcome p \<le> OutcomeResponseTooLarge
     \<and> (if carries_status (par_Outcome p) then 100 \<le> par_StatusCode p \<and> par_StatusCode p \<le> 599 else par_StatusCode p = 0)
     \<and> p = params_of v \<and> obs_sampleID v = observationDigest v"
proof -
  let ?v = "\<lparr>obs_key = par_Key p, obs_startedAt = par_StartedAt p, obs_completedAt = par_CompletedAt p,
    obs_duration = par_Duration p, obs_outcome = par_Outcome p, obs_statusCode = par_StatusCode p, obs_sampleID = []\<rparr>"
  have "v = ?v\<lparr>obs_sampleID := observationDigest ?v\<rparr> \<longleftrightarrow> p = params_of v \<and> obs_sampleID v = observationDigest v"
    by (cases v; cases p) (auto simp: params_of_def observationDigest_def observation_digest_input_def)
  then show ?thesis
    unfolding NewObservation_def and_then_Inr_iff Let_def if_Inl_Inr_iff time_IsZero_def carries_status_def
      Key_ok_def is_ok_iff
    by (auto simp: not_less)
qed

lemma NewObservation_iff: "NewObservation p = Inr v \<longleftrightarrow> Observation_wf v \<and> p = params_of v"
  unfolding NewObservation_cases Observation_wf_def by (auto simp: params_of_def)

section \<open>The sample identifier\<close>

text \<open>Keys built from stored references: protected revisions of 32 bytes, and strings under 4 GiB.\<close>

definition Key_stored :: "Key \<Rightarrow> bool" where
  "Key_stored key \<longleftrightarrow>
     short (cref_id (key_connection key)) \<and> short (tref_id (key_target key)) \<and> short (key_vantage key)
     \<and> (\<exists>r. cref_revision (key_connection key) = Some r \<and> length r = 32)
     \<and> (\<exists>r. tref_revision (key_target key) = Some r \<and> length r = 32)"

definition nano_range :: "Observation \<Rightarrow> bool" where
  "nano_range v \<longleftrightarrow> in_int64 (obs_startedAt v - unix_epoch) \<and> in_int64 (obs_completedAt v - unix_epoch)"

lemma supportedProfile_engine:
  "supportedProfile p \<Longrightarrow> supportedProfile q \<Longrightarrow> profile_Engine p = profile_Engine q \<Longrightarrow> p = q"
  by (auto simp: supportedProfile_def Mihomo11931_def SingBox1141_def EngineMihomo_def EngineSingBox_def)

lemma put_uint64_time_inj:
  "in_int64 (s - unix_epoch) \<Longrightarrow> in_int64 (t - unix_epoch) \<Longrightarrow>
   put_uint64 (to_uint64 (time_UnixNano s)) = put_uint64 (to_uint64 (time_UnixNano t)) \<longleftrightarrow> s = t"
  by (auto dest!: u64.inj [rotated 2] to_uint64_inj [rotated 2] simp: to_uint64_less [simplified] time_UnixNano_def wrap64_id)

lemma put_uint64_int_inj:
  "in_int64 s \<Longrightarrow> in_int64 t \<Longrightarrow> put_uint64 (to_uint64 s) = put_uint64 (to_uint64 t) \<longleftrightarrow> s = t"
  by (auto dest!: u64.inj [rotated 2] to_uint64_inj [rotated 2] simp: to_uint64_less [simplified])
lemma observation_digest_input_inj:
  assumes v: "Observation_wf v" "Key_stored (obs_key v)" "nano_range v" "in_int64 (obs_statusCode v)"
    and w: "Observation_wf w" "Key_stored (obs_key w)" "nano_range w" "in_int64 (obs_statusCode w)"
    and eq: "observation_digest_input v = observation_digest_input w"
  shows "v = w"
proof -
  obtain rv tv rw tw where r: "cref_revision (key_connection (obs_key v)) = Some rv" "length rv = 32"
    "tref_revision (key_target (obs_key v)) = Some tv" "length tv = 32"
    "cref_revision (key_connection (obs_key w)) = Some rw" "length rw = 32"
    "tref_revision (key_target (obs_key w)) = Some tw" "length tw = 32"
    using v(2) w(2) unfolding Key_stored_def by blast
  have kv: "Key_ok (obs_key v)" "Key_ok (obs_key w)" using v(1) w(1) by (simp_all add: Observation_wf_def)
  then have ids: "cref_id (key_connection (obs_key v)) \<noteq> []" "cref_id (key_connection (obs_key w)) \<noteq> []"
    by (auto simp: Key_ok_iff ID_String_def)
  have kinds: "key_kind (obs_key v) = key_kind (obs_key w)" using kv by (simp add: Key_ok_iff)
  have short_all: "length (cref_id (key_connection (obs_key v))) < 256 ^ 4" "length (cref_id (key_connection (obs_key w))) < 256 ^ 4"
    "length (tref_id (key_target (obs_key v))) < 256 ^ 4" "length (tref_id (key_target (obs_key w))) < 256 ^ 4"
    "length (key_vantage (obs_key v)) < 256 ^ 4" "length (key_vantage (obs_key w)) < 256 ^ 4"
    using v(2) w(2) by (simp_all add: Key_stored_def short_def)
  have durations: "in_int64 (obs_duration v)" "in_int64 (obs_duration w)"
    using v(1) w(1) by (simp_all add: Observation_wf_def in_int64_def min_int64_def max_int64_def minute_def)
  from eq have 1: "cref_id (key_connection (obs_key v)) = cref_id (key_connection (obs_key w))" "rv = rw"
    "tref_id (key_target (obs_key v)) = tref_id (key_target (obs_key w))" "tv = tw"
    "key_vantage (obs_key v) = key_vantage (obs_key w)"
    and rest: "byte (unat (profile_Engine (key_profile (obs_key v)))) = byte (unat (profile_Engine (key_profile (obs_key w))))"
    "byte (unat (obs_outcome v)) = byte (unat (obs_outcome w))"
    "write_string (profile_Version (key_profile (obs_key v))) @ write_string (profile_RendererSchema (key_profile (obs_key v)))
         @ put_uint64 (to_uint64 (time_UnixNano (obs_startedAt v)))
         @ put_uint64 (to_uint64 (time_UnixNano (obs_completedAt v)))
         @ put_uint64 (to_uint64 (obs_duration v))
         @ put_uint64 (to_uint64 (obs_statusCode v)) =
     write_string (profile_Version (key_profile (obs_key w))) @ write_string (profile_RendererSchema (key_profile (obs_key w)))
         @ put_uint64 (to_uint64 (time_UnixNano (obs_startedAt w)))
         @ put_uint64 (to_uint64 (time_UnixNano (obs_completedAt w)))
         @ put_uint64 (to_uint64 (obs_duration w))
         @ put_uint64 (to_uint64 (obs_statusCode w))"
    using r short_all ids unfolding observation_digest_input_def Let_def
    by (simp_all add: revealed_def ID_String_def ws.cancel_iff)
  have "unat (profile_Engine (key_profile (obs_key v))) = unat (profile_Engine (key_profile (obs_key w)))"
    using rest(1) by (intro byte_inj unat_u8)
  then have profile: "key_profile (obs_key v) = key_profile (obs_key w)"
    using kv by (intro supportedProfile_engine) (simp_all add: Key_ok_iff word_unat_eq_iff)
  have "unat (obs_outcome v) = unat (obs_outcome w)"
    using rest(2) by (intro byte_inj unat_u8)
  then have outcome: "obs_outcome v = obs_outcome w" by (simp add: word_unat_eq_iff)
  have times: "obs_startedAt v = obs_startedAt w" "obs_completedAt v = obs_completedAt w" "obs_duration v = obs_duration w"
    "obs_statusCode v = obs_statusCode w"
    using rest(3) v(3,4) w(3,4) durations unfolding profile nano_range_def
    by (simp_all add: put_uint64_def put_uint64_time_inj [unfolded put_uint64_def] put_uint64_int_inj [unfolded put_uint64_def])
  have "obs_key v = obs_key w"
    using 1 r kinds profile by (intro Key.equality ConnectionRef.equality TargetRef.equality) simp_all
  moreover have "obs_sampleID v = obs_sampleID w"
    using v(1) w(1) eq by (simp add: Observation_wf_def observationDigest_def)
  ultimately show ?thesis using outcome times by (cases v; cases w) simp
qed

text \<open>
  C26. An observation is accepted exactly when its key, timing, outcome and status are within
  bounds, and its sample identifier names it: two accepted observations with the same sample
  identifier are the same observation, unless they exhibit a SHA-256 collision. Their keys hold
  revisions of 32 bytes and texts short enough for their length prefixes, and their times lie in
  the years that nanoseconds since 1970 can count.
\<close>

theorem sample_identifies_observation:
  assumes "NewObservation p = Inr v" "NewObservation q = Inr w"
    and "Key_stored (par_Key p)" "Key_stored (par_Key q)" "nano_range v" "nano_range w"
  shows "Observation_wf v \<and> p = params_of v
    \<and> (obs_sampleID v = obs_sampleID w \<and> \<not> sha256_collision (observation_digest_input v) (observation_digest_input w)
       \<longleftrightarrow> v = w)"
proof -
  have wf: "Observation_wf v" "Observation_wf w" and pq: "p = params_of v" "q = params_of w"
    using assms(1,2) by (simp_all add: NewObservation_iff)
  have status: "in_int64 (obs_statusCode v)" "in_int64 (obs_statusCode w)"
    using wf by (auto simp: Observation_wf_def in_int64_def min_int64_def max_int64_def split: if_splits)
  have ids: "obs_sampleID v = sha256 (observation_digest_input v)" "obs_sampleID w = sha256 (observation_digest_input w)"
    using wf by (simp_all add: Observation_wf_def observationDigest_def)
  have "observation_digest_input v = observation_digest_input w \<Longrightarrow> v = w"
    using assms(3-6) pq by (intro observation_digest_input_inj wf status) (simp_all add: params_of_def)
  then show ?thesis using wf pq ids by (auto simp: sha256_collision_def)
qed

definition sample_key :: Key where
  "sample_key = \<lparr>key_connection = \<lparr>cref_id = ''ef1_a'', cref_revision = Some (replicate 32 CHR ''r'')\<rparr>,
     key_target = \<lparr>tref_id = ''web'', tref_revision = Some (replicate 32 CHR ''t'')\<rparr>, key_vantage = ''lab'',
     key_kind = KindHTTPGet, key_profile = SingBox1141\<rparr>"

definition sample_params :: "instant \<Rightarrow> Outcome \<Rightarrow> Params" where
  "sample_params t out = \<lparr>par_Key = sample_key, par_StartedAt = unix_epoch + t, par_CompletedAt = unix_epoch + t + second,
     par_Duration = second, par_Outcome = out,
     par_StatusCode = (if carries_status out then 204 else 0)\<rparr>"

lemma sample_key_ok: "Key_ok sample_key" "Key_stored sample_key"
  by (simp_all add: Key_ok_iff sample_key_def ID_String_def supportedProfile_def Key_stored_def short_def)

definition sample_observation :: "instant \<Rightarrow> Outcome \<Rightarrow> Observation" where
  "sample_observation t out = \<lparr>obs_key = sample_key, obs_startedAt = unix_epoch + t, obs_completedAt = unix_epoch + t + second,
     obs_duration = second, obs_outcome = out, obs_statusCode = (if carries_status out then 204 else 0),
     obs_sampleID = observationDigest \<lparr>obs_key = sample_key, obs_startedAt = unix_epoch + t,
       obs_completedAt = unix_epoch + t + second, obs_duration = second, obs_outcome = out,
       obs_statusCode = (if carries_status out then 204 else 0), obs_sampleID = []\<rparr>\<rparr>"

lemma sample_observation_new:
  assumes "0 \<le> t" "out = OutcomeSuccess \<or> out = OutcomeTimeout"
  shows "NewObservation (sample_params t out) = Inr (sample_observation t out)"
proof -
  have [simp]: "Key_ok sample_key" by (rule sample_key_ok)
  have "OutcomeSuccess \<le> out" "out \<le> OutcomeResponseTooLarge" using assms(2) by (auto simp: outcome_defs)
  then show ?thesis using assms(1)
    unfolding NewObservation_cases
    by (auto simp: sample_params_def params_of_def sample_observation_def unix_epoch_def duration_defs
        observationDigest_def observation_digest_input_def)
qed

lemma sample_observation_range: "0 \<le> t \<Longrightarrow> t \<le> 10 ^ 12 \<Longrightarrow> nano_range (sample_observation t out)"
  by (simp add: nano_range_def sample_observation_def in_int64_def min_int64_def max_int64_def second_def)

theorem sample_identifies_observation_witness:
  "\<not> (obs_sampleID (sample_observation 0 OutcomeSuccess) = obs_sampleID (sample_observation second OutcomeTimeout)
   \<and> \<not> sha256_collision (observation_digest_input (sample_observation 0 OutcomeSuccess))
     (observation_digest_input (sample_observation second OutcomeTimeout)))"
proof -
  have "NewObservation (sample_params 0 OutcomeSuccess) = Inr (sample_observation 0 OutcomeSuccess)"
    "NewObservation (sample_params second OutcomeTimeout) = Inr (sample_observation second OutcomeTimeout)"
    by (simp_all add: sample_observation_new second_def)
  moreover have "Key_stored (par_Key (sample_params 0 OutcomeSuccess))" "Key_stored (par_Key (sample_params second OutcomeTimeout))"
    by (simp_all add: sample_params_def sample_key_ok)
  moreover have "nano_range (sample_observation 0 OutcomeSuccess)" "nano_range (sample_observation second OutcomeTimeout)"
    by (simp_all add: sample_observation_range second_def)
  ultimately have "obs_sampleID (sample_observation 0 OutcomeSuccess) = obs_sampleID (sample_observation second OutcomeTimeout)
      \<and> \<not> sha256_collision (observation_digest_input (sample_observation 0 OutcomeSuccess))
           (observation_digest_input (sample_observation second OutcomeTimeout))
      \<longleftrightarrow> sample_observation 0 OutcomeSuccess = sample_observation second OutcomeTimeout"
    using sample_identifies_observation by blast
  then show ?thesis by (auto simp: sample_observation_def second_def)
qed
section \<open>Summaries\<close>

lemma wrap64_add_left: "wrap64 (wrap64 a + b) = wrap64 (a + b)"
proof -
  have "(a + 2 ^ 63) mod 2 ^ 64 - 2 ^ 63 + b + 2 ^ 63 = (a + 2 ^ 63) mod 2 ^ 64 + b" for a b :: int by simp
  then have "wrap64 (wrap64 a + b) = ((a + 2 ^ 63) mod 2 ^ 64 + b) mod 2 ^ 64 - 2 ^ 63" unfolding wrap64_def by simp
  also have "\<dots> = (a + 2 ^ 63 + b) mod 2 ^ 64 - 2 ^ 63" by (simp only: mod_add_left_eq)
  also have "a + 2 ^ 63 + b = a + b + 2 ^ 63" by simp
  finally show ?thesis by (simp only: wrap64_def)
qed

lemma foldl_tally:
  "in_int64 t \<Longrightarrow> foldl tally_step (c, t, l) xs =
     (c + int (length (filter Successful xs)), wrap64 (t + sum_list (map obs_duration (filter Successful xs))),
      if filter Successful xs = [] then l else Some (last (filter Successful xs)))"
proof (induction xs arbitrary: c t l)
  case Nil
  then show ?case by (simp add: wrap64_id)
next
  case (Cons v xs)
  show ?case
  proof (cases "Successful v")
    case True
    have "foldl tally_step (c, t, l) (v # xs) = foldl tally_step (c + 1, wrap64 (t + obs_duration v), Some v) xs"
      using True by (simp add: tally_step_def)
    also have "\<dots> = (c + 1 + int (length (filter Successful xs)),
        wrap64 (wrap64 (t + obs_duration v) + sum_list (map obs_duration (filter Successful xs))),
        if filter Successful xs = [] then Some v else Some (last (filter Successful xs)))"
      by (rule Cons.IH) (rule wrap64_range)
    finally show ?thesis using True by (simp add: wrap64_add_left add.assoc)
  next
    case False
    then show ?thesis using Cons by (simp add: tally_step_def)
  qed
qed

lemma streaks_success: "0 < s \<Longrightarrow> streaks s 0 xs = (s + int (length (takeWhile Successful xs)), 0)"
  by (induction xs arbitrary: s) auto

lemma streaks_failure: "0 < f \<Longrightarrow> streaks 0 f xs = (0, f + int (length (takeWhile (\<lambda>v. \<not> Successful v) xs)))"
  by (induction xs arbitrary: f) auto

lemma streaks_exact:
  "streaks 0 0 xs = (int (length (takeWhile Successful xs)), int (length (takeWhile (\<lambda>v. \<not> Successful v) xs)))"
  by (cases xs) (simp_all add: streaks_success streaks_failure)

definition max_summary_samples :: nat where
  "max_summary_samples = 76000000"

lemma Observation_wf_duration: "Observation_wf v \<Longrightarrow> 0 \<le> obs_duration v" "Observation_wf v \<Longrightarrow> obs_duration v \<le> 2 * minute"
  by (simp_all add: Observation_wf_def)

lemma durations_sum_bounds:
  "\<forall>v\<in>set xs. Observation_wf v \<Longrightarrow>
     0 \<le> sum_list (map obs_duration xs) \<and> sum_list (map obs_duration xs) \<le> int (length xs) * (2 * minute)"
proof (induction xs)
  case (Cons v xs)
  then show ?case using Observation_wf_duration [of v] by (simp add: algebra_simps)
qed simp

lemma durations_in_int64:
  assumes "\<forall>v\<in>set xs. Observation_wf v" "length xs \<le> max_summary_samples"
  shows "in_int64 (sum_list (map obs_duration xs))"
proof -
  have "int (length xs) * (2 * minute) \<le> 76000000 * (2 * minute)"
    using assms(2) by (intro mult_right_mono) (simp_all add: max_summary_samples_def minute_def)
  then show ?thesis
    using durations_sum_bounds [OF assms(1)] by (simp add: in_int64_def min_int64_def max_int64_def minute_def)
qed

definition evidence_window :: "Observation list \<Rightarrow> instant \<Rightarrow> duration \<Rightarrow> Observation list" where
  "evidence_window values now window = sort_by sample_less (filter (in_window now window) values)"

lemma evidence_window_set: "set (evidence_window values now window) = {v \<in> set values. in_window now window v}"
  by (auto simp: evidence_window_def)

lemma length_evidence_window: "length (evidence_window values now window) \<le> length values"
  by (simp add: evidence_window_def)

interpretation sample_order: strict_weak sample_less "\<lambda>_. True"
  by unfold_locales (auto simp: sample_less_def bytes_Compare_simps split: if_splits)

lemma sample_sorted_times: "sorted (map obs_completedAt (sort_by sample_less vs))"
proof -
  have "sorted_wrt (\<lambda>a b. \<not> sample_less b a) (sort_by sample_less vs)"
    by (rule sample_order.sort_by_sorted) (simp add: list_all_iff)
  then have "sorted_wrt (\<lambda>a b. obs_completedAt a \<le> obs_completedAt b) (sort_by sample_less vs)"
    by (rule sorted_wrt_mono_rel [rotated]) (auto simp: sample_less_def split: if_splits)
  then show ?thesis by (simp add: sorted_map)
qed

text \<open>Observations with different sample identifiers are totally ordered.\<close>

lemma sample_total: "inj_on obs_sampleID A \<Longrightarrow> strict_total sample_less (\<lambda>v. v \<in> A)"
  by unfold_locales (auto simp: sample_less_def bytes_Compare_simps split: if_splits dest: inj_onD)

lemma Summarize_Inr_iff:
  "Summarize key values now window freshness = Inr s \<longleftrightarrow>
     Key_ok key \<and> now \<noteq> 0 \<and> 0 < window \<and> 0 < freshness \<and> (\<forall>v\<in>set values. sameKey key (obs_key v))
     \<and> s = summary_of key (evidence_window values now window) now freshness"
  by (auto simp: Summarize_def and_then_Inr_iff Key_ok_def is_ok_iff time_IsZero_def list_all_iff evidence_window_def
      split: if_splits)

lemma summary_of_exact:
  assumes "\<forall>v\<in>set filtered. Observation_wf v" "length filtered \<le> max_summary_samples"
  shows "summary_of key filtered now freshness =
    \<lparr>sum_Key = key, sum_Samples = int (length filtered), sum_Successes = int (length (filter Successful filtered)),
     sum_SuccessRatio = (if filtered = [] then 0
       else float_div (float_of_int (int (length (filter Successful filtered)))) (float_of_int (int (length filtered)))),
     sum_Latest = (if filtered = [] then None else Some (last filtered)),
     sum_LatestSuccess = (if filter Successful filtered = [] then None else Some (last (filter Successful filtered))),
     sum_MeanSuccessDuration = sum_list (map obs_duration (filter Successful filtered)) div int (length (filter Successful filtered)),
     sum_ConsecutiveSuccesses = int (length (takeWhile Successful (rev filtered))),
     sum_ConsecutiveFailures = int (length (takeWhile (\<lambda>v. \<not> Successful v) (rev filtered))),
     sum_Fresh = (filtered \<noteq> [] \<and> time_Sub now (obs_completedAt (last filtered)) \<le> freshness)\<rparr>"
proof -
  let ?S = "filter Successful filtered"
  have wf: "\<forall>v\<in>set ?S. Observation_wf v" using assms(1) by simp
  have "length ?S \<le> max_summary_samples" using assms(2) by (meson length_filter_le order_trans)
  then have total64: "wrap64 (sum_list (map obs_duration ?S)) = sum_list (map obs_duration ?S)"
    by (intro wrap64_id durations_in_int64 wf)
  have "foldl tally_step (0, 0, None) filtered =
      (int (length ?S), sum_list (map obs_duration ?S), if ?S = [] then None else Some (last ?S))"
    using foldl_tally [of 0 0 None filtered] total64 by (simp add: in_int64_def min_int64_def max_int64_def)
  moreover have "0 \<le> sum_list (map obs_duration ?S)" using durations_sum_bounds [OF wf] by simp
  ultimately show ?thesis
    unfolding summary_of_def by (cases "filtered = []") (auto simp: streaks_exact sdiv_nonneg Let_def)
qed

text \<open>
  C23. A summary is what its window of evidence says. The samples are the observations completed
  between the cutoff and now, in completion order; successes, latest sample, latest success,
  the two streaks and freshness are those of that list; the mean is the exact integer mean,
  because the total cannot overflow for up to 76 million samples.
\<close>

theorem Summarize_exact:
  assumes "Summarize key values now window freshness = Inr s"
    and "\<forall>v\<in>set values. Observation_wf v" "length values \<le> max_summary_samples"
  defines "W \<equiv> evidence_window values now window"
  shows "mset W = mset (filter (\<lambda>v. now - window \<le> obs_completedAt v \<and> obs_completedAt v \<le> now) values)
    \<and> sorted (map obs_completedAt W)
    \<and> s = \<lparr>sum_Key = key, sum_Samples = int (length W), sum_Successes = int (length (filter Successful W)),
       sum_SuccessRatio = (if W = [] then 0
         else float_div (float_of_int (int (length (filter Successful W)))) (float_of_int (int (length W)))),
       sum_Latest = (if W = [] then None else Some (last W)),
       sum_LatestSuccess = (if filter Successful W = [] then None else Some (last (filter Successful W))),
       sum_MeanSuccessDuration = sum_list (map obs_duration (filter Successful W)) div int (length (filter Successful W)),
       sum_ConsecutiveSuccesses = int (length (takeWhile Successful (rev W))),
       sum_ConsecutiveFailures = int (length (takeWhile (\<lambda>v. \<not> Successful v) (rev W))),
       sum_Fresh = (W \<noteq> [] \<and> time_Sub now (obs_completedAt (last W)) \<le> freshness)\<rparr>"
proof -
  have "in_window now window = (\<lambda>v. now - window \<le> obs_completedAt v \<and> obs_completedAt v \<le> now)"
    by (auto simp: in_window_def time_Add_def)
  then have "mset W = mset (filter (\<lambda>v. now - window \<le> obs_completedAt v \<and> obs_completedAt v \<le> now) values)"
    by (simp add: W_def evidence_window_def)
  moreover have "sorted (map obs_completedAt W)"
    unfolding W_def evidence_window_def by (rule sample_sorted_times)
  moreover have "\<forall>v\<in>set W. Observation_wf v" "length W \<le> max_summary_samples"
    using assms(2,3) length_evidence_window [of "values" now window] by (auto simp: W_def evidence_window_set)
  ultimately show ?thesis using assms(1) by (simp only: Summarize_Inr_iff W_def [symmetric] summary_of_exact)
qed

theorem Summarize_exact_witness:
  "\<exists>s. Summarize sample_key [sample_observation (2 * second) OutcomeSuccess, sample_observation 0 OutcomeTimeout]
       (unix_epoch + 10 * second) minute second = Inr s
     \<and> sum_Samples s = 2 \<and> sum_Successes s = 1 \<and> sum_MeanSuccessDuration s = second
     \<and> sum_ConsecutiveSuccesses s = 1 \<and> \<not> sum_Fresh s"
proof -
  let ?now = "unix_epoch + 10 * second"
  define a b where ab: "a = sample_observation (2 * second) OutcomeSuccess" "b = sample_observation 0 OutcomeTimeout"
  have keys: "Key_ok sample_key" "sameKey sample_key sample_key"
    by (rule sample_key_ok, simp add: sameKey_def Revision_Equal_def TargetRevision_Equal_def sample_key_def)
  have obs: "obs_key a = sample_key" "obs_key b = sample_key" "Successful a" "\<not> Successful b"
    "obs_completedAt a = unix_epoch + 3 * second" "obs_completedAt b = unix_epoch + second" "obs_duration a = second"
    by (simp_all add: ab sample_observation_def Successful_def outcome_defs)
  have wf: "\<forall>v\<in>set [a, b]. Observation_wf v"
    using sample_observation_new [of "2 * second" OutcomeSuccess] sample_observation_new [of 0 OutcomeTimeout]
    by (auto simp: ab NewObservation_iff second_def)
  have W: "evidence_window [a, b] ?now minute = [b, a]"
    by (simp add: evidence_window_def in_window_def obs time_Add_def sample_less_def duration_defs)
  obtain s where s: "Summarize sample_key [a, b] ?now minute second = Inr s"
    using keys obs by (auto simp: Summarize_Inr_iff duration_defs unix_epoch_def)
  from Summarize_exact [OF s wf] show ?thesis unfolding W ab [symmetric]
    using s obs by (simp add: max_summary_samples_def time_Sub_def duration_defs max_int64_def min_int64_def)
qed
lemma ratio_bounds:
  assumes "0 \<le> (k::int)" "k \<le> n" "0 < n" "n < 2 ^ 53"
  shows "0 \<le> float_div (float_of_int k) (float_of_int n)" "float_div (float_of_int k) (float_of_int n) \<le> 1"
proof -
  have f: "float_of_int k = of_int k" "float_of_int n = of_int n"
    using assms by (simp_all add: float_of_int_small)
  have q: "0 \<le> (of_int k :: rat) / of_int n" "(of_int k :: rat) / of_int n \<le> 1"
    using assms by (simp_all add: divide_le_eq)
  have "round64 1 = 1" using round64_of_nat [of 1] by simp
  then show "0 \<le> float_div (float_of_int k) (float_of_int n)" "float_div (float_of_int k) (float_of_int n) \<le> 1"
    using round64_mono [OF q] round64_nonneg [OF q(1)] unfolding float_div_def f by simp_all
qed

lemma takeWhile_streaks:
  "xs \<noteq> [] \<Longrightarrow> (takeWhile P xs = []) \<noteq> (takeWhile (\<lambda>v. \<not> P v) xs = [])"
  by (cases xs) auto

lemma length_takeWhile_filter: "length (takeWhile P (rev xs)) \<le> length (filter P xs)"
proof -
  have "length (takeWhile P ys) \<le> length (filter P ys)" for ys by (induction ys) auto
  from this [of "rev xs"] show ?thesis by (simp add: rev_filter [symmetric])
qed

text \<open>The bounds every summary respects.\<close>

definition Summary_wf :: "Summary \<Rightarrow> bool" where
  "Summary_wf s \<longleftrightarrow>
     0 \<le> sum_ConsecutiveSuccesses s \<and> sum_ConsecutiveSuccesses s \<le> sum_Successes s \<and> sum_Successes s \<le> sum_Samples s
     \<and> 0 \<le> sum_ConsecutiveFailures s \<and> sum_ConsecutiveFailures s \<le> sum_Samples s - sum_Successes s
     \<and> (sum_Samples s > 0 \<longrightarrow> (sum_ConsecutiveSuccesses s = 0) \<noteq> (sum_ConsecutiveFailures s = 0))
     \<and> 0 \<le> sum_SuccessRatio s \<and> sum_SuccessRatio s \<le> 1
     \<and> 0 \<le> sum_MeanSuccessDuration s \<and> sum_MeanSuccessDuration s \<le> 2 * minute
     \<and> (sum_Samples s = 0 \<longleftrightarrow> sum_Latest s = None) \<and> (sum_Successes s = 0 \<longleftrightarrow> sum_LatestSuccess s = None)
     \<and> (sum_Fresh s \<longrightarrow> sum_Samples s > 0)"

lemma mean_bounds:
  assumes "0 \<le> (t::int)" "t \<le> n * m" "0 \<le> n" "0 \<le> m"
  shows "0 \<le> t div n \<and> t div n \<le> m"
proof (cases "n = 0")
  case False
  then have "t div n \<le> n * m div n" using assms by (intro zdiv_mono1) simp_all
  with False assms show ?thesis by (simp add: pos_imp_zdiv_nonneg_iff)
qed (use assms in simp)

lemma summary_of_wf:
  assumes "\<forall>v\<in>set filtered. Observation_wf v" "length filtered \<le> max_summary_samples"
  shows "Summary_wf (summary_of key filtered now freshness)"
proof -
  let ?S = "filter Successful filtered"
  have wf: "\<forall>v\<in>set ?S. Observation_wf v" using assms(1) by simp
  have n: "int (length ?S) \<le> int (length filtered)" "int (length filtered) < 2 ^ 53"
    using assms(2) by (simp_all add: max_summary_samples_def)
  have mean: "0 \<le> sum_list (map obs_duration ?S) div int (length ?S)
      \<and> sum_list (map obs_duration ?S) div int (length ?S) \<le> 2 * minute"
    using durations_sum_bounds [OF wf] by (intro mean_bounds) (simp_all add: minute_def)
  have split_count: "length filtered = length ?S + length (filter (\<lambda>v. \<not> Successful v) filtered)"
    by (rule sum_length_filter_compl [symmetric])
  have "length (takeWhile (\<lambda>v. \<not> Successful v) (rev filtered)) \<le> length (filter (\<lambda>v. \<not> Successful v) filtered)"
    by (rule length_takeWhile_filter)
  with split_count have fails: "int (length (takeWhile (\<lambda>v. \<not> Successful v) (rev filtered))) \<le> int (length filtered) - int (length ?S)"
    by linarith
  show ?thesis
    unfolding summary_of_exact [OF assms] Summary_wf_def
    using mean fails n length_takeWhile_filter [of Successful filtered] takeWhile_streaks [of "rev filtered" Successful]
      ratio_bounds [of "int (length ?S)" "int (length filtered)"]
    by simp
qed

text \<open>
  C24. Every summary is within its bounds: the streaks never exceed the matching counts and
  exactly one of them runs when there is evidence, the ratio lies in the unit interval, the
  mean success duration is at most two minutes, and an empty window is never fresh.
\<close>

theorem Summarize_bounds:
  assumes "Summarize key values now window freshness = Inr s"
    and "\<forall>v\<in>set values. Observation_wf v" "length values \<le> max_summary_samples"
  shows "Summary_wf s"
proof -
  let ?W = "evidence_window values now window"
  have "\<forall>v\<in>set ?W. Observation_wf v" "length ?W \<le> max_summary_samples"
    using assms(2,3) length_evidence_window [of "values" now window] by (auto simp: evidence_window_set)
  then show ?thesis using assms(1) by (simp add: Summarize_Inr_iff summary_of_wf)
qed

lemma sample_keys: "Key_ok sample_key" "sameKey sample_key sample_key"
  by (rule sample_key_ok, simp add: sameKey_def Revision_Equal_def TargetRevision_Equal_def sample_key_def)

lemma sample_observation_key [simp]: "obs_key (sample_observation t out) = sample_key"
  by (simp add: sample_observation_def)

lemma sample_observation_wf:
  "0 \<le> t \<Longrightarrow> out = OutcomeSuccess \<or> out = OutcomeTimeout \<Longrightarrow> Observation_wf (sample_observation t out)"
  using sample_observation_new by (simp add: NewObservation_iff)

lemma sample_summary:
  "\<exists>s. Summarize sample_key [sample_observation 0 OutcomeSuccess, sample_observation 5 OutcomeTimeout]
     (unix_epoch + minute) minute second = Inr s"
  by (simp add: Summarize_Inr_iff sample_keys duration_defs unix_epoch_def)

theorem Summarize_bounds_witness:
  "\<exists>s. Summarize sample_key [sample_observation 0 OutcomeSuccess, sample_observation 5 OutcomeTimeout]
     (unix_epoch + minute) minute second = Inr s \<and> Summary_wf s"
proof -
  have "\<forall>v\<in>set [sample_observation 0 OutcomeSuccess, sample_observation 5 OutcomeTimeout]. Observation_wf v"
    by (simp add: sample_observation_wf)
  moreover have "length [sample_observation 0 OutcomeSuccess, sample_observation 5 OutcomeTimeout] \<le> max_summary_samples"
    by (simp add: max_summary_samples_def)
  ultimately show ?thesis using sample_summary Summarize_bounds by blast
qed

text \<open>
  C25. The order in which the observations were stored is irrelevant: two permutations of the
  same evidence give the same summary or the same error, as long as distinct observations have
  distinct sample identifiers (which a SHA-256 collision alone can break).
\<close>

theorem Summarize_permutation:
  assumes "mset values = mset values'" "inj_on obs_sampleID (set values)"
  shows "Summarize key values now window freshness = Summarize key values' now window freshness"
proof -
  have sets: "set values = set values'" using assms(1) by (metis set_mset_mset)
  have "sort_by sample_less (filter (in_window now window) values) = sort_by sample_less (filter (in_window now window) values')"
    using assms(1) by (intro strict_total.sort_by_permutation [OF sample_total [OF assms(2)]]) (simp_all add: list_all_iff)
  then show ?thesis unfolding Summarize_def list_all_iff sets by simp
qed

definition sample_marked :: "bytes \<Rightarrow> Observation" where
  "sample_marked s = (sample_observation 0 OutcomeSuccess)\<lparr>obs_sampleID := s\<rparr>"

theorem Summarize_permutation_witness:
  "Summarize sample_key [sample_marked ''b'', sample_marked ''a''] (unix_epoch + minute) minute second
   = Summarize sample_key [sample_marked ''a'', sample_marked ''b''] (unix_epoch + minute) minute second"
proof -
  have "inj_on obs_sampleID (set [sample_marked ''b'', sample_marked ''a''])" by (auto simp: sample_marked_def)
  moreover have "mset [sample_marked ''b'', sample_marked ''a''] = mset [sample_marked ''a'', sample_marked ''b'']" by simp
  ultimately show ?thesis by (intro Summarize_permutation)
qed

end
