(* ===== verification/Selection.thy ===== *)
theory Selection
  imports Observation Endpoint_Inventory
begin

text \<open>
  \<^verbatim>\<open>internal/selection/selection.go\<close>: the selection policy, its persisted state and one evaluation
  of the selector, from the evidence of each candidate to the decision and the next state. Every
  loop of the evaluation is a definition of its own. The lemmas show what a decision guarantees:
  which candidates it selects and how many, that protected incumbents stay and others leave only
  for a sufficient improvement, that cooldowns hold, and that the next state is valid.
\<close>

section \<open>Policies and contexts\<close>

definition algorithmVersion :: string where "algorithmVersion = ''adaptive/v1''"

type_synonym Strategy = u8

definition StrategyStatic :: Strategy where "StrategyStatic = 1"
definition StrategyLowestLatency :: Strategy where "StrategyLowestLatency = 2"
definition StrategyAdaptive :: Strategy where "StrategyAdaptive = 3"

lemmas strategy_defs = StrategyStatic_def StrategyLowestLatency_def StrategyAdaptive_def

definition Strategy_String :: "Strategy \<Rightarrow> string" where
  "Strategy_String s =
     (if s = StrategyStatic then ''static'' else if s = StrategyLowestLatency then ''lowest_latency''
      else if s = StrategyAdaptive then ''adaptive'' else ''unknown'')"

record Policy =
  pol_Strategy :: Strategy
  pol_TopN :: int
  pol_EvidenceWindow :: duration
  pol_Freshness :: duration
  pol_MinSamples :: int
  pol_MinSuccessPermille :: int
  pol_FailureStreak :: int
  pol_RecoverySuccesses :: int
  pol_Residence :: duration
  pol_Cooldown :: duration
  pol_RequiredImprovementPermille :: int

definition DefaultPolicy :: "Strategy \<Rightarrow> Policy" where
  "DefaultPolicy strategy =
     \<lparr>pol_Strategy = strategy, pol_TopN = 1, pol_EvidenceWindow = 30 * minute, pol_Freshness = 5 * minute,
      pol_MinSamples = 3, pol_MinSuccessPermille = 600, pol_FailureStreak = 2, pol_RecoverySuccesses = 3,
      pol_Residence = 10 * minute, pol_Cooldown = 15 * minute, pol_RequiredImprovementPermille = 100\<rparr>"

definition Policy_Validate :: "Policy \<Rightarrow> string + unit" where
  "Policy_Validate policy =
     (if pol_Strategy policy < StrategyStatic \<or> pol_Strategy policy > StrategyAdaptive
      then Inl ''invalid selection strategy''
      else if pol_TopN policy < 1 \<or> pol_TopN policy > 10000 \<or> pol_MinSamples policy < 1 \<or> pol_MinSamples policy > 512
        \<or> pol_MinSuccessPermille policy < 1 \<or> pol_MinSuccessPermille policy > 1000
        \<or> pol_FailureStreak policy < 1 \<or> pol_FailureStreak policy > 512
        \<or> pol_RecoverySuccesses policy < 1 \<or> pol_RecoverySuccesses policy > 512
        \<or> pol_EvidenceWindow policy \<le> 0 \<or> pol_EvidenceWindow policy > 30 * 24 * hour
        \<or> pol_Freshness policy \<le> 0 \<or> pol_Freshness policy > pol_EvidenceWindow policy
        \<or> pol_Residence policy < 0 \<or> pol_Residence policy > 7 * 24 * hour
        \<or> pol_Cooldown policy < 0 \<or> pol_Cooldown policy > 30 * 24 * hour
        \<or> pol_RequiredImprovementPermille policy < 0 \<or> pol_RequiredImprovementPermille policy \<ge> 1000
      then Inl ''invalid selection policy bounds''
      else Inr ())"

record Context =
  ctx_Target :: TargetRef
  ctx_Vantage :: string
  ctx_Kind :: Kind
  ctx_Profile :: Profile

definition NewContext :: "TargetRef \<Rightarrow> string \<Rightarrow> Kind \<Rightarrow> Profile \<Rightarrow> string + Context" where
  "NewContext target vantage kind profile =
     (if tref_id target = [] \<or> vantage = [] \<or> kind \<noteq> KindHTTPGet \<or> (profile \<noteq> Mihomo11931 \<and> profile \<noteq> SingBox1141)
      then Inl ''invalid selection context''
      else if \<not> is_ok (TargetRevision_Reveal (tref_revision target)) then Inl ''invalid selection context''
      else Inr \<lparr>ctx_Target = target, ctx_Vantage = vantage, ctx_Kind = kind, ctx_Profile = profile\<rparr>)"

definition Context_Matches :: "Context \<Rightarrow> Key \<Rightarrow> bool" where
  "Context_Matches ctx key \<longleftrightarrow>
     TargetRef_Equal (ctx_Target ctx) (key_target key) \<and> ctx_Vantage ctx = key_vantage key
     \<and> ctx_Kind ctx = key_kind key \<and> ctx_Profile ctx = key_profile key"

definition contextsEqual :: "Context \<Rightarrow> Context \<Rightarrow> bool" where
  "contextsEqual l r \<longleftrightarrow>
     TargetRef_Equal (ctx_Target l) (ctx_Target r) \<and> ctx_Vantage l = ctx_Vantage r
     \<and> ctx_Kind l = ctx_Kind r \<and> ctx_Profile l = ctx_Profile r"

definition policy_fields :: "Policy \<Rightarrow> int list" where
  "policy_fields policy =
     [int (unat (pol_Strategy policy)), pol_TopN policy, pol_EvidenceWindow policy, pol_Freshness policy,
      pol_MinSamples policy, pol_MinSuccessPermille policy, pol_FailureStreak policy, pol_RecoverySuccesses policy,
      pol_Residence policy, pol_Cooldown policy, pol_RequiredImprovementPermille policy]"

definition policyFingerprint :: "Policy \<Rightarrow> bytes" where
  "policyFingerprint policy =
     sha256 (algorithmVersion @ concat (map (\<lambda>v. put_uint64 (to_uint64 v)) (policy_fields policy)))"

section \<open>State\<close>

record Candidate =
  cand_Record :: Record
  cand_Evidence :: "Summary option"

record Member =
  mem_Connection :: ConnectionRef
  mem_SelectedAt :: instant

record Cooldown =
  cool_Connection :: ConnectionRef
  cool_Until :: instant

record SelectionState =
  st_Scope :: string
  st_Context :: Context
  st_PolicyFingerprint :: bytes
  st_EvaluatedAt :: instant
  st_Members :: "Member list"
  st_Cooldowns :: "Cooldown list"

definition refKey :: "ConnectionRef \<Rightarrow> string" where
  "refKey ref = ID_String (cref_id ref) @ revealed (cref_revision ref)"

definition safeScope :: "string \<Rightarrow> bool" where
  "safeScope value =
     (if length value = 0 \<or> length value > 128 then False else list_all safe_name_char value)"

fun validate_members :: "string list \<Rightarrow> Member list \<Rightarrow> string + unit" where
  "validate_members seen [] = Inr ()"
| "validate_members seen (member # rest) =
     (if time_IsZero (mem_SelectedAt member) then Inl ''invalid selection member time''
      else if ID_String (cref_id (mem_Connection member)) = ''<invalid-endpoint-id>''
      then Inl ''invalid selection member connection''
      else if \<not> is_ok (RevealForPersistence (cref_revision (mem_Connection member)))
      then Inl ''invalid selection member connection''
      else if refKey (mem_Connection member) \<in> set seen then Inl ''duplicate selection member''
      else validate_members (refKey (mem_Connection member) # seen) rest)"

fun validate_cooldowns :: "string list \<Rightarrow> Cooldown list \<Rightarrow> string + unit" where
  "validate_cooldowns seen [] = Inr ()"
| "validate_cooldowns seen (cooldown # rest) =
     (if time_IsZero (cool_Until cooldown) then Inl ''invalid selection cooldown time''
      else if \<not> is_ok (RevealForPersistence (cref_revision (cool_Connection cooldown)))
      then Inl ''invalid selection cooldown connection''
      else if refKey (cool_Connection cooldown) \<in> set seen then Inl ''duplicate selection cooldown''
      else validate_cooldowns (refKey (cool_Connection cooldown) # seen) rest)"

definition State_Validate :: "SelectionState \<Rightarrow> string + unit" where
  "State_Validate state =
     (if \<not> safeScope (st_Scope state) then Inl ''invalid selection state scope''
      else and_then (NewContext (ctx_Target (st_Context state)) (ctx_Vantage (st_Context state))
          (ctx_Kind (st_Context state)) (ctx_Profile (st_Context state))) (\<lambda>_.
        if list_all (\<lambda>c. c = byte 0) (st_PolicyFingerprint state) then Inl ''invalid selection policy fingerprint''
        else if time_IsZero (st_EvaluatedAt state) then Inl ''invalid selection evaluation time''
        else and_then (validate_members [] (st_Members state)) (\<lambda>_. validate_cooldowns [] (st_Cooldowns state))))"

definition findMember :: "Member list \<Rightarrow> ConnectionRef \<Rightarrow> bool \<times> instant" where
  "findMember vs ref =
     (case find (\<lambda>v. ConnectionRef_Equal (mem_Connection v) ref) vs of
        Some v \<Rightarrow> (True, mem_SelectedAt v) | None \<Rightarrow> (False, 0))"

definition findCooldown :: "Cooldown list \<Rightarrow> ConnectionRef \<Rightarrow> Cooldown option" where
  "findCooldown vs ref = find (\<lambda>v. ConnectionRef_Equal (cool_Connection v) ref) vs"

definition sameMembers :: "Member list \<Rightarrow> Member list \<Rightarrow> bool" where
  "sameMembers l r \<longleftrightarrow>
     length l = length r \<and> list_all2 (\<lambda>a b. ConnectionRef_Equal (mem_Connection a) (mem_Connection b)) l r"

fun upsertCooldown :: "Cooldown list \<Rightarrow> Cooldown \<Rightarrow> Cooldown list" where
  "upsertCooldown [] value = [value]"
| "upsertCooldown (c # cs) value =
     (if ConnectionRef_Equal (cool_Connection c) (cool_Connection value) then value # cs
      else c # upsertCooldown cs value)"

section \<open>Evaluation of one candidate\<close>

datatype Reason =
    ReasonEligible | ReasonMissingEvidence | ReasonWrongContext | ReasonWrongRevision | ReasonStale
  | ReasonInsufficientSamples | ReasonUnreliable | ReasonFailureStreak | ReasonNoSuccessfulLatency
  | ReasonCooldown | ReasonRecovery

record Explanation =
  exp_connection :: ConnectionRef
  exp_EndpointID :: ID
  exp_Reason :: Reason
  exp_Samples :: int
  exp_Successes :: int
  exp_SuccessPermille :: int
  exp_MeanSuccessDuration :: duration
  exp_ConfidencePPM :: int
  exp_AdaptiveCostNanos :: int
  exp_Incumbent :: bool
  exp_ResidenceActive :: bool

definition wilson_z :: rat where "wilson_z = round64 (49 / 25)"

definition wilsonLowerPPM :: "int \<Rightarrow> int \<Rightarrow> int" where
  "wilsonLowerPPM successes samples =
     (if samples \<le> 0 \<or> successes < 0 \<or> successes > samples then 0
      else
        let n = float_of_int samples; p = float_div (float_of_int successes) (float_of_int samples); z = wilson_z;
            z2 = float_mul z z;
            radicand = float_add (float_div (float_mul p (float_sub 1 p)) n)
              (float_div z2 (float_mul (float_mul 4 n) n));
            lower = float_div
              (float_sub (float_add p (float_div z2 (float_mul 2 n))) (float_mul z (sqrt64 radicand)))
              (float_add 1 (float_div z2 n));
            lower = (if lower < 0 then 0 else lower)
        in math_Round (float_mul lower 1000000))"

definition riskCost :: "duration \<Rightarrow> int \<Rightarrow> int" where
  "riskCost d confidence =
     (if d \<le> 0 \<or> confidence \<le> 0 then max_int64
      else let value = wrap64 (d * 1000000) in wrap64 (value + confidence - 1) sdiv confidence)"

definition evaluate ::
  "Candidate \<Rightarrow> ConnectionRef \<Rightarrow> Context \<Rightarrow> Policy \<Rightarrow> Cooldown list \<Rightarrow> bool \<Rightarrow> instant \<Rightarrow> instant \<Rightarrow> Explanation" where
  "evaluate candidate ref ctx policy cooldowns incumbent selectedAt now =
     (let value = \<lparr>exp_connection = ref, exp_EndpointID = Record_ID (cand_Record candidate), exp_Reason = ReasonEligible,
            exp_Samples = 0, exp_Successes = 0, exp_SuccessPermille = 0, exp_MeanSuccessDuration = 0,
            exp_ConfidencePPM = 0, exp_AdaptiveCostNanos = 0, exp_Incumbent = incumbent,
            exp_ResidenceActive = (incumbent \<and> now < time_Add selectedAt (pol_Residence policy))\<rparr>
      in case cand_Evidence candidate of
           None \<Rightarrow> value\<lparr>exp_Reason := ReasonMissingEvidence\<rparr>
         | Some summary \<Rightarrow>
             let permille = (if sum_Samples summary > 0
                   then wrap64 (sum_Successes summary * 1000) sdiv sum_Samples summary else 0);
                 value = value\<lparr>exp_Samples := sum_Samples summary, exp_Successes := sum_Successes summary,
                   exp_SuccessPermille := permille, exp_MeanSuccessDuration := sum_MeanSuccessDuration summary\<rparr>;
                 confidence = wilsonLowerPPM (sum_Successes summary) (sum_Samples summary);
                 confident = value\<lparr>exp_ConfidencePPM := confidence\<rparr>;
                 finish =
                   (if confidence \<le> 0 then confident\<lparr>exp_Reason := ReasonUnreliable\<rparr>
                    else confident\<lparr>exp_AdaptiveCostNanos := riskCost (sum_MeanSuccessDuration summary) confidence\<rparr>)
             in if \<not> Context_Matches ctx (sum_Key summary) then value\<lparr>exp_Reason := ReasonWrongContext\<rparr>
                else if \<not> ConnectionRef_Equal (key_connection (sum_Key summary)) ref
                then value\<lparr>exp_Reason := ReasonWrongRevision\<rparr>
                else if \<not> sum_Fresh summary then value\<lparr>exp_Reason := ReasonStale\<rparr>
                else if sum_Samples summary < pol_MinSamples policy then value\<lparr>exp_Reason := ReasonInsufficientSamples\<rparr>
                else if permille < pol_MinSuccessPermille policy then value\<lparr>exp_Reason := ReasonUnreliable\<rparr>
                else if sum_ConsecutiveFailures summary \<ge> pol_FailureStreak policy
                then value\<lparr>exp_Reason := ReasonFailureStreak\<rparr>
                else if sum_Successes summary = 0 \<or> sum_MeanSuccessDuration summary \<le> 0
                then value\<lparr>exp_Reason := ReasonNoSuccessfulLatency\<rparr>
                else (case findCooldown cooldowns ref of
                        None \<Rightarrow> finish
                      | Some cooldown \<Rightarrow>
                          if now < cool_Until cooldown then value\<lparr>exp_Reason := ReasonCooldown\<rparr>
                          else if sum_ConsecutiveSuccesses summary < pol_RecoverySuccesses policy
                          then value\<lparr>exp_Reason := ReasonRecovery\<rparr>
                          else finish))"

section \<open>Ranking\<close>

record ranked =
  rk_candidate :: Candidate
  rk_ref :: ConnectionRef
  rk_explanation :: Explanation

abbreviation rk_identity :: "ranked \<Rightarrow> Identity" where
  "rk_identity r \<equiv> Record_Identity (cand_Record (rk_candidate r))"

definition rank_measure :: "Strategy \<Rightarrow> ranked \<Rightarrow> int" where
  "rank_measure strategy v =
     (if strategy = StrategyLowestLatency then exp_MeanSuccessDuration (rk_explanation v)
      else if strategy = StrategyAdaptive then exp_AdaptiveCostNanos (rk_explanation v)
      else 0)"

definition ranked_less :: "Strategy \<Rightarrow> ranked \<Rightarrow> ranked \<Rightarrow> bool" where
  "ranked_less strategy v w =
     (if strategy \<noteq> StrategyStatic \<and> rank_measure strategy v \<noteq> rank_measure strategy w
      then rank_measure strategy v < rank_measure strategy w
      else Identity_Compare (rk_identity v) (rk_identity w) < 0)"

definition sortRanked :: "ranked list \<Rightarrow> Strategy \<Rightarrow> ranked list" where
  "sortRanked vs strategy = sort_by (ranked_less strategy) vs"

definition findRanked :: "ranked list \<Rightarrow> ConnectionRef \<Rightarrow> ranked option" where
  "findRanked vs ref = find (\<lambda>v. ConnectionRef_Equal (rk_ref v) ref) vs"

definition containsRanked :: "ranked list \<Rightarrow> ConnectionRef \<Rightarrow> bool" where
  "containsRanked vs ref \<longleftrightarrow> findRanked vs ref \<noteq> None"

definition improvesBy :: "Explanation \<Rightarrow> Explanation \<Rightarrow> int \<Rightarrow> bool" where
  "improvesBy challenger incumbent requiredPermille \<longleftrightarrow>
     exp_MeanSuccessDuration challenger * exp_ConfidencePPM incumbent * 1000
       \<le> exp_MeanSuccessDuration incumbent * exp_ConfidencePPM challenger * (1000 - requiredPermille)
     \<and> exp_AdaptiveCostNanos challenger < exp_AdaptiveCostNanos incumbent"

text \<open>The inner loop of \<^verbatim>\<open>optimize\<close>: the index of the worst member outside its residence.\<close>

definition resident :: "Member list \<Rightarrow> Policy \<Rightarrow> instant \<Rightarrow> ConnectionRef \<Rightarrow> bool" where
  "resident previous policy now ref \<longleftrightarrow>
     (let since = snd (findMember previous ref)
      in \<not> time_IsZero since \<and> now < time_Add since (pol_Residence policy))"

definition worse :: "ranked \<Rightarrow> ranked \<Rightarrow> bool" where
  "worse w incumbent \<longleftrightarrow>
     exp_AdaptiveCostNanos (rk_explanation w) < exp_AdaptiveCostNanos (rk_explanation incumbent)
     \<or> exp_AdaptiveCostNanos (rk_explanation w) = exp_AdaptiveCostNanos (rk_explanation incumbent)
       \<and> Identity_Compare (rk_identity w) (rk_identity incumbent) < 0"

fun worst_loop :: "(ConnectionRef \<Rightarrow> bool) \<Rightarrow> ranked list \<Rightarrow> nat \<Rightarrow> nat option \<Rightarrow> ranked list \<Rightarrow> nat option" where
  "worst_loop protected selected index worst [] = worst"
| "worst_loop protected selected index worst (incumbent # rest) =
     (if protected (rk_ref incumbent) then worst_loop protected selected (index + 1) worst rest
      else if (case worst of None \<Rightarrow> True | Some w \<Rightarrow> worse (selected ! w) incumbent)
      then worst_loop protected selected (index + 1) (Some index) rest
      else worst_loop protected selected (index + 1) worst rest)"

definition optimize_step :: "(ConnectionRef \<Rightarrow> bool) \<Rightarrow> int \<Rightarrow> ranked list \<Rightarrow> ranked \<Rightarrow> ranked list" where
  "optimize_step protected required selected challenger =
     (if containsRanked selected (rk_ref challenger) then selected
      else case worst_loop protected selected 0 None selected of
             None \<Rightarrow> selected
           | Some w \<Rightarrow>
               if improvesBy (rk_explanation challenger) (rk_explanation (selected ! w)) required
               then selected[w := challenger] else selected)"

definition optimize :: "ranked list \<Rightarrow> ranked list \<Rightarrow> Member list \<Rightarrow> Policy \<Rightarrow> instant \<Rightarrow> ranked list" where
  "optimize selected rankedValues previous policy now =
     foldl (optimize_step (resident previous policy now) (pol_RequiredImprovementPermille policy)) selected rankedValues"

section \<open>Selection\<close>

datatype Transition =
    TransitionInitial | TransitionUnchanged | TransitionOptimized | TransitionEmergency
  | TransitionContextReset | TransitionNoEligible

record Decision =
  dec_Selected :: "Record list"
  dec_Explanations :: "Explanation list"
  dec_Next :: SelectionState
  dec_Changed :: bool
  dec_Degraded :: bool
  dec_Transition :: Transition
  dec_Eligible :: int
  dec_Requested :: int

abbreviation cand_identity :: "Candidate \<Rightarrow> Identity" where
  "cand_identity c \<equiv> Record_Identity (cand_Record c)"

definition candidate_less :: "Candidate \<Rightarrow> Candidate \<Rightarrow> bool" where
  "candidate_less l r \<longleftrightarrow> Identity_Compare (cand_identity l) (cand_identity r) < 0"

fun adjacent_equal :: "Candidate list \<Rightarrow> bool" where
  "adjacent_equal (a # b # rest) \<longleftrightarrow> Identity_Equal (cand_identity a) (cand_identity b) \<or> adjacent_equal (b # rest)"
| "adjacent_equal _ \<longleftrightarrow> False"

text \<open>
  The first loop: every candidate is explained; the maps from reference keys are kept as the
  list of the entries written, latest first.
\<close>

record ranking =
  rg_ranked :: "ranked list"
  rg_explanations :: "Explanation list"
  rg_reasons :: "(string \<times> Reason) list"

fun rank_loop ::
  "Context \<Rightarrow> Policy \<Rightarrow> Cooldown list \<Rightarrow> Member list \<Rightarrow> instant \<Rightarrow> ranking \<Rightarrow> Candidate list \<Rightarrow> string + ranking" where
  "rank_loop ctx policy cooldowns members now acc [] = Inr acc"
| "rank_loop ctx policy cooldowns members now acc (candidate # rest) =
     (case NewConnectionRef (cand_identity candidate) of
        Inl _ \<Rightarrow> Inl ''selection candidate has invalid identity''
      | Inr ref \<Rightarrow>
          let (incumbent, selectedAt) = findMember members ref;
              explanation = evaluate candidate ref ctx policy cooldowns incumbent selectedAt now
          in rank_loop ctx policy cooldowns members now
               \<lparr>rg_ranked = (if exp_Reason explanation = ReasonEligible
                  then rg_ranked acc @ [\<lparr>rk_candidate = candidate, rk_ref = ref, rk_explanation = explanation\<rparr>]
                  else rg_ranked acc),
                rg_explanations = rg_explanations acc @ [explanation],
                rg_reasons = (refKey ref, exp_Reason explanation) # rg_reasons acc\<rparr> rest)"

text \<open>Cooldowns of current candidates that have not recovered.\<close>

definition keep_cooldown :: "(string \<times> Reason) list \<Rightarrow> ranked list \<Rightarrow> Policy \<Rightarrow> instant \<Rightarrow> Cooldown \<Rightarrow> bool" where
  "keep_cooldown present rankedValues policy now cooldown =
     (if map_of present (refKey (cool_Connection cooldown)) = None then False
      else now < cool_Until cooldown
        \<or> (case findRanked rankedValues (cool_Connection cooldown) of
             None \<Rightarrow> True
           | Some entry \<Rightarrow>
               (case cand_Evidence (rk_candidate entry) of
                  None \<Rightarrow> True
                | Some summary \<Rightarrow> sum_ConsecutiveSuccesses summary < pol_RecoverySuccesses policy)))"

text \<open>Incumbents that are still eligible stay; the others leave in an emergency.\<close>

record retention =
  rt_selected :: "ranked list"
  rt_emergency :: bool
  rt_cooldowns :: "Cooldown list"

definition retain_step ::
  "ranked list \<Rightarrow> (string \<times> Reason) list \<Rightarrow> Policy \<Rightarrow> instant \<Rightarrow> retention \<Rightarrow> Member \<Rightarrow> retention" where
  "retain_step rankedValues reasons policy now acc member =
     (case findRanked rankedValues (mem_Connection member) of
        Some entry \<Rightarrow> acc\<lparr>rt_selected := rt_selected acc @ [entry]\<rparr>
      | None \<Rightarrow>
          let reason = map_of reasons (refKey (mem_Connection member));
              cooled = (if reason = Some ReasonFailureStreak \<or> reason = Some ReasonUnreliable
                then upsertCooldown (rt_cooldowns acc)
                  \<lparr>cool_Connection = mem_Connection member, cool_Until = time_Add now (pol_Cooldown policy)\<rparr>
                else rt_cooldowns acc)
          in acc\<lparr>rt_emergency := True, rt_cooldowns := cooled\<rparr>)"

definition fill_step :: "Policy \<Rightarrow> ranked list \<Rightarrow> ranked \<Rightarrow> ranked list" where
  "fill_step policy selected candidate =
     (if int (length selected) \<ge> pol_TopN policy \<or> containsRanked selected (rk_ref candidate) then selected
      else selected @ [candidate])"

definition next_member :: "Member list \<Rightarrow> instant \<Rightarrow> ranked \<Rightarrow> Member" where
  "next_member previousMembers now value =
     (let selectedAt = snd (findMember previousMembers (rk_ref value))
      in \<lparr>mem_Connection = rk_ref value, mem_SelectedAt = (if time_IsZero selectedAt then now else selectedAt)\<rparr>)"

definition usable_previous :: "string \<Rightarrow> Context \<Rightarrow> Policy \<Rightarrow> SelectionState option \<Rightarrow> bool" where
  "usable_previous scope ctx policy previous =
     (case previous of None \<Rightarrow> False
      | Some p \<Rightarrow> st_Scope p = scope \<and> contextsEqual (st_Context p) ctx \<and> st_PolicyFingerprint p = policyFingerprint policy)"

text \<open>From the ranking to the selected entries: retain, truncate, fill, truncate or optimise.\<close>

definition choose_ranked ::
  "Policy \<Rightarrow> bool \<Rightarrow> Member list \<Rightarrow> ranked list \<Rightarrow> (string \<times> Reason) list \<Rightarrow> Cooldown list \<Rightarrow> instant \<Rightarrow> retention" where
  "choose_ranked policy usable previousMembers rankedValues reasons nextCooldowns now =
     (let topN = nat (pol_TopN policy);
          start = \<lparr>rt_selected = [], rt_emergency = False, rt_cooldowns = nextCooldowns\<rparr>;
          kept = (if pol_Strategy policy = StrategyAdaptive \<and> usable
            then let r = foldl (retain_step rankedValues reasons policy now) start previousMembers
                 in if int (length (rt_selected r)) > pol_TopN policy
                    then r\<lparr>rt_selected := take topN (sortRanked (rt_selected r) (pol_Strategy policy))\<rparr> else r
            else start);
          filled = foldl (fill_step policy) (rt_selected kept) rankedValues;
          selected =
            (if pol_Strategy policy \<noteq> StrategyAdaptive \<or> \<not> usable
             then (if int (length filled) > pol_TopN policy then take topN filled else filled)
             else if int (length filled) = pol_TopN policy
             then optimize filled rankedValues previousMembers policy now
             else filled)
      in kept\<lparr>rt_selected := selected\<rparr>)"

definition decide ::
  "string \<Rightarrow> Context \<Rightarrow> Policy \<Rightarrow> bool \<Rightarrow> Transition \<Rightarrow> Member list \<Rightarrow> Cooldown list \<Rightarrow> instant \<Rightarrow> ranking \<Rightarrow> Decision" where
  "decide scope ctx policy usable transition previousMembers cooldowns now ranking =
     (let rankedValues = sortRanked (rg_ranked ranking) (pol_Strategy policy);
          nextCooldowns = filter (keep_cooldown (rg_reasons ranking) rankedValues policy now) cooldowns;
          chosen = choose_ranked policy usable previousMembers rankedValues (rg_reasons ranking) nextCooldowns now;
          selected = rt_selected chosen;
          nextMembers = map (next_member previousMembers now) selected;
          changed = (\<not> sameMembers previousMembers nextMembers)
      in \<lparr>dec_Selected = map (\<lambda>v. cand_Record (rk_candidate v)) selected,
          dec_Explanations = rg_explanations ranking,
          dec_Next = \<lparr>st_Scope = scope, st_Context = ctx, st_PolicyFingerprint = policyFingerprint policy,
            st_EvaluatedAt = now, st_Members = nextMembers, st_Cooldowns = rt_cooldowns chosen\<rparr>,
          dec_Changed = changed,
          dec_Degraded = (int (length selected) < pol_TopN policy),
          dec_Transition =
            (if selected = [] then TransitionNoEligible
             else if rt_emergency chosen \<and> changed then TransitionEmergency
             else if changed \<and> usable then TransitionOptimized
             else transition),
          dec_Eligible = int (length rankedValues),
          dec_Requested = pol_TopN policy\<rparr>)"

definition Select ::
  "string \<Rightarrow> Context \<Rightarrow> Policy \<Rightarrow> Candidate list \<Rightarrow> SelectionState option \<Rightarrow> instant \<Rightarrow> string + Decision" where
  "Select scope ctx policy candidates previous now =
     (if \<not> safeScope scope \<or> time_IsZero now
      then Inl ''selection requires a safe scope and explicit evaluation time''
      else and_then (Policy_Validate policy) (\<lambda>_.
        let usable = usable_previous scope ctx policy previous
        in if usable \<and> now < st_EvaluatedAt (the previous)
           then Inl ''selection evaluation is older than committed state''
           else
             let previousMembers = (if usable then st_Members (the previous) else []);
                 cooldowns = (if usable then st_Cooldowns (the previous) else []);
                 transition = (if usable then TransitionUnchanged
                   else if previous \<noteq> None then TransitionContextReset else TransitionInitial);
                 ordered = sort_by candidate_less candidates
             in if adjacent_equal ordered
                then Inl ''selection candidates contain duplicate connection revisions''
                else and_then (rank_loop ctx policy cooldowns previousMembers now
                    \<lparr>rg_ranked = [], rg_explanations = [], rg_reasons = []\<rparr> ordered)
                  (\<lambda>ranking. Inr (decide scope ctx policy usable transition previousMembers cooldowns now ranking))))"
section \<open>References\<close>

definition ref_of :: "Identity \<Rightarrow> ConnectionRef" where
  "ref_of i = \<lparr>cref_id = id_value i, cref_revision = id_revision i\<rparr>"

abbreviation cand_ref :: "Candidate \<Rightarrow> ConnectionRef" where
  "cand_ref c \<equiv> ref_of (cand_identity c)"

definition ref_ok :: "ConnectionRef \<Rightarrow> bool" where
  "ref_ok r \<longleftrightarrow> cref_revision r \<noteq> None \<and> ID_String (cref_id r) \<noteq> ''<invalid-endpoint-id>''"

lemma ref_of_inj [simp]: "ref_of i = ref_of j \<longleftrightarrow> i = j"
  by (auto simp: ref_of_def intro: Identity.equality)

lemma NewConnectionRef_Inr_iff: "NewConnectionRef i = Inr r \<longleftrightarrow> r = ref_of i \<and> ref_ok r"
  by (auto simp: NewConnectionRef_def ref_of_def ref_ok_def RevealForPersistence_def split: option.splits)

lemma NewConnectionRef_Inl_iff: "(\<exists>e. NewConnectionRef i = Inl e) \<longleftrightarrow> \<not> ref_ok (ref_of i)"
  by (auto simp: NewConnectionRef_def ref_of_def ref_ok_def RevealForPersistence_def split: option.splits)

lemma ConnectionRef_Equal_iff: "ConnectionRef_Equal r s \<longleftrightarrow> r = s \<and> cref_revision r \<noteq> None"
  by (auto simp: ConnectionRef_Equal_def Revision_Equal_def intro: ConnectionRef.equality)

lemma find_Some_iff:
  "find P xs = Some x \<Longrightarrow> x \<in> set xs \<and> P x"
  by (induction xs) (auto split: if_splits)

lemma find_map_key:
  assumes "distinct (map f xs)" "\<And>x. x \<in> set xs \<Longrightarrow> P x \<longleftrightarrow> f x = k"
  shows "find P xs = Some x \<longleftrightarrow> x \<in> set xs \<and> f x = k"
  using assms by (induction xs) auto

lemma distinct_map_mset: "mset xs = mset ys \<Longrightarrow> distinct (map f xs) \<longleftrightarrow> distinct (map f ys)"
  by (rule mset_eq_imp_distinct_iff) simp

section \<open>Ranked lists\<close>

definition ranked_wf :: "ranked list \<Rightarrow> bool" where
  "ranked_wf vs \<longleftrightarrow> distinct (map rk_ref vs) \<and> (\<forall>v\<in>set vs. ref_ok (rk_ref v))"

lemma ranked_wf_distinct: "ranked_wf vs \<Longrightarrow> distinct vs"
  by (auto simp: ranked_wf_def distinct_map)

lemma ranked_wf_inj: "ranked_wf vs \<Longrightarrow> v \<in> set vs \<Longrightarrow> w \<in> set vs \<Longrightarrow> rk_ref v = rk_ref w \<Longrightarrow> v = w"
  by (auto simp: ranked_wf_def distinct_map dest: inj_onD)

lemma ranked_wf_mset: "mset vs = mset ws \<Longrightarrow> ranked_wf vs \<longleftrightarrow> ranked_wf ws"
  unfolding ranked_wf_def by (metis distinct_map_mset mset_eq_setD)

lemma findRanked_Some_iff:
  assumes "ranked_wf vs"
  shows "findRanked vs ref = Some v \<longleftrightarrow> v \<in> set vs \<and> rk_ref v = ref"
  using assms unfolding findRanked_def
  by (intro find_map_key) (auto simp: ranked_wf_def ConnectionRef_Equal_iff ref_ok_def)

lemma containsRanked_iff:
  assumes "\<forall>v\<in>set vs. ref_ok (rk_ref v)"
  shows "containsRanked vs ref \<longleftrightarrow> ref \<in> rk_ref ` set vs"
proof -
  have "containsRanked vs ref \<longleftrightarrow> (\<exists>v\<in>set vs. ConnectionRef_Equal (rk_ref v) ref)"
    by (auto simp: containsRanked_def findRanked_def find_None_iff)
  then show ?thesis using assms by (auto simp: ConnectionRef_Equal_iff ref_ok_def)
qed

section \<open>The ranking of a list of candidates\<close>

definition explain :: "Context \<Rightarrow> Policy \<Rightarrow> Cooldown list \<Rightarrow> Member list \<Rightarrow> instant \<Rightarrow> Candidate \<Rightarrow> Explanation" where
  "explain ctx policy cooldowns members now c =
     (let (incumbent, selectedAt) = findMember members (cand_ref c)
      in evaluate c (cand_ref c) ctx policy cooldowns incumbent selectedAt now)"

definition eligible_by :: "(Candidate \<Rightarrow> Explanation) \<Rightarrow> Candidate \<Rightarrow> bool" where
  "eligible_by E c \<longleftrightarrow> exp_Reason (E c) = ReasonEligible"

definition entry_of :: "(Candidate \<Rightarrow> Explanation) \<Rightarrow> Candidate \<Rightarrow> ranked" where
  "entry_of E c = \<lparr>rk_candidate = c, rk_ref = cand_ref c, rk_explanation = E c\<rparr>"

lemma entry_of_simps [simp]:
  "rk_candidate (entry_of E c) = c" "rk_ref (entry_of E c) = cand_ref c" "rk_explanation (entry_of E c) = E c"
  by (simp_all add: entry_of_def)

definition ranking_of :: "(Candidate \<Rightarrow> Explanation) \<Rightarrow> Candidate list \<Rightarrow> ranking" where
  "ranking_of E cs = \<lparr>rg_ranked = map (entry_of E) (filter (eligible_by E) cs), rg_explanations = map E cs,
     rg_reasons = rev (map (\<lambda>c. (refKey (cand_ref c), exp_Reason (E c))) cs)\<rparr>"

lemma rank_loop_step:
  assumes "ref_ok (cand_ref c)"
    and e: "e = explain ctx policy cooldowns members now c"
  shows "rank_loop ctx policy cooldowns members now acc (c # cs) =
    rank_loop ctx policy cooldowns members now
      \<lparr>rg_ranked = (if exp_Reason e = ReasonEligible
          then rg_ranked acc @ [\<lparr>rk_candidate = c, rk_ref = cand_ref c, rk_explanation = e\<rparr>] else rg_ranked acc),
       rg_explanations = rg_explanations acc @ [e], rg_reasons = (refKey (cand_ref c), exp_Reason e) # rg_reasons acc\<rparr> cs"
proof -
  have "NewConnectionRef (cand_identity c) = Inr (cand_ref c)" using assms(1) by (simp add: NewConnectionRef_Inr_iff)
  then show ?thesis by (simp add: e explain_def Let_def split: prod.splits)
qed

lemma rank_loop_acc:
  "rank_loop ctx policy cooldowns members now acc cs =
     (if \<forall>c\<in>set cs. ref_ok (cand_ref c)
      then let E = explain ctx policy cooldowns members now; r = ranking_of E cs
           in Inr \<lparr>rg_ranked = rg_ranked acc @ rg_ranked r, rg_explanations = rg_explanations acc @ rg_explanations r,
                rg_reasons = rg_reasons r @ rg_reasons acc\<rparr>
      else Inl ''selection candidate has invalid identity'')"
proof (induction cs arbitrary: acc)
  case Nil
  then show ?case by (simp add: ranking_of_def)
next
  case (Cons c cs)
  show ?case
  proof (cases "ref_ok (cand_ref c)")
    case True
    show ?thesis unfolding rank_loop_step [OF True refl] Cons.IH
      using True by (simp add: ranking_of_def eligible_by_def entry_of_def Let_def)
  next
    case False
    then obtain e where "NewConnectionRef (cand_identity c) = Inl e" using NewConnectionRef_Inl_iff by blast
    then show ?thesis using False by simp
  qed
qed

lemma rank_loop_exact:
  "rank_loop ctx policy cooldowns members now \<lparr>rg_ranked = [], rg_explanations = [], rg_reasons = []\<rparr> cs =
     (if \<forall>c\<in>set cs. ref_ok (cand_ref c) then Inr (ranking_of (explain ctx policy cooldowns members now) cs)
      else Inl ''selection candidate has invalid identity'')"
  by (simp add: rank_loop_acc ranking_of_def Let_def)

section \<open>Candidate order\<close>

lemma candidate_less_iff: "candidate_less l r \<longleftrightarrow> identity_less (cand_identity l) (cand_identity r)"
  by (simp add: candidate_less_def identity_less_def)

interpretation candidate_order: strict_weak candidate_less "\<lambda>_. True"
  unfolding candidate_less_iff [abs_def]
  by unfold_locales (blast dest: identity_order.asym identity_order.weak_trans)+

lemma Identity_Equal_iff: "Identity_Equal i j \<longleftrightarrow> i = j"
  by (auto simp: Identity_Equal_def intro: Identity.equality split: if_splits)

lemma sorted_adjacent_distinct:
  assumes "sorted_wrt (\<lambda>a b. \<not> candidate_less b a) cs"
  shows "adjacent_equal cs \<longleftrightarrow> \<not> distinct (map cand_identity cs)"
  using assms
proof (induction cs rule: adjacent_equal.induct)
  case (1 a b rest)
  have "cand_identity a \<notin> cand_identity ` set rest" if ne: "cand_identity a \<noteq> cand_identity b"
  proof
    assume "cand_identity a \<in> cand_identity ` set rest"
    then obtain c where c: "c \<in> set rest" "cand_identity c = cand_identity a" by auto
    have "\<not> candidate_less b a" "\<not> candidate_less c b" using 1(2) c by auto
    then have "\<not> identity_less (cand_identity b) (cand_identity a)" "\<not> identity_less (cand_identity a) (cand_identity b)"
      using c by (simp_all add: candidate_less_iff)
    with ne show False using identity_order.total by blast
  qed
  then show ?case using 1 by (auto simp: Identity_Equal_iff)
qed auto

lemma ordered_distinct:
  "adjacent_equal (sort_by candidate_less cs) \<longleftrightarrow> \<not> distinct (map cand_identity cs)"
proof -
  have "sorted_wrt (\<lambda>a b. \<not> candidate_less b a) (sort_by candidate_less cs)"
    by (rule candidate_order.sort_by_sorted) (simp add: list_all_iff)
  then have "adjacent_equal (sort_by candidate_less cs) \<longleftrightarrow> \<not> distinct (map cand_identity (sort_by candidate_less cs))"
    by (rule sorted_adjacent_distinct)
  also have "\<dots> \<longleftrightarrow> \<not> distinct (map cand_identity cs)"
    by (simp add: distinct_map_mset [OF mset_sort_by])
  finally show ?thesis .
qed
section \<open>Ranking order\<close>

lemma ranked_less_iff:
  "ranked_less strategy v w \<longleftrightarrow>
     (if strategy \<noteq> StrategyStatic \<and> rank_measure strategy v \<noteq> rank_measure strategy w
      then rank_measure strategy v < rank_measure strategy w
      else identity_less (rk_identity v) (rk_identity w))"
  by (simp add: ranked_less_def identity_less_def)

interpretation ranked_order: strict_weak "ranked_less strategy" "\<lambda>_. True" for strategy
proof unfold_locales
  fix x y z
  show "ranked_less strategy x y \<Longrightarrow> \<not> ranked_less strategy y x"
    using identity_order.asym [of "rk_identity x" "rk_identity y"] by (auto simp: ranked_less_iff split: if_splits)
  show "\<not> ranked_less strategy y x \<Longrightarrow> \<not> ranked_less strategy z y \<Longrightarrow> \<not> ranked_less strategy z x"
    unfolding ranked_less_iff
    using identity_order.weak_trans [where x = "rk_identity x" and y = "rk_identity y" and z = "rk_identity z"]
    by (auto split: if_splits)
qed

lemma sortRanked_mset [simp]: "mset (sortRanked vs strategy) = mset vs"
  by (simp add: sortRanked_def)

lemma sortRanked_set [simp]: "set (sortRanked vs strategy) = set vs"
  by (simp add: sortRanked_def)

lemma sortRanked_length [simp]: "length (sortRanked vs strategy) = length vs"
  by (simp add: sortRanked_def)

lemma sortRanked_wf [simp]: "ranked_wf (sortRanked vs strategy) = ranked_wf vs"
  by (rule ranked_wf_mset) simp

lemma sortRanked_sorted: "sorted_wrt (\<lambda>v w. \<not> ranked_less strategy w v) (sortRanked vs strategy)"
  unfolding sortRanked_def by (rule ranked_order.sort_by_sorted) (simp add: list_all_iff)

lemma sortRanked_measure:
  "sorted_wrt (\<lambda>v w. strategy = StrategyStatic \<or> rank_measure strategy v \<le> rank_measure strategy w) (sortRanked vs strategy)"
  by (rule sorted_wrt_mono_rel [OF _ sortRanked_sorted]) (auto simp: ranked_less_iff split: if_splits)

lemma sorted_wrt_take_drop:
  "sorted_wrt R xs \<Longrightarrow> x \<in> set (take n xs) \<Longrightarrow> y \<in> set (drop n xs) \<Longrightarrow> R x y"
  by (metis append_take_drop_id sorted_wrt_append)

section \<open>Retention, filling and truncation\<close>

lemma retain_selected:
  "rt_selected (foldl (retain_step ranked reasons policy now) acc ms) =
     rt_selected acc @ List.map_filter (\<lambda>m. findRanked ranked (mem_Connection m)) ms"
proof (induction ms arbitrary: acc)
  case (Cons m ms)
  then show ?case
    by (cases "findRanked ranked (mem_Connection m)") (simp_all add: retain_step_def Let_def List.map_filter_def)
qed (simp add: List.map_filter_def)

lemma retain_emergency:
  "rt_emergency (foldl (retain_step ranked reasons policy now) acc ms) \<longleftrightarrow>
     rt_emergency acc \<or> (\<exists>m\<in>set ms. findRanked ranked (mem_Connection m) = None)"
proof (induction ms arbitrary: acc)
  case (Cons m ms)
  then show ?case
    by (cases "findRanked ranked (mem_Connection m)") (simp_all add: retain_step_def Let_def)
qed simp

lemma set_map_filter: "set (List.map_filter f xs) = {y. \<exists>x\<in>set xs. f x = Some y}"
  by (force simp: List.map_filter_def image_iff)

definition distinct_members :: "Member list \<Rightarrow> bool" where
  "distinct_members ms \<longleftrightarrow> distinct (map mem_Connection ms)"

lemma retained_spec:
  assumes "ranked_wf R" "distinct_members ms"
  defines "K \<equiv> List.map_filter (\<lambda>m. findRanked R (mem_Connection m)) ms"
  shows "ranked_wf K" "set K = {v \<in> set R. rk_ref v \<in> mem_Connection ` set ms}"
proof -
  have found: "findRanked R r = Some v \<longleftrightarrow> v \<in> set R \<and> rk_ref v = r" for r v
    by (rule findRanked_Some_iff [OF assms(1)])
  have sets: "set (List.map_filter (\<lambda>m. findRanked R (mem_Connection m)) ms)
      = {v \<in> set R. rk_ref v \<in> mem_Connection ` set ms}" for ms
    by (auto simp: set_map_filter found)
  then show K: "set K = {v \<in> set R. rk_ref v \<in> mem_Connection ` set ms}" by (simp add: K_def)
  have "map rk_ref K = filter (\<lambda>r. r \<in> rk_ref ` set R) (map mem_Connection ms)"
    unfolding K_def
  proof (induction ms)
    case (Cons m ms)
    show ?case
    proof (cases "findRanked R (mem_Connection m)")
      case None
      then have "mem_Connection m \<notin> rk_ref ` set R" using found by (metis imageE option.distinct(1))
      then show ?thesis using None Cons by (simp add: List.map_filter_def)
    next
      case (Some v)
      then have "rk_ref v = mem_Connection m" "mem_Connection m \<in> rk_ref ` set R" using found by (auto intro: rev_image_eqI)
      then show ?thesis using Some Cons by (simp add: List.map_filter_def)
    qed
  qed (simp add: List.map_filter_def)
  then have "distinct (map rk_ref K)" using assms(2) by (simp add: distinct_members_def)
  then show "ranked_wf K" using K assms(1) by (auto simp: ranked_wf_def K_def)
qed

lemma fill_exact:
  assumes "ranked_wf (S @ filter (\<lambda>v. rk_ref v \<notin> rk_ref ` set S) R)" "distinct (map rk_ref R)" "\<forall>v\<in>set R. ref_ok (rk_ref v)"
  shows "foldl (fill_step policy) S R =
    S @ take (nat (pol_TopN policy) - length S) (filter (\<lambda>v. rk_ref v \<notin> rk_ref ` set S) R)"
  using assms
proof (induction R arbitrary: S)
  case (Cons v R)
  have ok: "\<forall>v\<in>set S. ref_ok (rk_ref v)" using Cons.prems(1) by (auto simp: ranked_wf_def)
  have contains: "containsRanked S (rk_ref v) \<longleftrightarrow> rk_ref v \<in> rk_ref ` set S" by (rule containsRanked_iff [OF ok])
  have other: "rk_ref v \<notin> rk_ref ` set R" using Cons.prems(2) by auto
  show ?case
  proof (cases "int (length S) \<ge> pol_TopN policy \<or> rk_ref v \<in> rk_ref ` set S")
    case True
    then have step: "fill_step policy S v = S" by (auto simp: fill_step_def contains)
    have wf: "ranked_wf (S @ filter (\<lambda>v. rk_ref v \<notin> rk_ref ` set S) R)"
      using Cons.prems(1) by (auto simp: ranked_wf_def split: if_splits)
    have "foldl (fill_step policy) S R =
        S @ take (nat (pol_TopN policy) - length S) (filter (\<lambda>v. rk_ref v \<notin> rk_ref ` set S) R)"
      using Cons.prems(2,3) by (intro Cons.IH wf) simp_all
    then show ?thesis using step True by auto
  next
    case False
    then have step: "fill_step policy S v = S @ [v]" by (auto simp: fill_step_def contains)
    have same: "filter (\<lambda>w. rk_ref w \<notin> rk_ref ` set (S @ [v])) R = filter (\<lambda>w. rk_ref w \<notin> rk_ref ` set S) R"
      using other by (intro filter_cong) (auto simp: image_iff)
    have "foldl (fill_step policy) (S @ [v]) R = (S @ [v]) @ take (nat (pol_TopN policy) - length (S @ [v]))
        (filter (\<lambda>w. rk_ref w \<notin> rk_ref ` set (S @ [v])) R)"
    proof (rule Cons.IH)
      show "ranked_wf ((S @ [v]) @ filter (\<lambda>w. rk_ref w \<notin> rk_ref ` set (S @ [v])) R)"
        unfolding same using Cons.prems(1) False by simp
    qed (use Cons.prems in simp_all)
    moreover have "nat (pol_TopN policy) - length S = Suc (nat (pol_TopN policy) - length (S @ [v]))"
      using False by auto
    ultimately show ?thesis using step same False by simp
  qed
qed simp
section \<open>Optimisation\<close>

abbreviation cost :: "ranked \<Rightarrow> int" where
  "cost v \<equiv> exp_AdaptiveCostNanos (rk_explanation v)"

lemma worst_loop_spec:
  assumes "selected = before @ rest" "index = length before"
    and "case worst of
        None \<Rightarrow> \<forall>v\<in>set before. protected (rk_ref v)
      | Some w \<Rightarrow> w < index \<and> \<not> protected (rk_ref (selected ! w))
          \<and> (\<forall>v\<in>set before. protected (rk_ref v) \<or> cost v \<le> cost (selected ! w))"
  shows "case worst_loop protected selected index worst rest of
        None \<Rightarrow> \<forall>v\<in>set selected. protected (rk_ref v)
      | Some w \<Rightarrow> w < length selected \<and> \<not> protected (rk_ref (selected ! w))
          \<and> (\<forall>v\<in>set selected. protected (rk_ref v) \<or> cost v \<le> cost (selected ! w))"
  using assms
proof (induction rest arbitrary: before index worst)
  case Nil
  then show ?case by (simp split: option.splits)
next
  case (Cons v rest)
  have sel: "selected = (before @ [v]) @ rest" and idx: "index + 1 = length (before @ [v])" and at: "selected ! index = v"
    using Cons.prems(1,2) by simp_all
  show ?case
  proof (cases "protected (rk_ref v)")
    case True
    have "case worst of None \<Rightarrow> \<forall>v\<in>set (before @ [v]). protected (rk_ref v)
        | Some w \<Rightarrow> w < index + 1 \<and> \<not> protected (rk_ref (selected ! w))
          \<and> (\<forall>v\<in>set (before @ [v]). protected (rk_ref v) \<or> cost v \<le> cost (selected ! w))"
      using Cons.prems(3) True by (auto split: option.splits)
    from Cons.IH [OF sel idx this] True show ?thesis by simp
  next
    case False
    show ?thesis
    proof (cases "case worst of None \<Rightarrow> True | Some w \<Rightarrow> worse (selected ! w) v")
      case True
      then have "case Some index of None \<Rightarrow> \<forall>v\<in>set (before @ [v]). protected (rk_ref v)
          | Some w \<Rightarrow> w < index + 1 \<and> \<not> protected (rk_ref (selected ! w))
            \<and> (\<forall>v\<in>set (before @ [v]). protected (rk_ref v) \<or> cost v \<le> cost (selected ! w))"
        using Cons.prems(3) False at by (auto simp: worse_def split: option.splits)
      from Cons.IH [OF sel idx this] True False show ?thesis by simp
    next
      case not_worse: False
      then have "case worst of None \<Rightarrow> \<forall>v\<in>set (before @ [v]). protected (rk_ref v)
          | Some w \<Rightarrow> w < index + 1 \<and> \<not> protected (rk_ref (selected ! w))
            \<and> (\<forall>v\<in>set (before @ [v]). protected (rk_ref v) \<or> cost v \<le> cost (selected ! w))"
        using Cons.prems(3) False by (auto simp: worse_def split: option.splits)
      from Cons.IH [OF sel idx this] not_worse False show ?thesis by simp
    qed
  qed
qed

lemma worst_loop_start:
  "case worst_loop protected selected 0 None selected of
      None \<Rightarrow> \<forall>v\<in>set selected. protected (rk_ref v)
    | Some w \<Rightarrow> w < length selected \<and> \<not> protected (rk_ref (selected ! w))
        \<and> (\<forall>v\<in>set selected. protected (rk_ref v) \<or> cost v \<le> cost (selected ! w))"
  by (rule worst_loop_spec [where before = "[]"]) simp_all

text \<open>One step either keeps the selection or replaces its worst unprotected entry.\<close>

lemma optimize_step_cases:
  assumes "\<forall>v\<in>set S. ref_ok (rk_ref v)"
  obtains (keep) "optimize_step protected required S c = S"
  | (replace) w where "optimize_step protected required S c = S[w := c]" "w < length S"
      "\<not> protected (rk_ref (S ! w))" "rk_ref c \<notin> rk_ref ` set S"
      "improvesBy (rk_explanation c) (rk_explanation (S ! w)) required"
      "\<forall>v\<in>set S. protected (rk_ref v) \<or> cost v \<le> cost (S ! w)"
proof (cases "containsRanked S (rk_ref c)")
  case True
  then show ?thesis using keep by (simp add: optimize_step_def)
next
  case False
  then have new: "rk_ref c \<notin> rk_ref ` set S" by (simp add: containsRanked_iff [OF assms])
  show ?thesis
  proof (cases "worst_loop protected S 0 None S")
    case None
    then show ?thesis using keep by (simp add: optimize_step_def)
  next
    case (Some w)
    show ?thesis
    proof (cases "improvesBy (rk_explanation c) (rk_explanation (S ! w)) required")
      case True
      then show ?thesis
        using replace [of w] Some False new worst_loop_start [where protected = protected and selected = S] by (simp add: optimize_step_def)
    next
      case False
      then show ?thesis using keep Some by (simp add: optimize_step_def)
    qed
  qed
qed

text \<open>
  The invariant of the optimisation after the challengers \<open>P\<close>: the selection keeps its size and
  its references stay distinct; whoever left was outside its residence and left to a challenger
  that improves on it by the required margin and is still selected.
\<close>

definition displaced_by :: "ranked list \<Rightarrow> ranked list \<Rightarrow> ranked list \<Rightarrow> int \<Rightarrow> ranked \<Rightarrow> bool" where
  "displaced_by S0 S P required v \<longleftrightarrow>
     (\<exists>c\<in>set S. c \<in> set P \<and> c \<notin> set S0 \<and> improvesBy (rk_explanation c) (rk_explanation v) required)"

definition optimized :: "(ConnectionRef \<Rightarrow> bool) \<Rightarrow> int \<Rightarrow> ranked list \<Rightarrow> ranked list \<Rightarrow> ranked list \<Rightarrow> bool" where
  "optimized protected required S0 P S \<longleftrightarrow>
     length S = length S0 \<and> ranked_wf S \<and> set S \<subseteq> set S0 \<union> set P
     \<and> (\<forall>v\<in>set S0. v \<in> set S \<or> \<not> protected (rk_ref v) \<and> displaced_by S0 S P required v
          \<and> (\<forall>u\<in>set S. protected (rk_ref u) \<or> cost u \<le> cost v))"

lemma improvesBy_cost: "improvesBy c v required \<Longrightarrow> exp_AdaptiveCostNanos c < exp_AdaptiveCostNanos v"
  by (simp add: improvesBy_def)

lemma ranked_wf_update:
  assumes "ranked_wf S" "w < length S" "ref_ok (rk_ref c)" "rk_ref c \<notin> rk_ref ` set S"
  shows "ranked_wf (S[w := c])" "set (S[w := c]) = insert c (set S - {S ! w})"
proof -
  have d: "distinct S" by (rule ranked_wf_distinct [OF assms(1)])
  show sets: "set (S[w := c]) = insert c (set S - {S ! w})" by (rule set_update_distinct [OF d assms(2)])
  have "distinct (map rk_ref (S[w := c]))"
    using assms(1,2,4) unfolding ranked_wf_def map_update by (intro distinct_list_update) auto
  then show "ranked_wf (S[w := c])" using assms(1,3) sets unfolding ranked_wf_def by auto
qed

lemma optimized_step:
  assumes inv: "optimized protected required S0 P S" and wf: "ranked_wf R" and R: "R = P @ c # Q" "set S0 \<subseteq> set R"
    and costs: "sorted_wrt (\<lambda>v w. cost v \<le> cost w) R"
  shows "optimized protected required S0 (P @ [c]) (optimize_step protected required S c)"
proof -
  have S: "length S = length S0" "ranked_wf S" "set S \<subseteq> set S0 \<union> set P"
    and left: "v \<in> set S0 \<Longrightarrow> v \<notin> set S \<Longrightarrow> \<not> protected (rk_ref v) \<and> displaced_by S0 S P required v
          \<and> (\<forall>u\<in>set S. protected (rk_ref u) \<or> cost u \<le> cost v)" for v
    using inv unfolding optimized_def by auto
  have "\<forall>v\<in>set S. ref_ok (rk_ref v)" using S(2) by (simp add: ranked_wf_def)
  then show ?thesis
  proof (cases rule: optimize_step_cases [of S protected required c, consumes 1])
    case keep
    then show ?thesis using inv unfolding optimized_def displaced_by_def by auto
  next
    case (replace w)
    have c: "c \<in> set R" "ref_ok (rk_ref c)" using wf R by (auto simp: ranked_wf_def)
    note upd = ranked_wf_update [OF S(2) replace(2) c(2) replace(4)]
    have better: "cost c < cost (S ! w)" by (rule improvesBy_cost [OF replace(5)])
    have new: "c \<notin> set S0"
    proof
      assume "c \<in> set S0"
      moreover have "c \<notin> set S" using replace(4) by auto
      ultimately have "cost (S ! w) \<le> cost c" using left [of c] replace(2,3) by auto
      with better show False by simp
    qed
    have after: "cost u \<le> cost c" if "u \<in> set P" for u using costs that unfolding R(1) by (auto simp: sorted_wrt_append)
    show ?thesis unfolding optimized_def replace(1)
    proof (intro conjI ballI)
      show "length (S[w := c]) = length S0" using S(1) by simp
      show "ranked_wf (S[w := c])" by (rule upd(1))
      show "set (S[w := c]) \<subseteq> set S0 \<union> set (P @ [c])" using S(3) upd(2) by auto
      fix v assume v: "v \<in> set S0"
      show "v \<in> set (S[w := c]) \<or> \<not> protected (rk_ref v) \<and> displaced_by S0 (S[w := c]) (P @ [c]) required v
          \<and> (\<forall>u\<in>set (S[w := c]). protected (rk_ref u) \<or> cost u \<le> cost v)"
      proof (cases "v \<in> set S")
        case True
        have "\<not> protected (rk_ref v) \<and> displaced_by S0 (S[w := c]) (P @ [c]) required v
            \<and> (\<forall>u\<in>set (S[w := c]). protected (rk_ref u) \<or> cost u \<le> cost v)" if "v = S ! w"
          using that replace(3,5,6) new better unfolding upd(2) displaced_by_def by auto
        then show ?thesis using True unfolding upd(2) by blast
      next
        case False
        then obtain d where d: "d \<in> set S" "d \<in> set P" "d \<notin> set S0" "improvesBy (rk_explanation d) (rk_explanation v) required"
          and cheap: "\<not> protected (rk_ref v)" "\<forall>u\<in>set S. protected (rk_ref u) \<or> cost u \<le> cost v"
          using left [OF v] unfolding displaced_by_def by blast
        have "d \<noteq> S ! w" using after [OF d(2)] better by auto
        then have "displaced_by S0 (S[w := c]) (P @ [c]) required v" unfolding upd(2) displaced_by_def using d by auto
        moreover have "cost c \<le> cost v" using cheap(2) replace(2,3) better by (meson less_le_trans less_imp_le nth_mem)
        ultimately show ?thesis using cheap unfolding upd(2) by auto
      qed
    qed
  qed
qed

lemma optimized_fold:
  assumes "ranked_wf R" "set S0 \<subseteq> set R" "ranked_wf S0" "sorted_wrt (\<lambda>v w. cost v \<le> cost w) R"
  shows "R = P @ Q \<Longrightarrow> optimized protected required S0 P (foldl (optimize_step protected required) S0 P)"
proof (induction P arbitrary: Q rule: rev_induct)
  case Nil
  then show ?case using assms(3) by (simp add: optimized_def)
next
  case (snoc c P)
  then have "optimized protected required S0 P (foldl (optimize_step protected required) S0 P)" by simp
  from optimized_step [OF this assms(1) _ assms(2,4), of c Q] snoc.prems show ?case by simp
qed

lemma optimize_optimized:
  assumes "ranked_wf R" "set S0 \<subseteq> set R" "ranked_wf S0" "sorted_wrt (\<lambda>v w. cost v \<le> cost w) R"
  shows "optimized (resident previous policy now) (pol_RequiredImprovementPermille policy) S0 R
    (optimize S0 R previous policy now)"
  unfolding optimize_def using optimized_fold [OF assms, of R "[]"] by simp
section \<open>The chosen entries\<close>

abbreviation topN :: "Policy \<Rightarrow> nat" where
  "topN policy \<equiv> nat (pol_TopN policy)"

lemma ranked_wf_subset_length:
  assumes "ranked_wf R" "ranked_wf K" "set K \<subseteq> set R"
  shows "length (filter (\<lambda>v. rk_ref v \<notin> rk_ref ` set K) R) = length R - length K"
proof -
  have "rk_ref v \<notin> rk_ref ` set K \<longleftrightarrow> v \<notin> set K" if "v \<in> set R" for v
    using that assms(3) ranked_wf_inj [OF assms(1)] by (auto simp: image_iff)
  then have sets: "set (filter (\<lambda>v. rk_ref v \<notin> rk_ref ` set K) R) = set R - set K" by auto
  have "distinct R" "distinct K" using assms by (simp_all add: ranked_wf_distinct)
  then have "length (filter (\<lambda>v. rk_ref v \<notin> rk_ref ` set K) R) = card (set R - set K)"
    by (metis sets distinct_filter distinct_card)
  also have "\<dots> = length R - length K"
    using \<open>distinct R\<close> \<open>distinct K\<close> assms(3) by (simp add: card_Diff_subset distinct_card)
  finally show ?thesis .
qed

lemma filled_spec:
  assumes R: "ranked_wf R" and K: "ranked_wf K" "set K \<subseteq> set R" "length K \<le> topN policy"
  defines "F \<equiv> foldl (fill_step policy) K R"
  shows "ranked_wf F" "set K \<subseteq> set F" "set F \<subseteq> set R" "length F = min (topN policy) (length R)"
    "F = K @ take (topN policy - length K) (filter (\<lambda>v. rk_ref v \<notin> rk_ref ` set K) R)"
proof -
  have app: "ranked_wf (K @ filter (\<lambda>v. rk_ref v \<notin> rk_ref ` set K) R)"
    using R K(1) unfolding ranked_wf_def by (auto simp: distinct_map_filter image_iff)
  show F: "F = K @ take (topN policy - length K) (filter (\<lambda>v. rk_ref v \<notin> rk_ref ` set K) R)"
    unfolding F_def using R by (intro fill_exact app) (simp_all add: ranked_wf_def)
  have part: "set (take n (filter P R)) \<subseteq> set (filter P R)" for n P by (rule set_take_subset)
  show "ranked_wf F" unfolding F
    using app part unfolding ranked_wf_def
    by (auto simp: distinct_take take_map [symmetric] dest!: in_set_takeD)
  show "set K \<subseteq> set F" "set F \<subseteq> set R" unfolding F using K(2) part by auto
  have "length K \<le> length R" using R K(1,2)
    by (metis card_mono distinct_card List.finite_set ranked_wf_distinct)
  then show "length F = min (topN policy) (length R)"
    unfolding F using K(3) ranked_wf_subset_length [OF R K(1,2)] by simp
qed

text \<open>The incumbents that stay before new entries are considered.\<close>

definition retained :: "Policy \<Rightarrow> bool \<Rightarrow> Member list \<Rightarrow> ranked list \<Rightarrow> ranked list" where
  "retained policy usable ms R =
     (let K = List.map_filter (\<lambda>m. findRanked R (mem_Connection m)) ms
      in if pol_Strategy policy = StrategyAdaptive \<and> usable
         then (if length K > topN policy then take (topN policy) (sortRanked K (pol_Strategy policy)) else K)
         else [])"

lemma retained_spec_subset:
  assumes "ranked_wf R" "distinct_members ms"
  shows "ranked_wf (retained policy usable ms R)" "set (retained policy usable ms R) \<subseteq> set R"
    "length (retained policy usable ms R) \<le> topN policy"
proof -
  let ?K = "List.map_filter (\<lambda>m. findRanked R (mem_Connection m)) ms"
  have K: "ranked_wf ?K" "set ?K \<subseteq> set R" using retained_spec [OF assms] by auto
  let ?T = "take (topN policy) (sortRanked ?K (pol_Strategy policy))"
  have "ranked_wf (sortRanked ?K (pol_Strategy policy))" using K(1) by simp
  then have "ranked_wf ?T" unfolding ranked_wf_def by (auto simp: take_map [symmetric] dest: in_set_takeD)
  moreover have "set ?T \<subseteq> set R" using K(2) set_take_subset [of "topN policy" "sortRanked ?K (pol_Strategy policy)"] by simp
  moreover have "retained policy usable ms R \<in> {[], ?T} \<or> retained policy usable ms R = ?K \<and> length ?K \<le> topN policy"
    by (simp add: retained_def Let_def)
  moreover have "ranked_wf []" "set [] \<subseteq> set R" "length [] \<le> topN policy" by (simp_all add: ranked_wf_def)
  moreover have "length ?T \<le> topN policy" by simp
  ultimately show "ranked_wf (retained policy usable ms R)" "set (retained policy usable ms R) \<subseteq> set R"
    "length (retained policy usable ms R) \<le> topN policy"
    using K by (metis insertE singletonD)+
qed

lemma choose_ranked_selected:
  assumes "1 \<le> pol_TopN policy"
  shows "rt_selected (choose_ranked policy usable ms R reasons cs now) =
    (let F = foldl (fill_step policy) (retained policy usable ms R) R
     in if pol_Strategy policy \<noteq> StrategyAdaptive \<or> \<not> usable then take (topN policy) F
        else if length F = topN policy then optimize F R ms policy now else F)"
proof -
  have n: "int k > pol_TopN policy \<longleftrightarrow> k > topN policy" "int k = pol_TopN policy \<longleftrightarrow> k = topN policy" for k
    using assms by auto
  show ?thesis
    unfolding choose_ranked_def retained_def Let_def n by (simp add: retain_selected)
qed

lemma choose_ranked_first:
  assumes "1 \<le> pol_TopN policy" "ranked_wf R" "pol_Strategy policy \<noteq> StrategyAdaptive \<or> \<not> usable"
  shows "rt_selected (choose_ranked policy usable ms R reasons cs now) = take (topN policy) R"
proof -
  have none: "retained policy usable ms R = []" using assms(3) by (auto simp: retained_def Let_def)
  have "foldl (fill_step policy) [] R = take (topN policy) R"
    using filled_spec(5) [OF assms(2), of "[]" policy] by (simp add: ranked_wf_def)
  then show ?thesis using assms(3) unfolding choose_ranked_selected [OF assms(1)] none Let_def by simp
qed

lemma choose_ranked_adaptive:
  assumes "1 \<le> pol_TopN policy" "ranked_wf R" "distinct_members ms" "pol_Strategy policy = StrategyAdaptive" usable
    and "sorted_wrt (\<lambda>v w. cost v \<le> cost w) R"
  shows "optimized (resident ms policy now) (pol_RequiredImprovementPermille policy)
    (foldl (fill_step policy) (retained policy usable ms R) R) R (rt_selected (choose_ranked policy usable ms R reasons cs now))"
proof -
  let ?F = "foldl (fill_step policy) (retained policy usable ms R) R"
  note K = retained_spec_subset [OF assms(2,3), where policy = policy and usable = usable]
  note F = filled_spec [OF assms(2) K]
  have "optimized (resident ms policy now) (pol_RequiredImprovementPermille policy) ?F R ?F"
    using F by (auto simp: optimized_def)
  moreover have "optimized (resident ms policy now) (pol_RequiredImprovementPermille policy) ?F R (optimize ?F R ms policy now)"
    by (rule optimize_optimized [OF assms(2) F(3,1) assms(6)])
  ultimately show ?thesis using assms(4,5) unfolding choose_ranked_selected [OF assms(1)] Let_def by simp
qed

lemma choose_ranked_size:
  assumes "1 \<le> pol_TopN policy" "ranked_wf R" "distinct_members ms"
    and "pol_Strategy policy = StrategyAdaptive \<Longrightarrow> sorted_wrt (\<lambda>v w. cost v \<le> cost w) R"
  shows "ranked_wf (rt_selected (choose_ranked policy usable ms R reasons cs now))"
    "set (rt_selected (choose_ranked policy usable ms R reasons cs now)) \<subseteq> set R"
    "length (rt_selected (choose_ranked policy usable ms R reasons cs now)) = min (topN policy) (length R)"
proof -
  let ?S = "rt_selected (choose_ranked policy usable ms R reasons cs now)"
  have "ranked_wf ?S \<and> set ?S \<subseteq> set R \<and> length ?S = min (topN policy) (length R)"
  proof (cases "pol_Strategy policy = StrategyAdaptive \<and> usable")
    case False
    then have "?S = take (topN policy) R" using assms by (intro choose_ranked_first) auto
    then show ?thesis using assms(2)
      by (auto simp: ranked_wf_def take_map [symmetric] min.commute dest: in_set_takeD)
  next
    case True
    note K = retained_spec_subset [OF assms(2,3), where policy = policy and usable = usable]
    note F = filled_spec [OF assms(2) K]
    show ?thesis using choose_ranked_adaptive [OF assms(1-3) _ _ assms(4), of usable now reasons cs] True F
      by (auto simp: optimized_def)
  qed
  then show "ranked_wf ?S" "set ?S \<subseteq> set R" "length ?S = min (topN policy) (length R)" by blast+
qed
section \<open>Valid states\<close>

lemma is_ok_Reveal: "is_ok (RevealForPersistence r) \<longleftrightarrow> r \<noteq> None"
  by (auto simp: RevealForPersistence_def split: option.splits)

lemma validate_members_iff:
  "validate_members seen ms = Inr () \<longleftrightarrow>
     (\<forall>m\<in>set ms. mem_SelectedAt m \<noteq> 0 \<and> ref_ok (mem_Connection m) \<and> refKey (mem_Connection m) \<notin> set seen)
     \<and> distinct (map (refKey \<circ> mem_Connection) ms)"
  by (induction ms arbitrary: seen) (auto simp: time_IsZero_def ref_ok_def is_ok_Reveal image_iff)

lemma validate_cooldowns_iff:
  "validate_cooldowns seen cs = Inr () \<longleftrightarrow>
     (\<forall>c\<in>set cs. cool_Until c \<noteq> 0 \<and> cref_revision (cool_Connection c) \<noteq> None \<and> refKey (cool_Connection c) \<notin> set seen)
     \<and> distinct (map (refKey \<circ> cool_Connection) cs)"
  by (induction cs arbitrary: seen) (auto simp: time_IsZero_def is_ok_Reveal image_iff)

text \<open>The part of validity that an evaluation relies on: members and cooldowns are well-formed.\<close>

definition refs_valid :: "SelectionState \<Rightarrow> bool" where
  "refs_valid p \<longleftrightarrow> validate_members [] (st_Members p) = Inr () \<and> validate_cooldowns [] (st_Cooldowns p) = Inr ()"

definition previous_ok :: "SelectionState option \<Rightarrow> bool" where
  "previous_ok previous = (case previous of None \<Rightarrow> True | Some p \<Rightarrow> refs_valid p)"

definition prev_members :: "string \<Rightarrow> Context \<Rightarrow> Policy \<Rightarrow> SelectionState option \<Rightarrow> Member list" where
  "prev_members scope ctx policy previous =
     (if usable_previous scope ctx policy previous then st_Members (the previous) else [])"

definition prev_cooldowns :: "string \<Rightarrow> Context \<Rightarrow> Policy \<Rightarrow> SelectionState option \<Rightarrow> Cooldown list" where
  "prev_cooldowns scope ctx policy previous =
     (if usable_previous scope ctx policy previous then st_Cooldowns (the previous) else [])"

lemma prev_members_ok:
  assumes "previous_ok previous"
  shows "validate_members [] (prev_members scope ctx policy previous) = Inr ()"
    "validate_cooldowns [] (prev_cooldowns scope ctx policy previous) = Inr ()"
  using assms
  by (auto simp: previous_ok_def prev_members_def prev_cooldowns_def usable_previous_def refs_valid_def split: option.splits)

lemma distinct_map_comp: "distinct (map (f \<circ> g) xs) \<Longrightarrow> distinct (map g xs)"
  by (auto simp: distinct_map inj_on_def)

lemma prev_members_distinct: "previous_ok previous \<Longrightarrow> distinct_members (prev_members scope ctx policy previous)"
  using prev_members_ok unfolding validate_members_iff distinct_members_def by (blast intro: distinct_map_comp)

section \<open>What a decision is\<close>

definition Policy_ok :: "Policy \<Rightarrow> bool" where
  "Policy_ok policy \<longleftrightarrow> Policy_Validate policy = Inr ()"

lemma Policy_ok_bounds:
  assumes "Policy_ok policy"
  shows "StrategyStatic \<le> pol_Strategy policy" "pol_Strategy policy \<le> StrategyAdaptive"
    "1 \<le> pol_TopN policy" "pol_TopN policy \<le> 10000" "1 \<le> pol_MinSamples policy" "1 \<le> pol_RecoverySuccesses policy"
    "0 \<le> pol_Residence policy" "0 \<le> pol_Cooldown policy"
    "0 \<le> pol_RequiredImprovementPermille policy" "pol_RequiredImprovementPermille policy < 1000"
  using assms by (auto simp: Policy_ok_def Policy_Validate_def not_less split: if_splits)

definition ordered_candidates :: "Candidate list \<Rightarrow> Candidate list" where
  "ordered_candidates cs = sort_by candidate_less cs"

definition explain_in ::
  "string \<Rightarrow> Context \<Rightarrow> Policy \<Rightarrow> SelectionState option \<Rightarrow> instant \<Rightarrow> Candidate \<Rightarrow> Explanation" where
  "explain_in scope ctx policy previous now =
     explain ctx policy (prev_cooldowns scope ctx policy previous) (prev_members scope ctx policy previous) now"

definition base_transition :: "string \<Rightarrow> Context \<Rightarrow> Policy \<Rightarrow> SelectionState option \<Rightarrow> Transition" where
  "base_transition scope ctx policy previous =
     (if usable_previous scope ctx policy previous then TransitionUnchanged
      else if previous \<noteq> None then TransitionContextReset else TransitionInitial)"

definition Select_ready :: "string \<Rightarrow> Context \<Rightarrow> Policy \<Rightarrow> Candidate list \<Rightarrow> SelectionState option \<Rightarrow> instant \<Rightarrow> bool" where
  "Select_ready scope ctx policy candidates previous now \<longleftrightarrow>
     safeScope scope \<and> now \<noteq> 0 \<and> Policy_ok policy
     \<and> (usable_previous scope ctx policy previous \<longrightarrow> st_EvaluatedAt (the previous) \<le> now)
     \<and> distinct (map cand_identity candidates) \<and> (\<forall>c\<in>set candidates. ref_ok (cand_ref c))"

lemma Select_Inr_iff:
  "Select scope ctx policy candidates previous now = Inr d \<longleftrightarrow>
     Select_ready scope ctx policy candidates previous now
     \<and> d = decide scope ctx policy (usable_previous scope ctx policy previous) (base_transition scope ctx policy previous)
          (prev_members scope ctx policy previous) (prev_cooldowns scope ctx policy previous) now
          (ranking_of (explain_in scope ctx policy previous now) (ordered_candidates candidates))"
  unfolding Select_def Select_ready_def Let_def ordered_distinct rank_loop_exact and_then_Inr_iff Policy_ok_def
    prev_members_def [symmetric] prev_cooldowns_def [symmetric] base_transition_def [symmetric] explain_in_def
    ordered_candidates_def time_IsZero_def
  by (auto simp: and_then_Inr_iff split: if_splits)

definition ranking_in ::
  "string \<Rightarrow> Context \<Rightarrow> Policy \<Rightarrow> SelectionState option \<Rightarrow> instant \<Rightarrow> Candidate list \<Rightarrow> ranked list" where
  "ranking_in scope ctx policy previous now candidates =
     (let E = explain_in scope ctx policy previous now
      in sortRanked (map (entry_of E) (filter (eligible_by E) (ordered_candidates candidates))) (pol_Strategy policy))"

lemma ordered_candidates_set [simp]: "set (ordered_candidates cs) = set cs"
  by (simp add: ordered_candidates_def)

lemma ordered_candidates_distinct: "distinct (map cand_identity cs) \<Longrightarrow> distinct (map cand_identity (ordered_candidates cs))"
  by (simp add: ordered_candidates_def distinct_map_mset [OF mset_sort_by])

lemma ranking_in_set:
  "set (ranking_in scope ctx policy previous now candidates) =
     entry_of (explain_in scope ctx policy previous now) `
       {c \<in> set candidates. eligible_by (explain_in scope ctx policy previous now) c}"
  by (auto simp: ranking_in_def Let_def)

lemma ranking_in_wf:
  assumes "Select_ready scope ctx policy candidates previous now"
  shows "ranked_wf (ranking_in scope ctx policy previous now candidates)"
proof -
  let ?E = "explain_in scope ctx policy previous now"
  let ?cs = "filter (eligible_by ?E) (ordered_candidates candidates)"
  have ids: "distinct (map cand_identity (ordered_candidates candidates))"
    using assms by (intro ordered_candidates_distinct) (simp add: Select_ready_def)
  have "map rk_ref (map (entry_of ?E) ?cs) = map ref_of (map cand_identity ?cs)" by simp
  moreover have "distinct (map cand_identity ?cs)" by (rule distinct_map_filter [OF ids])
  ultimately have "distinct (map rk_ref (map (entry_of ?E) ?cs))" by (simp only: distinct_map [of ref_of]) (simp add: inj_on_def)
  then have "ranked_wf (map (entry_of ?E) ?cs)" using assms by (auto simp: ranked_wf_def Select_ready_def)
  then show ?thesis by (simp add: ranking_in_def Let_def)
qed

lemma ranking_in_cost:
  "pol_Strategy policy = StrategyAdaptive \<Longrightarrow>
   sorted_wrt (\<lambda>v w. cost v \<le> cost w) (ranking_in scope ctx policy previous now candidates)"
  unfolding ranking_in_def Let_def
  by (rule sorted_wrt_mono_rel [OF _ sortRanked_measure]) (auto simp: rank_measure_def strategy_defs)

definition chosen_in ::
  "string \<Rightarrow> Context \<Rightarrow> Policy \<Rightarrow> SelectionState option \<Rightarrow> instant \<Rightarrow> Candidate list \<Rightarrow> retention" where
  "chosen_in scope ctx policy previous now candidates =
     (let R = ranking_in scope ctx policy previous now candidates;
          reasons = rg_reasons (ranking_of (explain_in scope ctx policy previous now) (ordered_candidates candidates))
      in choose_ranked policy (usable_previous scope ctx policy previous) (prev_members scope ctx policy previous) R reasons
           (filter (keep_cooldown reasons R policy now) (prev_cooldowns scope ctx policy previous)) now)"

lemma Select_fields:
  assumes "Select scope ctx policy candidates previous now = Inr d"
  defines "S \<equiv> rt_selected (chosen_in scope ctx policy previous now candidates)"
  shows "dec_Selected d = map (\<lambda>v. cand_Record (rk_candidate v)) S"
    "dec_Explanations d = map (explain_in scope ctx policy previous now) (ordered_candidates candidates)"
    "st_Members (dec_Next d) = map (next_member (prev_members scope ctx policy previous) now) S"
    "st_Cooldowns (dec_Next d) = rt_cooldowns (chosen_in scope ctx policy previous now candidates)"
    "dec_Degraded d \<longleftrightarrow> int (length S) < pol_TopN policy"
    "dec_Eligible d = int (length (ranking_in scope ctx policy previous now candidates))"
    "dec_Requested d = pol_TopN policy"
    "st_Scope (dec_Next d) = scope" "st_Context (dec_Next d) = ctx"
    "st_PolicyFingerprint (dec_Next d) = policyFingerprint policy" "st_EvaluatedAt (dec_Next d) = now"
    "dec_Changed d \<longleftrightarrow> \<not> sameMembers (prev_members scope ctx policy previous) (st_Members (dec_Next d))"
    "dec_Transition d = (if S = [] then TransitionNoEligible
       else if rt_emergency (chosen_in scope ctx policy previous now candidates) \<and> dec_Changed d then TransitionEmergency
       else if dec_Changed d \<and> usable_previous scope ctx policy previous then TransitionOptimized
       else base_transition scope ctx policy previous)"
  using assms(1) unfolding Select_Inr_iff
  by (simp_all add: decide_def Let_def S_def chosen_in_def ranking_in_def ranking_of_def)

lemma chosen_in_spec:
  assumes "Select_ready scope ctx policy candidates previous now" "previous_ok previous"
  defines "S \<equiv> rt_selected (chosen_in scope ctx policy previous now candidates)"
    and "R \<equiv> ranking_in scope ctx policy previous now candidates"
  shows "ranked_wf S" "set S \<subseteq> set R" "length S = min (topN policy) (length R)"
proof -
  have "Policy_ok policy" using assms(1) by (simp add: Select_ready_def)
  note size = choose_ranked_size [OF Policy_ok_bounds(3) [OF this] ranking_in_wf [OF assms(1)]
      prev_members_distinct [OF assms(2)] ranking_in_cost]
  show "ranked_wf S" "set S \<subseteq> set R" "length S = min (topN policy) (length R)"
    unfolding S_def R_def chosen_in_def Let_def by (rule size; assumption)+
qed
section \<open>Guarantees of a decision\<close>

lemma evaluate_connection [simp]: "exp_connection (evaluate c ref ctx policy cs inc since now) = ref"
  by (simp add: evaluate_def Let_def split: option.splits)

lemma explain_connection [simp]: "exp_connection (explain_in scope ctx policy previous now c) = cand_ref c"
  by (simp add: explain_in_def explain_def split: prod.splits)

lemma next_member_connection [simp]: "mem_Connection (next_member ms now v) = rk_ref v"
  by (simp add: next_member_def Let_def)

lemma ranking_in_entry:
  assumes "v \<in> set (ranking_in scope ctx policy previous now candidates)"
  shows "rk_candidate v \<in> set candidates" "rk_ref v = cand_ref (rk_candidate v)"
    "rk_explanation v = explain_in scope ctx policy previous now (rk_candidate v)"
    "exp_Reason (rk_explanation v) = ReasonEligible"
  using assms by (auto simp: ranking_in_set eligible_by_def)

lemma ranking_in_length:
  "length (ranking_in scope ctx policy previous now candidates) =
     length (filter (\<lambda>e. exp_Reason e = ReasonEligible)
       (map (explain_in scope ctx policy previous now) (ordered_candidates candidates)))"
  by (simp add: ranking_in_def Let_def filter_map eligible_by_def [abs_def] o_def)

definition identity_of :: "ConnectionRef \<Rightarrow> Identity" where
  "identity_of r = \<lparr>id_value = cref_id r, id_revision = cref_revision r\<rparr>"

lemma identity_of_ref [simp]: "identity_of (ref_of i) = i"
  by (simp add: identity_of_def ref_of_def)

definition eligible_explanations :: "Decision \<Rightarrow> Explanation list" where
  "eligible_explanations d = filter (\<lambda>e. exp_Reason e = ReasonEligible) (dec_Explanations d)"

text \<open>
  C14. A decision selects eligible candidates only, each at most once, and as many as it can: the
  number selected is the smaller of the requested and the eligible number, and the decision is
  degraded exactly when that is less than requested. Every candidate is explained exactly once,
  and the members of the next state are the selected connections, in order.
\<close>

theorem Select_sound:
  assumes "Select scope ctx policy candidates previous now = Inr d" "previous_ok previous"
  shows "set (dec_Selected d) \<subseteq> cand_Record ` set candidates
    \<and> distinct (map Record_Identity (dec_Selected d))
    \<and> (\<forall>r\<in>set (dec_Selected d). \<exists>e\<in>set (eligible_explanations d). exp_connection e = ref_of (Record_Identity r))
    \<and> int (length (dec_Selected d)) = min (pol_TopN policy) (int (length (eligible_explanations d)))
    \<and> (dec_Degraded d \<longleftrightarrow> int (length (eligible_explanations d)) < pol_TopN policy)
    \<and> mset (map exp_connection (dec_Explanations d)) = mset (map cand_ref candidates)
    \<and> map mem_Connection (st_Members (dec_Next d)) = map (\<lambda>r. ref_of (Record_Identity r)) (dec_Selected d)"
proof -
  let ?S = "rt_selected (chosen_in scope ctx policy previous now candidates)"
  let ?R = "ranking_in scope ctx policy previous now candidates"
  have ready: "Select_ready scope ctx policy candidates previous now" using assms(1) by (simp add: Select_Inr_iff)
  then have top: "1 \<le> pol_TopN policy" using Policy_ok_bounds by (auto simp: Select_ready_def)
  note S = chosen_in_spec [OF ready assms(2)] and f = Select_fields [OF assms(1)]
  have entry: "rk_candidate v \<in> set candidates" "rk_ref v = cand_ref (rk_candidate v)"
      "rk_explanation v = explain_in scope ctx policy previous now (rk_candidate v)"
      "exp_Reason (rk_explanation v) = ReasonEligible" if "v \<in> set ?S" for v
    using ranking_in_entry [OF subsetD [OF S(2) that]] by blast+
  have "map ref_of (map Record_Identity (dec_Selected d)) = map rk_ref ?S" using entry(2) by (simp add: f)
  then have ids: "distinct (map Record_Identity (dec_Selected d))"
    using S(1) unfolding ranked_wf_def by (metis distinct_map)
  have count: "length (eligible_explanations d) = length ?R" by (simp add: eligible_explanations_def f ranking_in_length)
  have member: "set (dec_Selected d) \<subseteq> cand_Record ` set candidates" using entry(1) by (auto simp: f)
  have "\<exists>e\<in>set (eligible_explanations d). exp_connection e = ref_of (Record_Identity r)"
    if r: "r \<in> set (dec_Selected d)" for r
  proof -
    obtain v where v: "v \<in> set ?S" "r = cand_Record (rk_candidate v)" using r by (auto simp: f)
    have "rk_explanation v \<in> set (eligible_explanations d)"
      using entry [OF v(1)] by (simp add: eligible_explanations_def f)
    then show ?thesis using entry [OF v(1)] v(2) by force
  qed
  moreover have "mset (map exp_connection (dec_Explanations d)) = mset (map cand_ref candidates)"
    by (simp add: f comp_def ordered_candidates_def flip: mset_map) (simp add: mset_map)
  moreover have "map mem_Connection (st_Members (dec_Next d)) = map (\<lambda>r. ref_of (Record_Identity r)) (dec_Selected d)"
    using entry(2) by (simp add: f)
  ultimately show ?thesis using member ids S(3) count top by (auto simp: f)
qed

text \<open>
  C18. Without a usable previous state, and always for the static and lowest-latency strategies, the
  selection is the best prefix: no eligible candidate left out has a smaller latency (lowest
  latency) or a smaller risk-adjusted cost (adaptive) than one selected, or precedes one selected
  in identity order (static).
\<close>

theorem Select_best:
  assumes "Select scope ctx policy candidates previous now = Inr d"
    and "pol_Strategy policy \<noteq> StrategyAdaptive \<or> \<not> usable_previous scope ctx policy previous"
    and "e \<in> set (eligible_explanations d)" "f \<in> set (eligible_explanations d)"
    and "exp_connection e \<in> mem_Connection ` set (st_Members (dec_Next d))"
    and "exp_connection f \<notin> mem_Connection ` set (st_Members (dec_Next d))"
  shows "(pol_Strategy policy = StrategyLowestLatency \<longrightarrow> exp_MeanSuccessDuration e \<le> exp_MeanSuccessDuration f)
    \<and> (pol_Strategy policy = StrategyAdaptive \<longrightarrow> exp_AdaptiveCostNanos e \<le> exp_AdaptiveCostNanos f)
    \<and> (pol_Strategy policy = StrategyStatic \<longrightarrow>
         Identity_Compare (identity_of (exp_connection f)) (identity_of (exp_connection e)) \<ge> 0)"
proof -
  let ?R = "ranking_in scope ctx policy previous now candidates" and ?E = "explain_in scope ctx policy previous now"
  have ready: "Select_ready scope ctx policy candidates previous now" using assms(1) by (simp add: Select_Inr_iff)
  then have top: "1 \<le> pol_TopN policy" using Policy_ok_bounds by (auto simp: Select_ready_def)
  have S: "rt_selected (chosen_in scope ctx policy previous now candidates) = take (topN policy) ?R"
    unfolding chosen_in_def Let_def by (rule choose_ranked_first [OF top ranking_in_wf [OF ready] assms(2)])
  have refs: "mem_Connection ` set (st_Members (dec_Next d)) = rk_ref ` set (take (topN policy) ?R)"
    by (auto simp: Select_fields [OF assms(1)] S image_image)
  have find: "\<exists>v\<in>set ?R. rk_explanation v = g \<and> rk_ref v = exp_connection g" if g: "g \<in> set (eligible_explanations d)" for g
  proof -
    obtain c where c: "c \<in> set candidates" "g = ?E c" "eligible_by ?E c"
      using g by (auto simp: eligible_explanations_def Select_fields [OF assms(1)] eligible_by_def)
    then have "entry_of ?E c \<in> set ?R" by (auto simp: ranking_in_set)
    then show ?thesis using c by force
  qed
  obtain v w where v: "v \<in> set ?R" "rk_explanation v = e" "rk_ref v = exp_connection e"
    and w: "w \<in> set ?R" "rk_explanation w = f" "rk_ref w = exp_connection f"
    using find [OF assms(3)] find [OF assms(4)] by blast
  have "v \<in> set (take (topN policy) ?R)"
  proof -
    obtain u where u: "u \<in> set (take (topN policy) ?R)" "exp_connection e = rk_ref u" using assms(5) unfolding refs by (rule imageE)
    have "u = v" by (rule ranked_wf_inj [OF ranking_in_wf [OF ready] in_set_takeD [OF u(1)] v(1)]) (simp add: u(2) v(3))
    then show ?thesis using u(1) by simp
  qed
  moreover have "w \<in> set (drop (topN policy) ?R)"
  proof -
    have "w \<notin> set (take (topN policy) ?R)" using assms(6) unfolding refs w(3) [symmetric] by blast
    moreover have "w \<in> set (take (topN policy) ?R @ drop (topN policy) ?R)" using w(1) by simp
    ultimately show ?thesis by (simp del: append_take_drop_id)
  qed
  ultimately have "\<not> ranked_less (pol_Strategy policy) w v"
    using sorted_wrt_take_drop [OF sortRanked_sorted] unfolding ranking_in_def Let_def by blast
  moreover have "rk_identity w = identity_of (exp_connection f)" "rk_identity v = identity_of (exp_connection e)"
    unfolding v(3) [symmetric] w(3) [symmetric] ranking_in_entry(2) [OF v(1)] ranking_in_entry(2) [OF w(1)] by simp_all
  ultimately show ?thesis using v(2) w(2)
    by (auto simp: ranked_less_def rank_measure_def strategy_defs split: if_splits)
qed
section \<open>Residence and hysteresis\<close>

lemma findMember_distinct:
  assumes "distinct_members ms" "m \<in> set ms" "ref_ok (mem_Connection m)"
  shows "findMember ms (mem_Connection m) = (True, mem_SelectedAt m)"
proof -
  have "find (\<lambda>v. ConnectionRef_Equal (mem_Connection v) (mem_Connection m)) ms = Some m"
    using assms by (subst find_map_key [where f = mem_Connection and k = "mem_Connection m"])
      (auto simp: distinct_members_def ConnectionRef_Equal_iff ref_ok_def)
  then show ?thesis by (simp add: findMember_def)
qed

lemma length_map_filter: "length (List.map_filter f xs) \<le> length xs"
  by (simp add: List.map_filter_def)

lemma retained_members:
  assumes "ranked_wf R" "distinct_members ms" "length ms \<le> topN policy"
    and "pol_Strategy policy = StrategyAdaptive" usable
  shows "set (retained policy usable ms R) = {v \<in> set R. rk_ref v \<in> mem_Connection ` set ms}"
proof -
  have "\<not> length (List.map_filter (\<lambda>m. findRanked R (mem_Connection m)) ms) > topN policy"
    using assms(3) length_map_filter [of "\<lambda>m. findRanked R (mem_Connection m)" ms] by simp
  then show ?thesis using assms(4,5) retained_spec [OF assms(1,2)] by (simp add: retained_def Let_def)
qed

text \<open>
  C13. Under the adaptive strategy an incumbent that is still eligible keeps its place, with its
  selection time unchanged, unless its residence has expired and a challenger that was not a
  member took its place after improving on it by the required margin. The previous state is a
  valid one of the same scope, context and policy, and has no more members than the policy asks
  for.
\<close>

theorem Select_hysteresis:
  assumes "Select scope ctx policy candidates (Some p) now = Inr d" "refs_valid p"
    and "pol_Strategy policy = StrategyAdaptive" "usable_previous scope ctx policy (Some p)"
    and "int (length (st_Members p)) \<le> pol_TopN policy" "m \<in> set (st_Members p)"
    and "e \<in> set (eligible_explanations d)" "exp_connection e = mem_Connection m"
  shows "m \<in> set (st_Members (dec_Next d))
    \<or> mem_SelectedAt m + pol_Residence policy \<le> now
      \<and> (\<exists>c\<in>set (eligible_explanations d). improvesBy c e (pol_RequiredImprovementPermille policy)
           \<and> exp_connection c \<in> mem_Connection ` set (st_Members (dec_Next d))
           \<and> exp_connection c \<notin> mem_Connection ` set (st_Members p))"
proof -
  let ?R = "ranking_in scope ctx policy (Some p) now candidates" and ?E = "explain_in scope ctx policy (Some p) now"
  let ?S = "rt_selected (chosen_in scope ctx policy (Some p) now candidates)" and ?ms = "st_Members p"
  let ?K = "retained policy True ?ms ?R" and ?F = "foldl (fill_step policy) (retained policy True ?ms ?R) ?R"
  have ready: "Select_ready scope ctx policy candidates (Some p) now" using assms(1) by (simp add: Select_Inr_iff)
  then have top: "1 \<le> pol_TopN policy" using Policy_ok_bounds by (auto simp: Select_ready_def)
  have ok: "previous_ok (Some p)" using assms(2) by (simp add: previous_ok_def)
  have ms: "prev_members scope ctx policy (Some p) = ?ms" using assms(4) by (simp add: prev_members_def)
  have distinct: "distinct_members ?ms" using prev_members_distinct [OF ok, of scope ctx policy] by (simp add: ms)
  have valid: "mem_SelectedAt m \<noteq> 0" "ref_ok (mem_Connection m)"
    using assms(2,6) by (auto simp: refs_valid_def validate_members_iff)
  note R = ranking_in_wf [OF ready] and f = Select_fields [OF assms(1)]
  have opt: "optimized (resident ?ms policy now) (pol_RequiredImprovementPermille policy) ?F ?R ?S"
    unfolding chosen_in_def Let_def ms using assms(4)
    by (simp add: choose_ranked_adaptive [OF top R distinct assms(3) _ ranking_in_cost [OF assms(3)]])
  have K: "set ?K = {v \<in> set ?R. rk_ref v \<in> mem_Connection ` set ?ms}"
    using assms(5) top by (intro retained_members R distinct assms(3)) auto
  have KF: "set ?K \<subseteq> set ?F"
    by (rule filled_spec(2) [OF R retained_spec_subset [OF R distinct]])
  obtain c where c: "c \<in> set candidates" "e = ?E c" "eligible_by ?E c"
    using assms(7) by (auto simp: eligible_explanations_def f eligible_by_def)
  then have v: "entry_of ?E c \<in> set ?R" "rk_ref (entry_of ?E c) = mem_Connection m" "rk_explanation (entry_of ?E c) = e"
    using assms(8) by (auto simp: ranking_in_set)
  then have vF: "entry_of ?E c \<in> set ?F" using K KF assms(6) by auto
  have since: "findMember ?ms (mem_Connection m) = (True, mem_SelectedAt m)"
    by (rule findMember_distinct [OF distinct assms(6) valid(2)])
  show ?thesis
  proof (cases "entry_of ?E c \<in> set ?S")
    case True
    have "next_member ?ms now (entry_of ?E c) = m"
      using v(2) since valid(1) by (simp add: next_member_def time_IsZero_def)
    then have "m \<in> set (st_Members (dec_Next d))" using True by (force simp: f ms)
    then show ?thesis by simp
  next
    case False
    then obtain w where w: "w \<in> set ?S" "w \<in> set ?R" "w \<notin> set ?F"
        "improvesBy (rk_explanation w) e (pol_RequiredImprovementPermille policy)"
      and free: "\<not> resident ?ms policy now (mem_Connection m)"
      using opt vF v(2,3) unfolding optimized_def displaced_by_def by metis
    have "rk_explanation w \<in> set (eligible_explanations d)" "exp_connection (rk_explanation w) = rk_ref w"
      using ranking_in_entry [OF w(2)] by (simp_all add: eligible_explanations_def f)
    moreover have "rk_ref w \<in> mem_Connection ` set (st_Members (dec_Next d))" using w(1) by (force simp: f)
    moreover have "rk_ref w \<notin> mem_Connection ` set ?ms" using w(2,3) K KF by blast
    moreover have "mem_SelectedAt m + pol_Residence policy \<le> now"
      using free valid(1) by (simp add: resident_def since time_IsZero_def time_Add_def)
    ultimately show ?thesis using w(4) by (intro disjI2 conjI bexI [of _ "rk_explanation w"]) simp_all
  qed
qed

text \<open>
  The margin is exact: on eligible entries it compares the rational risk-adjusted latencies, with
  no rounding, and demands a strictly smaller integer cost.
\<close>

lemma improvesBy_ratio:
  assumes "0 < exp_ConfidencePPM c" "0 < exp_ConfidencePPM e"
  shows "improvesBy c e required \<longleftrightarrow>
    (of_int (exp_MeanSuccessDuration c) / of_int (exp_ConfidencePPM c) :: rat)
      \<le> of_int (exp_MeanSuccessDuration e) / of_int (exp_ConfidencePPM e) * (of_int (1000 - required) / 1000)
    \<and> exp_AdaptiveCostNanos c < exp_AdaptiveCostNanos e"
proof -
  have "(of_int (exp_MeanSuccessDuration c) / of_int (exp_ConfidencePPM c) :: rat)
      \<le> of_int (exp_MeanSuccessDuration e) / of_int (exp_ConfidencePPM e) * (of_int (1000 - required) / 1000)
    \<longleftrightarrow> (of_int (exp_MeanSuccessDuration c * exp_ConfidencePPM e * 1000) :: rat)
      \<le> of_int (exp_MeanSuccessDuration e * exp_ConfidencePPM c * (1000 - required))"
    using assms by (simp add: field_simps)
  then show ?thesis by (simp only: improvesBy_def of_int_le_iff)
qed
section \<open>Cooldowns\<close>

definition stored_ref :: "ConnectionRef \<Rightarrow> bool" where
  "stored_ref r \<longleftrightarrow> ref_ok r \<and> (\<exists>v. cref_revision r = Some v \<and> length v = 32)"

lemma ID_String_ok: "ID_String i \<noteq> ''<invalid-endpoint-id>'' \<Longrightarrow> ID_String i = i"
  by (auto simp: ID_String_def split: if_splits)

lemma refKey_inj: "stored_ref r \<Longrightarrow> stored_ref s \<Longrightarrow> refKey r = refKey s \<longleftrightarrow> r = s"
proof -
  assume "stored_ref r" "stored_ref s"
  then obtain v w where v: "cref_revision r = Some v" "length v = 32" "ID_String (cref_id r) = cref_id r"
    and w: "cref_revision s = Some w" "length w = 32" "ID_String (cref_id s) = cref_id s"
    by (auto simp: stored_ref_def ref_ok_def ID_String_ok)
  then have "refKey r = refKey s \<longleftrightarrow> cref_id r = cref_id s \<and> v = w" by (simp add: refKey_def revealed_def)
  then show "refKey r = refKey s \<longleftrightarrow> r = s" using v w by (auto intro: ConnectionRef.equality)
qed

lemma cand_ref_stored: "ref_ok (cand_ref c) \<Longrightarrow> stored_ref (cand_ref c)"
  by (cases "Configuration_valid (rec_configuration (cand_Record c))")
    (auto simp: stored_ref_def ref_ok_def ref_of_def Record_Identity_def Configuration_Identity_valid Configuration_Identity_def)

lemma upsertCooldown_set: "set (upsertCooldown cs v) \<subseteq> insert v (set cs)" "v \<in> set (upsertCooldown cs v)"
  by (induction cs) auto

lemma upsertCooldown_keep:
  "c \<in> set cs \<Longrightarrow> cool_Connection c \<noteq> cool_Connection v \<Longrightarrow> c \<in> set (upsertCooldown cs v)"
  by (induction cs) (auto simp: ConnectionRef_Equal_iff)

lemma upsertCooldown_connections:
  assumes "cref_revision (cool_Connection v) \<noteq> None"
  shows "map cool_Connection (upsertCooldown cs v) =
    (if cool_Connection v \<in> cool_Connection ` set cs then map cool_Connection cs
     else map cool_Connection cs @ [cool_Connection v])"
  using assms by (induction cs) (auto simp: ConnectionRef_Equal_iff)

lemma upsertCooldown_distinct:
  assumes "cref_revision (cool_Connection v) \<noteq> None" "distinct (map cool_Connection cs)"
  shows "distinct (map cool_Connection (upsertCooldown cs v))"
  unfolding upsertCooldown_connections [OF assms(1)] using assms(2) by auto

definition failing :: "ranked list \<Rightarrow> (string \<times> Reason) list \<Rightarrow> Member \<Rightarrow> bool" where
  "failing R reasons m \<longleftrightarrow> findRanked R (mem_Connection m) = None
     \<and> map_of reasons (refKey (mem_Connection m)) \<in> {Some ReasonFailureStreak, Some ReasonUnreliable}"

definition cooled :: "Policy \<Rightarrow> instant \<Rightarrow> Member \<Rightarrow> Cooldown" where
  "cooled policy now m = \<lparr>cool_Connection = mem_Connection m, cool_Until = time_Add now (pol_Cooldown policy)\<rparr>"

lemma retain_cooldowns:
  "rt_cooldowns (foldl (retain_step R reasons policy now) acc ms) =
     foldl upsertCooldown (rt_cooldowns acc) (map (cooled policy now) (filter (failing R reasons) ms))"
proof (induction ms arbitrary: acc)
  case (Cons m ms)
  then show ?case
    by (cases "findRanked R (mem_Connection m)") (simp_all add: retain_step_def Let_def failing_def cooled_def)
qed simp

lemma upsert_fold_distinct:
  "\<forall>v\<in>set vs. cref_revision (cool_Connection v) \<noteq> None \<Longrightarrow> distinct (map cool_Connection cs) \<Longrightarrow>
   distinct (map cool_Connection (foldl upsertCooldown cs vs))"
  by (induction vs arbitrary: cs) (auto intro!: upsertCooldown_distinct)

lemma upsert_fold_subset: "set (foldl upsertCooldown cs vs) \<subseteq> set cs \<union> set vs"
proof (induction vs arbitrary: cs)
  case (Cons v vs)
  have "set (foldl upsertCooldown cs (v # vs)) \<subseteq> set (upsertCooldown cs v) \<union> set vs" using Cons by simp
  then show ?case using upsertCooldown_set(1) [of cs v] by auto
qed simp

lemma upsert_fold_keep:
  "c \<in> set cs \<Longrightarrow> cool_Connection c \<notin> cool_Connection ` set vs \<Longrightarrow> c \<in> set (foldl upsertCooldown cs vs)"
  by (induction vs arbitrary: cs) (auto intro: upsertCooldown_keep)

lemma upsert_fold_new:
  "distinct (map cool_Connection vs) \<Longrightarrow> v \<in> set vs \<Longrightarrow> v \<in> set (foldl upsertCooldown cs vs)"
proof (induction vs arbitrary: cs)
  case (Cons w vs)
  show ?case
  proof (cases "v \<in> set vs")
    case True
    then show ?thesis using Cons by simp
  next
    case False
    then have "v = w" using Cons.prems(2) by simp
    moreover have "w \<in> set (foldl upsertCooldown (upsertCooldown cs w) vs)"
      using Cons.prems(1) by (intro upsert_fold_keep upsertCooldown_set(2)) auto
    ultimately show ?thesis by simp
  qed
qed simp

lemma choose_ranked_cooldowns:
  "rt_cooldowns (choose_ranked policy usable ms R reasons cs now) =
     (if pol_Strategy policy = StrategyAdaptive \<and> usable
      then foldl upsertCooldown cs (map (cooled policy now) (filter (failing R reasons) ms)) else cs)"
  by (simp add: choose_ranked_def Let_def retain_cooldowns)

lemma reasons_lookup:
  assumes "distinct (map cand_identity cs)" "\<forall>c\<in>set cs. ref_ok (cand_ref c)" "c \<in> set cs"
  shows "map_of (rg_reasons (ranking_of E cs)) (refKey (cand_ref c)) = Some (exp_Reason (E c))"
proof -
  have inj: "inj_on (\<lambda>c. refKey (cand_ref c)) (set cs)"
  proof (rule inj_onI)
    fix a b assume ab: "a \<in> set cs" "b \<in> set cs" "refKey (cand_ref a) = refKey (cand_ref b)"
    then have "cand_ref a = cand_ref b" using assms(2) by (subst (asm) refKey_inj) (auto intro: cand_ref_stored)
    then have "cand_identity a = cand_identity b" by simp
    with ab(1,2) assms(1) show "a = b" by (auto simp: distinct_map dest: inj_onD)
  qed
  have "distinct (map fst (rg_reasons (ranking_of E cs)))"
    using inj assms(1) by (auto simp: ranking_of_def rev_map [symmetric] distinct_map o_def dest: distinct_map_comp)
  then show ?thesis using assms(3) by (intro map_of_is_SomeI) (auto simp: ranking_of_def)
qed

lemma reasons_present:
  "map_of (rg_reasons (ranking_of E cs)) k = None \<longleftrightarrow> k \<notin> (\<lambda>c. refKey (cand_ref c)) ` set cs"
  by (auto simp: map_of_eq_None_iff ranking_of_def image_image)

lemma evaluate_cooldown:
  assumes "exp_Reason (evaluate c ref ctx policy cs inc since now) = ReasonEligible" "findCooldown cs ref = Some k"
  shows "cool_Until k \<le> now \<and> (\<exists>s. cand_Evidence c = Some s \<and> pol_RecoverySuccesses policy \<le> sum_ConsecutiveSuccesses s)"
  using assms by (auto simp: evaluate_def Let_def split: option.splits if_splits)

lemma findCooldown_Some:
  assumes "distinct (map cool_Connection cs)" "k \<in> set cs" "cref_revision (cool_Connection k) \<noteq> None"
  shows "findCooldown cs (cool_Connection k) = Some k"
  using assms unfolding findCooldown_def
  by (subst find_map_key [where f = cool_Connection and k = "cool_Connection k"]) (auto simp: ConnectionRef_Equal_iff)
lemma State_cooldowns:
  assumes "refs_valid p"
  shows "distinct (map cool_Connection (st_Cooldowns p))" "k \<in> set (st_Cooldowns p) \<Longrightarrow> cref_revision (cool_Connection k) \<noteq> None"
  using assms by (auto simp: refs_valid_def validate_cooldowns_iff intro: distinct_map_comp)

lemma ranking_in_eligible:
  assumes "Select_ready scope ctx policy candidates previous now" "v \<in> set (ranking_in scope ctx policy previous now candidates)"
    and "c \<in> set candidates" "rk_ref v = cand_ref c"
  shows "eligible_by (explain_in scope ctx policy previous now) c"
proof -
  have "cand_identity (rk_candidate v) = cand_identity c" using ranking_in_entry(2) [OF assms(2)] assms(4) by simp
  moreover have "rk_candidate v \<in> set candidates" by (rule ranking_in_entry(1) [OF assms(2)])
  ultimately have "rk_candidate v = c" using assms(1,3) by (auto simp: Select_ready_def distinct_map dest: inj_onD)
  then show ?thesis using ranking_in_entry(3,4) [OF assms(2)] by (simp add: eligible_by_def)
qed

lemma chosen_cooldowns_keep:
  assumes "Select scope ctx policy candidates previous now = Inr d" "k \<in> set (prev_cooldowns scope ctx policy previous)"
    and "keep_cooldown (rg_reasons (ranking_of (explain_in scope ctx policy previous now) (ordered_candidates candidates)))
      (ranking_in scope ctx policy previous now candidates) policy now k"
  shows "\<exists>k'\<in>set (st_Cooldowns (dec_Next d)). cool_Connection k' = cool_Connection k"
proof -
  have keep: "\<exists>k'\<in>set (foldl upsertCooldown cs vs). cool_Connection k' = cool_Connection k" if "k \<in> set cs" for cs vs
    using that
  proof (induction vs arbitrary: cs rule: rev_induct)
    case (snoc v vs)
    then obtain k' where k': "k' \<in> set (foldl upsertCooldown cs vs)" "cool_Connection k' = cool_Connection k" by blast
    then show ?case using upsertCooldown_keep [OF k'(1), of v] upsertCooldown_set(2) by (cases "cool_Connection v = cool_Connection k") auto
  qed auto
  show ?thesis
    unfolding Select_fields(4) [OF assms(1)] chosen_in_def Let_def choose_ranked_cooldowns
    using keep assms(2,3) by auto
qed

text \<open>
  C16. Cooldowns hold. A connection whose cooldown is still running is not selected; one whose
  cooldown has expired is selected only with the required run of recent successes; and as long
  as the connection is in the inventory its cooldown is dropped only after such a recovery.
\<close>

theorem Select_respects_cooldowns:
  assumes "Select scope ctx policy candidates (Some p) now = Inr d" "refs_valid p"
    and "usable_previous scope ctx policy (Some p)" "k \<in> set (st_Cooldowns p)"
    and "c \<in> set candidates" "cand_ref c = cool_Connection k"
    and "cool_Connection k \<in> mem_Connection ` set (st_Members (dec_Next d))
      \<or> cool_Connection k \<notin> cool_Connection ` set (st_Cooldowns (dec_Next d))"
  shows "cool_Until k \<le> now
    \<and> (\<exists>s. cand_Evidence c = Some s \<and> pol_RecoverySuccesses policy \<le> sum_ConsecutiveSuccesses s)"
proof -
  let ?R = "ranking_in scope ctx policy (Some p) now candidates" and ?E = "explain_in scope ctx policy (Some p) now"
  let ?reasons = "rg_reasons (ranking_of ?E (ordered_candidates candidates))"
  have ready: "Select_ready scope ctx policy candidates (Some p) now" using assms(1) by (simp add: Select_Inr_iff)
  have ok: "previous_ok (Some p)" using assms(2) by (simp add: previous_ok_def)
  have cs: "prev_cooldowns scope ctx policy (Some p) = st_Cooldowns p" using assms(3) by (simp add: prev_cooldowns_def)
  note R = ranking_in_wf [OF ready] and f = Select_fields [OF assms(1)]
  have found: "findCooldown (st_Cooldowns p) (cand_ref c) = Some k"
    unfolding assms(6) by (rule findCooldown_Some [OF State_cooldowns(1) [OF assms(2)] assms(4) State_cooldowns(2) [OF assms(2,4)]])
  have "eligible_by ?E c"
  proof (cases "cool_Connection k \<in> mem_Connection ` set (st_Members (dec_Next d))")
    case True
    then obtain v where v: "v \<in> set ?R" "rk_ref v = cool_Connection k"
      using chosen_in_spec(2) [OF ready ok] by (auto simp: f)
    then show ?thesis using ranking_in_eligible [OF ready v(1) assms(5)] assms(6) by simp
  next
    case False
    then have "\<not> keep_cooldown ?reasons ?R policy now k"
      using assms(4,7) chosen_cooldowns_keep [OF assms(1), of k] cs by (metis image_eqI)
    moreover have "map_of ?reasons (refKey (cool_Connection k)) \<noteq> None"
      using assms(5,6) by (auto simp: reasons_present intro: rev_image_eqI)
    ultimately obtain v where "findRanked ?R (cool_Connection k) = Some v" by (auto simp: keep_cooldown_def split: option.splits)
    then have v: "v \<in> set ?R" "rk_ref v = cool_Connection k" using findRanked_Some_iff [OF R] by auto
    then show ?thesis using ranking_in_eligible [OF ready v(1) assms(5)] assms(6) by simp
  qed
  then have "exp_Reason (evaluate c (cand_ref c) ctx policy (st_Cooldowns p)
      (fst (findMember (prev_members scope ctx policy (Some p)) (cand_ref c)))
      (snd (findMember (prev_members scope ctx policy (Some p)) (cand_ref c))) now) = ReasonEligible"
    by (simp add: eligible_by_def explain_in_def explain_def cs case_prod_beta)
  from evaluate_cooldown [OF this found] show ?thesis .
qed

text \<open>
  C17. Under the adaptive strategy an incumbent that became unreliable or hit its failure streak
  leaves the selection and is put on cooldown from the time of the evaluation.
\<close>

theorem Select_cools_failures:
  assumes "Select scope ctx policy candidates (Some p) now = Inr d" "refs_valid p"
    and "pol_Strategy policy = StrategyAdaptive" "usable_previous scope ctx policy (Some p)"
    and "m \<in> set (st_Members p)" "e \<in> set (dec_Explanations d)" "exp_connection e = mem_Connection m"
    and "exp_Reason e \<in> {ReasonFailureStreak, ReasonUnreliable}"
  shows "\<lparr>cool_Connection = mem_Connection m, cool_Until = now + pol_Cooldown policy\<rparr> \<in> set (st_Cooldowns (dec_Next d))
    \<and> mem_Connection m \<notin> mem_Connection ` set (st_Members (dec_Next d))"
proof -
  let ?R = "ranking_in scope ctx policy (Some p) now candidates" and ?E = "explain_in scope ctx policy (Some p) now"
  let ?reasons = "rg_reasons (ranking_of ?E (ordered_candidates candidates))" and ?ms = "st_Members p"
  have ready: "Select_ready scope ctx policy candidates (Some p) now" using assms(1) by (simp add: Select_Inr_iff)
  have ok: "previous_ok (Some p)" using assms(2) by (simp add: previous_ok_def)
  have ms: "prev_members scope ctx policy (Some p) = ?ms" using assms(4) by (simp add: prev_members_def)
  have distinct: "distinct_members ?ms" using prev_members_distinct [OF ok, of scope ctx policy] by (simp add: ms)
  note R = ranking_in_wf [OF ready] and f = Select_fields [OF assms(1)]
  obtain c where c: "c \<in> set candidates" "e = ?E c" "cand_ref c = mem_Connection m"
    using assms(6,7) by (auto simp: f)
  have unranked: "v \<notin> set ?R" if "rk_ref v = mem_Connection m" for v
  proof
    assume v: "v \<in> set ?R"
    from ranking_in_eligible [OF ready this c(1)] show False using that assms(8) c(2,3) by (auto simp: eligible_by_def)
  qed
  have "findRanked ?R (mem_Connection m) = None"
    using findRanked_Some_iff [OF R, of "mem_Connection m"] unranked by (cases "findRanked ?R (mem_Connection m)") auto
  moreover have "map_of ?reasons (refKey (cand_ref c)) = Some (exp_Reason e)"
    unfolding c(2) using ready c(1) by (intro reasons_lookup ordered_candidates_distinct) (auto simp: Select_ready_def)
  ultimately have "failing ?R ?reasons m" using assms(8) c(3) by (auto simp: failing_def)
  then have "cooled policy now m \<in> set (map (cooled policy now) (filter (failing ?R ?reasons) ?ms))" using assms(5) by auto
  moreover have "distinct (map cool_Connection (map (cooled policy now) (filter (failing ?R ?reasons) ?ms)))"
    using distinct unfolding distinct_members_def by (simp add: cooled_def [abs_def] o_def distinct_map_filter)
  ultimately have "cooled policy now m \<in> set (st_Cooldowns (dec_Next d))"
    unfolding f(4) chosen_in_def Let_def choose_ranked_cooldowns using assms(3,4) by (simp add: ms upsert_fold_new)
  moreover have "mem_Connection m \<notin> mem_Connection ` set (st_Members (dec_Next d))"
    using chosen_in_spec(2) [OF ready ok] unranked by (auto simp: f)
  ultimately show ?thesis by (simp add: cooled_def time_Add_def)
qed
section \<open>The next state is valid\<close>

definition state_stored :: "SelectionState \<Rightarrow> bool" where
  "state_stored s \<longleftrightarrow> (\<forall>m\<in>set (st_Members s). stored_ref (mem_Connection m))
     \<and> (\<forall>k\<in>set (st_Cooldowns s). stored_ref (cool_Connection k))"

lemma refKey_distinct:
  assumes "distinct (map f xs)" "\<forall>x\<in>set xs. stored_ref (f x)"
  shows "distinct (map (refKey \<circ> f) xs)"
  using assms refKey_inj by (auto simp: distinct_map inj_on_def)

lemma Select_next_members:
  assumes "Select scope ctx policy candidates previous now = Inr d" "previous_ok previous"
  shows "validate_members [] (st_Members (dec_Next d)) = Inr ()"
    "\<forall>m\<in>set (st_Members (dec_Next d)). stored_ref (mem_Connection m)"
    "int (length (st_Members (dec_Next d))) \<le> pol_TopN policy"
proof -
  let ?S = "rt_selected (chosen_in scope ctx policy previous now candidates)"
  have ready: "Select_ready scope ctx policy candidates previous now" using assms(1) by (simp add: Select_Inr_iff)
  then have top: "1 \<le> pol_TopN policy" using Policy_ok_bounds by (auto simp: Select_ready_def)
  note S = chosen_in_spec [OF ready assms(2)] and f = Select_fields [OF assms(1)]
  have stored: "stored_ref (rk_ref v)" if "v \<in> set ?S" for v
  proof -
    have v: "v \<in> set (ranking_in scope ctx policy previous now candidates)" using that S(2) by blast
    have "ref_ok (cand_ref (rk_candidate v))" using ready ranking_in_entry(1) [OF v] by (simp add: Select_ready_def)
    then show ?thesis unfolding ranking_in_entry(2) [OF v] by (rule cand_ref_stored)
  qed
  show all: "\<forall>m\<in>set (st_Members (dec_Next d)). stored_ref (mem_Connection m)" using stored by (auto simp: f)
  have "distinct (map mem_Connection (st_Members (dec_Next d)))"
    using S(1) by (simp add: f ranked_wf_def o_def)
  then have "distinct (map (refKey \<circ> mem_Connection) (st_Members (dec_Next d)))" by (rule refKey_distinct [OF _ all])
  moreover have "mem_SelectedAt (next_member ms now v) \<noteq> 0" for ms v
    using ready by (simp add: next_member_def Let_def time_IsZero_def Select_ready_def)
  ultimately show "validate_members [] (st_Members (dec_Next d)) = Inr ()"
    using all by (auto simp: validate_members_iff f stored_ref_def)
  show "int (length (st_Members (dec_Next d))) \<le> pol_TopN policy" using S(3) top by (simp add: f)
qed

lemma Select_next_cooldowns:
  assumes "Select scope ctx policy candidates previous now = Inr d" "previous_ok previous" "0 < now"
    and "case previous of None \<Rightarrow> True | Some p \<Rightarrow> state_stored p"
  shows "validate_cooldowns [] (st_Cooldowns (dec_Next d)) = Inr ()"
    "\<forall>k\<in>set (st_Cooldowns (dec_Next d)). stored_ref (cool_Connection k)"
proof -
  let ?ms = "prev_members scope ctx policy previous" and ?cs = "prev_cooldowns scope ctx policy previous"
  let ?R = "ranking_in scope ctx policy previous now candidates"
  let ?reasons = "rg_reasons (ranking_of (explain_in scope ctx policy previous now) (ordered_candidates candidates))"
  define kept where "kept = filter (keep_cooldown ?reasons ?R policy now) ?cs"
  define fresh where "fresh = map (cooled policy now) (filter (failing ?R ?reasons) ?ms)"
  have ready: "Select_ready scope ctx policy candidates previous now" using assms(1) by (simp add: Select_Inr_iff)
  have cool: "0 \<le> pol_Cooldown policy" using ready Policy_ok_bounds by (auto simp: Select_ready_def)
  have prev: "\<forall>m\<in>set ?ms. stored_ref (mem_Connection m)" "\<forall>k\<in>set ?cs. stored_ref (cool_Connection k)"
    using assms(4) by (auto simp: prev_members_def prev_cooldowns_def state_stored_def usable_previous_def split: option.splits)
  have old: "\<forall>k\<in>set ?cs. cool_Until k \<noteq> 0" "distinct (map cool_Connection ?cs)"
    using prev_members_ok(2) [OF assms(2), of scope ctx policy] by (auto simp: validate_cooldowns_iff intro: distinct_map_comp)
  have new: "\<forall>k\<in>set fresh. cool_Until k \<noteq> 0 \<and> stored_ref (cool_Connection k)"
    using prev(1) assms(3) cool by (auto simp: fresh_def cooled_def time_Add_def)
  let ?out = "st_Cooldowns (dec_Next d)"
  have cases: "?out = kept \<or> ?out = foldl upsertCooldown kept fresh"
    unfolding Select_fields(4) [OF assms(1)] chosen_in_def Let_def choose_ranked_cooldowns kept_def fresh_def by simp
  have kept: "set kept \<subseteq> set ?cs" "distinct (map cool_Connection kept)"
    using old(2) by (auto simp: kept_def distinct_map_filter)
  from cases have sub: "set ?out \<subseteq> set kept \<union> set fresh" using upsert_fold_subset [of kept fresh] by auto
  then show stored: "\<forall>k\<in>set ?out. stored_ref (cool_Connection k)" using kept(1) prev(2) new by blast
  have until: "\<forall>k\<in>set ?out. cool_Until k \<noteq> 0" using sub kept(1) old(1) new by blast
  have "distinct (map cool_Connection (foldl upsertCooldown kept fresh))"
    using new kept(2) by (intro upsert_fold_distinct) (auto simp: stored_ref_def)
  then have "distinct (map cool_Connection ?out)" using cases kept(2) by auto
  then have "distinct (map (refKey \<circ> cool_Connection) ?out)" by (rule refKey_distinct [OF _ stored])
  then show "validate_cooldowns [] ?out = Inr ()"
    using stored until by (auto simp: validate_cooldowns_iff stored_ref_def)
qed

text \<open>
  States committed by a sequence of evaluations, whatever the scope, context, policy and inventory
  of each one.
\<close>

inductive committed :: "SelectionState option \<Rightarrow> bool" where
  committed_start: "committed None"
| committed_step: "committed previous \<Longrightarrow> 0 < now \<Longrightarrow>
    is_ok (NewContext (ctx_Target ctx) (ctx_Vantage ctx) (ctx_Kind ctx) (ctx_Profile ctx)) \<Longrightarrow>
    Select scope ctx policy candidates previous now = Inr d \<Longrightarrow> committed (Some (dec_Next d))"

definition committed_inv :: "SelectionState \<Rightarrow> bool" where
  "committed_inv p \<longleftrightarrow> refs_valid p \<and> state_stored p \<and> 0 < st_EvaluatedAt p \<and> safeScope (st_Scope p)
     \<and> is_ok (NewContext (ctx_Target (st_Context p)) (ctx_Vantage (st_Context p)) (ctx_Kind (st_Context p)) (ctx_Profile (st_Context p)))"

lemma committed_invariant:
  "committed previous \<Longrightarrow> (case previous of None \<Rightarrow> True | Some p \<Rightarrow> committed_inv p)"
proof (induction rule: committed.induct)
  case committed_start
  then show ?case by simp
next
  case (committed_step previous now ctx scope policy candidates d)
  have ok: "previous_ok previous" and stored: "case previous of None \<Rightarrow> True | Some p \<Rightarrow> state_stored p"
    using committed_step.IH by (auto simp: previous_ok_def committed_inv_def split: option.splits)
  have "safeScope scope" using committed_step.hyps(4) by (simp add: Select_Inr_iff Select_ready_def)
  moreover note Select_fields(8-11) [OF committed_step.hyps(4)]
  moreover note Select_next_members [OF committed_step.hyps(4) ok]
  moreover note Select_next_cooldowns [OF committed_step.hyps(4) ok committed_step.hyps(2) stored]
  ultimately show ?case using committed_step.hyps(2,3)
    by (simp add: committed_inv_def refs_valid_def state_stored_def)
qed

lemma State_Validate_committed:
  assumes "committed_inv p"
  shows "State_Validate p = (if list_all (\<lambda>c. c = byte 0) (st_PolicyFingerprint p)
    then Inl ''invalid selection policy fingerprint'' else Inr ())"
  using assms by (auto simp: State_Validate_def committed_inv_def refs_valid_def is_ok_iff time_IsZero_def)

text \<open>
  C15. Every state committed by a sequence of evaluations passes the state validator, so a stored
  state is accepted when it is read back, and the next evaluation keeps it so. The one possible
  objection is a policy whose SHA-256 fingerprint is all zero. A committed state never has more
  members than its policy requests, and carries the time of its evaluation.
\<close>

theorem committed_states_valid:
  assumes "committed previous" "0 < now"
    and "is_ok (NewContext (ctx_Target ctx) (ctx_Vantage ctx) (ctx_Kind ctx) (ctx_Profile ctx))"
    and "Select scope ctx policy candidates previous now = Inr d"
  shows "State_Validate (dec_Next d) =
      (if list_all (\<lambda>c. c = byte 0) (policyFingerprint policy) then Inl ''invalid selection policy fingerprint'' else Inr ())
    \<and> int (length (st_Members (dec_Next d))) \<le> pol_TopN policy
    \<and> st_EvaluatedAt (dec_Next d) = now \<and> committed (Some (dec_Next d))"
proof -
  have again: "committed (Some (dec_Next d))" using assms by (intro committed_step)
  have ok: "previous_ok previous"
    using committed_invariant [OF assms(1)] by (auto simp: previous_ok_def committed_inv_def split: option.splits)
  have "committed_inv (dec_Next d)" using committed_invariant [OF again] by simp
  from State_Validate_committed [OF this] Select_next_members(3) [OF assms(4) ok] again Select_fields(10,11) [OF assms(4)]
  show ?thesis by simp
qed

section \<open>Determinism\<close>

lemma candidate_total: "inj_on cand_identity A \<Longrightarrow> strict_total candidate_less (\<lambda>c. c \<in> A)"
proof unfold_locales
  fix x y assume "inj_on cand_identity A" "x \<in> A" "y \<in> A" "\<not> candidate_less x y" "\<not> candidate_less y x"
  then show "x = y" using identity_order.total by (auto simp: candidate_less_iff dest: inj_onD)
next
  fix x y z
  show "candidate_less x y \<Longrightarrow> \<not> candidate_less y x" using candidate_order.asym by blast
  show "\<not> candidate_less y x \<Longrightarrow> \<not> candidate_less z y \<Longrightarrow> \<not> candidate_less z x" using candidate_order.weak_trans by blast
qed

text \<open>
  C20. The decision does not depend on the order of the inventory: permuting the candidates gives
  the same decision, the same next state or the same error.
\<close>

theorem Select_permutation:
  assumes "mset candidates = mset candidates'"
  shows "Select scope ctx policy candidates previous now = Select scope ctx policy candidates' previous now"
proof (cases "distinct (map cand_identity candidates)")
  case True
  then have "inj_on cand_identity (set candidates)" by (simp add: distinct_map)
  from strict_total.sort_by_permutation [OF candidate_total [OF this] _ assms]
  have "sort_by candidate_less candidates = sort_by candidate_less candidates'" by (simp add: list_all_iff)
  then show ?thesis unfolding Select_def by (simp only:)
next
  case False
  then have "\<not> distinct (map cand_identity candidates')" using distinct_map_mset [OF assms] by blast
  with False show ?thesis unfolding Select_def Let_def ordered_distinct by (simp only: if_True not_False_eq_True)
qed
section \<open>Confidence and cost\<close>

lemma float_sub_le: "0 \<le> x \<Longrightarrow> 0 \<le> s \<Longrightarrow> round64 x = x \<Longrightarrow> float_sub x s \<le> x"
  using round64_mono [of "x - s" x] round64_nonpos [of "x - s"] by (cases "s \<le> x") (auto simp: float_sub_def)

lemma wilson_z_nonneg: "0 \<le> wilson_z"
  by (simp add: wilson_z_def)

lemma math_Round_bounds: "0 \<le> x \<Longrightarrow> x \<le> of_int n \<Longrightarrow> 0 \<le> math_Round x \<and> math_Round x \<le> n"
  by (auto simp: math_Round_def floor_le_iff)

text \<open>The lower confidence bound is a number of parts per million.\<close>

lemma wilsonLowerPPM_bounds:
  assumes "samples < 2 ^ 52"
  shows "0 \<le> wilsonLowerPPM successes samples \<and> wilsonLowerPPM successes samples \<le> 1000000"
proof (cases "samples \<le> 0 \<or> successes < 0 \<or> successes > samples")
  case True
  then show ?thesis by (auto simp: wilsonLowerPPM_def)
next
  case False
  define n p z2 where "n = float_of_int samples" "p = float_div (float_of_int successes) (float_of_int samples)"
    "z2 = float_mul wilson_z wilson_z"
  define x s den where "x = float_add p (float_div z2 (float_mul 2 n))"
    "s = float_mul wilson_z (sqrt64 (float_add (float_div (float_mul p (float_sub 1 p)) n) (float_div z2 (float_mul (float_mul 4 n) n))))"
    "den = float_add 1 (float_div z2 n)"
  have n: "n = of_int samples" "0 < n" using False assms by (simp_all add: n_p_z2_def float_of_int_small)
  have p: "0 \<le> p" "p \<le> 1" using ratio_bounds [of successes samples] False assms by (simp_all add: n_p_z2_def)
  have z2: "0 \<le> z2" by (simp add: n_p_z2_def float_mul_def wilson_z_nonneg)
  have "round64 (of_int (2 * samples)) = of_int (2 * samples)"
    using float_of_int_small [of "2 * samples"] assms False by (simp add: float_of_int_def)
  then have twice: "float_mul 2 n = 2 * n" by (simp add: float_mul_def n(1))
  have "z2 / (2 * n) \<le> z2 / n" using z2 n(2) by (intro divide_left_mono) simp_all
  then have ab: "float_div z2 (float_mul 2 n) \<le> float_div z2 n" "0 \<le> float_div z2 (float_mul 2 n)"
    unfolding twice float_div_def using z2 n(2) by (intro round64_mono, simp_all)
  then have xden: "x \<le> den" unfolding x_s_den_def float_add_def using p by (intro round64_mono) simp_all
  have "round64 1 \<le> den" unfolding x_s_den_def float_add_def
    using ab by (intro round64_mono) linarith+
  then have den: "1 \<le> den" by simp
  have x: "0 \<le> x" "round64 x = x" using p ab by (simp_all add: x_s_den_def float_add_def round64_idem)
  have s: "0 \<le> s" by (simp add: x_s_den_def float_mul_def wilson_z_nonneg)
  have num: "float_sub x s \<le> den" using float_sub_le [OF x(1) s x(2)] xden by linarith
  define lower where "lower = float_div (float_sub x s) den"
  have "lower \<le> 1"
  proof (cases "0 \<le> float_sub x s")
    case True
    have "round64 (float_sub x s / den) \<le> round64 1" using True num den by (intro round64_mono) (simp_all add: divide_le_eq)
    then show ?thesis by (simp add: lower_def float_div_def)
  next
    case False
    then have "float_sub x s / den \<le> 0" using den by (simp add: divide_nonpos_pos)
    then show ?thesis using round64_nonpos [of "float_sub x s / den"] by (simp add: lower_def float_div_def)
  qed
  define clipped where "clipped = (if lower < 0 then 0 else lower)"
  have c: "0 \<le> clipped" "clipped \<le> 1" using \<open>lower \<le> 1\<close> by (simp_all add: clipped_def)
  have "round64 1000000 = 1000000" using round64_of_nat [of 1000000] by simp
  then have "float_mul clipped 1000000 \<le> of_int 1000000"
    using round64_mono [of "clipped * 1000000" 1000000] c by (simp add: float_mul_def)
  moreover have "0 \<le> float_mul clipped 1000000" using c by (simp add: float_mul_def)
  ultimately have "0 \<le> math_Round (float_mul clipped 1000000) \<and> math_Round (float_mul clipped 1000000) \<le> 1000000"
    by (intro math_Round_bounds)
  moreover have "wilsonLowerPPM successes samples = math_Round (float_mul clipped 1000000)"
    using False by (simp add: wilsonLowerPPM_def Let_def clipped_def lower_def x_s_den_def n_p_z2_def)
  ultimately show ?thesis by simp
qed

lemma riskCost_exact:
  assumes "0 < d" "d \<le> 2 * minute" "0 < confidence" "confidence \<le> 1000000"
  shows "riskCost d confidence = \<lceil>(of_int (d * 1000000) / of_int confidence :: rat)\<rceil>"
proof -
  have "in_int64 (d * 1000000)" "in_int64 (d * 1000000 + confidence - 1)"
    using assms by (simp_all add: in_int64_def min_int64_def max_int64_def minute_def)
  then have r: "riskCost d confidence = (d * 1000000 + confidence - 1) div confidence"
    using assms by (simp add: riskCost_def Let_def wrap64_id sdiv_nonneg)
  define z where "z = (d * 1000000 + confidence - 1) div confidence"
  have "z * confidence \<le> d * 1000000 + confidence - 1" "d * 1000000 + confidence - 1 < z * confidence + confidence"
    using pos_mod_bound [OF assms(3), of "d * 1000000 + confidence - 1"] pos_mod_sign [OF assms(3), of "d * 1000000 + confidence - 1"]
      div_mult_mod_eq [of "d * 1000000 + confidence - 1" confidence] unfolding z_def by linarith+
  then have "(z - 1) * confidence < d * 1000000" "d * 1000000 \<le> z * confidence" by (simp_all add: algebra_simps)
  then have "(of_int ((z - 1) * confidence) :: rat) < of_int (d * 1000000)" "(of_int (d * 1000000) :: rat) \<le> of_int (z * confidence)"
    by (simp_all only: of_int_less_iff of_int_le_iff)
  then have "\<lceil>(of_int (d * 1000000) / of_int confidence :: rat)\<rceil> = z"
    using assms(3) by (intro ceiling_unique) (simp_all add: less_divide_eq divide_le_eq)
  then show ?thesis by (simp add: r z_def)
qed
text \<open>
  C21. A candidate is eligible exactly when its evidence is for this context and this revision, is
  fresh, has enough samples and successes, no failure streak and a positive latency, any cooldown
  has expired with the required recovery, and the confidence bound is positive. Its confidence is
  then between 1 and 1000000 parts per million and its cost is the exact ceiling of the latency
  divided by that confidence, without overflow. The evidence is a summary with numbers such as
  the summariser produces: no more successes than samples, fewer than \<open>2 ^ 50\<close> samples and a mean of at
  most two minutes; and the policy asks for at least one sample.
\<close>

theorem evaluate_eligible:
  assumes "sum_MeanSuccessDuration s \<le> 2 * minute" "0 \<le> sum_Successes s" "sum_Successes s \<le> sum_Samples s" "sum_Samples s < 2 ^ 50"
    and "cand_Evidence c = Some s" "1 \<le> pol_MinSamples policy"
    and e_def: "e = evaluate c ref ctx policy cooldowns incumbent since now"
  shows "(exp_Reason e = ReasonEligible \<longleftrightarrow>
      Context_Matches ctx (sum_Key s) \<and> ConnectionRef_Equal (key_connection (sum_Key s)) ref \<and> sum_Fresh s
      \<and> pol_MinSamples policy \<le> sum_Samples s
      \<and> pol_MinSuccessPermille policy \<le> sum_Successes s * 1000 div sum_Samples s
      \<and> sum_ConsecutiveFailures s < pol_FailureStreak policy \<and> sum_Successes s \<noteq> 0 \<and> 0 < sum_MeanSuccessDuration s
      \<and> (\<forall>k. findCooldown cooldowns ref = Some k \<longrightarrow>
            cool_Until k \<le> now \<and> pol_RecoverySuccesses policy \<le> sum_ConsecutiveSuccesses s)
      \<and> 0 < wilsonLowerPPM (sum_Successes s) (sum_Samples s))
    \<and> (exp_Reason e = ReasonEligible \<longrightarrow>
        0 < exp_ConfidencePPM e \<and> exp_ConfidencePPM e \<le> 1000000
        \<and> exp_AdaptiveCostNanos e = \<lceil>(of_int (exp_MeanSuccessDuration e * 1000000) / of_int (exp_ConfidencePPM e) :: rat)\<rceil>)"
proof -
  have ppm: "wilsonLowerPPM (sum_Successes s) (sum_Samples s) \<le> 1000000"
    using wilsonLowerPPM_bounds assms(4) by simp
  have wrap: "wrap64 (sum_Successes s * 1000) = sum_Successes s * 1000"
    using assms(2-4) by (intro wrap64_id) (simp add: in_int64_def min_int64_def max_int64_def)
  have permille: "0 < sum_Samples s \<Longrightarrow> wrap64 (sum_Successes s * 1000) sdiv sum_Samples s = sum_Successes s * 1000 div sum_Samples s"
    using assms(2) by (simp add: wrap sdiv_nonneg)
  have "exp_Reason e = ReasonEligible \<longleftrightarrow>
      Context_Matches ctx (sum_Key s) \<and> ConnectionRef_Equal (key_connection (sum_Key s)) ref \<and> sum_Fresh s
      \<and> pol_MinSamples policy \<le> sum_Samples s
      \<and> pol_MinSuccessPermille policy \<le> sum_Successes s * 1000 div sum_Samples s
      \<and> sum_ConsecutiveFailures s < pol_FailureStreak policy \<and> sum_Successes s \<noteq> 0 \<and> 0 < sum_MeanSuccessDuration s
      \<and> (\<forall>k. findCooldown cooldowns ref = Some k \<longrightarrow>
            cool_Until k \<le> now \<and> pol_RecoverySuccesses policy \<le> sum_ConsecutiveSuccesses s)
      \<and> 0 < wilsonLowerPPM (sum_Successes s) (sum_Samples s)"
    using assms(5,6) permille unfolding e_def evaluate_def Let_def
    by (cases "findCooldown cooldowns ref") (auto simp: not_less not_le split: if_splits)
  moreover have "exp_ConfidencePPM e = wilsonLowerPPM (sum_Successes s) (sum_Samples s)
      \<and> 0 < exp_ConfidencePPM e \<and> 0 < exp_MeanSuccessDuration e \<and> exp_MeanSuccessDuration e \<le> 2 * minute
      \<and> exp_AdaptiveCostNanos e = riskCost (exp_MeanSuccessDuration e) (exp_ConfidencePPM e)" if "exp_Reason e = ReasonEligible"
    using that assms(1,5) unfolding e_def evaluate_def Let_def
    by (cases "findCooldown cooldowns ref") (auto simp: not_less not_le split: if_splits)
  ultimately show ?thesis using riskCost_exact [of "exp_MeanSuccessDuration e" "exp_ConfidencePPM e"] ppm by auto
qed

section \<open>Stability\<close>

lemma sort_by_map: "sort_by lt (map f xs) = map f (sort_by (\<lambda>x y. lt (f x) (f y)) xs)"
proof -
  have "insert_by lt (f x) (map f xs) = map f (insert_by (\<lambda>x y. lt (f x) (f y)) x xs)" for x xs
    by (induction xs) auto
  then show ?thesis by (induction xs) auto
qed

lemma evaluate_no_cooldowns:
  "evaluate c ref ctx policy [] inc' since' now' =
     (evaluate c ref ctx policy [] inc since now)
       \<lparr>exp_Incumbent := inc', exp_ResidenceActive := inc' \<and> now' < time_Add since' (pol_Residence policy)\<rparr>"
  by (simp add: evaluate_def findCooldown_def Let_def split: option.splits)

lemma explain_no_cooldowns:
  "\<exists>a b. explain ctx policy [] ms now' c = (explain ctx policy [] [] now c)\<lparr>exp_Incumbent := a, exp_ResidenceActive := b\<rparr>"
  unfolding explain_def Let_def case_prod_beta by (intro exI) (rule evaluate_no_cooldowns)

lemma ranking_no_cooldowns:
  fixes E E' :: "Candidate \<Rightarrow> Explanation"
  assumes "\<And>c. \<exists>a b. E' c = (E c)\<lparr>exp_Incumbent := a, exp_ResidenceActive := b\<rparr>"
  shows "\<exists>L. sortRanked (map (entry_of E) (filter (eligible_by E) cs)) strategy = map (entry_of E) L
    \<and> sortRanked (map (entry_of E') (filter (eligible_by E') cs)) strategy = map (entry_of E') L"
proof -
  have same: "exp_Reason (E' c) = exp_Reason (E c)" "exp_MeanSuccessDuration (E' c) = exp_MeanSuccessDuration (E c)"
      "exp_AdaptiveCostNanos (E' c) = exp_AdaptiveCostNanos (E c)" for c
    using assms [of c] by auto
  have "eligible_by E' = eligible_by E" by (auto simp: eligible_by_def same)
  moreover have "ranked_less strategy (entry_of E' x) (entry_of E' y) = ranked_less strategy (entry_of E x) (entry_of E y)" for x y
    by (simp add: ranked_less_def rank_measure_def same)
  ultimately show ?thesis unfolding sortRanked_def sort_by_map by auto
qed

lemma optimize_step_keeps:
  assumes "\<forall>v\<in>set S. ref_ok (rk_ref v)" "rk_ref c \<in> rk_ref ` set S \<or> (\<forall>v\<in>set S. cost v \<le> cost c)"
  shows "optimize_step protected required S c = S"
  using assms(1)
proof (cases rule: optimize_step_cases [of S protected required c, consumes 1])
  case (replace w)
  then have "cost c < cost (S ! w)" "S ! w \<in> set S" using improvesBy_cost by auto
  with assms(2) replace(4) show ?thesis by fastforce
qed

lemma optimize_keeps_best:
  assumes "ranked_wf R" "sorted_wrt (\<lambda>v w. cost v \<le> cost w) R"
  shows "optimize (take n R) R ms policy now = take n R"
proof -
  have ok: "\<forall>v\<in>set (take n R). ref_ok (rk_ref v)" using assms(1) by (auto simp: ranked_wf_def dest: in_set_takeD)
  have step: "optimize_step protected required (take n R) c = take n R" if "c \<in> set R" for c protected required
  proof (rule optimize_step_keeps [OF ok])
    have "c \<in> set (take n R) \<or> c \<in> set (drop n R)" using that by (metis Un_iff append_take_drop_id set_append)
    then show "rk_ref c \<in> rk_ref ` set (take n R) \<or> (\<forall>v\<in>set (take n R). cost v \<le> cost c)"
      using sorted_wrt_take_drop [OF assms(2)] by blast
  qed
  have "foldl (optimize_step protected required) (take n R) vs = take n R" if "set vs \<subseteq> set R" for vs protected required
    using that by (induction vs) (auto simp: step)
  then show ?thesis by (simp add: optimize_def)
qed

lemma choose_ranked_again:
  assumes "1 \<le> pol_TopN policy" "ranked_wf R" "map mem_Connection ms = map rk_ref (take (topN policy) R)"
    and "pol_Strategy policy = StrategyAdaptive \<Longrightarrow> sorted_wrt (\<lambda>v w. cost v \<le> cost w) R"
  shows "rt_selected (choose_ranked policy usable ms R reasons cs now) = take (topN policy) R"
proof (cases "pol_Strategy policy = StrategyAdaptive \<and> usable")
  case False
  then show ?thesis by (intro choose_ranked_first assms) simp
next
  case True
  let ?T = "take (topN policy) R"
  have "List.map_filter (\<lambda>m. findRanked R (mem_Connection m)) ms = List.map_filter (findRanked R) (map mem_Connection ms)"
    by (simp add: List.map_filter_def filter_map o_def)
  also have "\<dots> = List.map_filter (\<lambda>v. findRanked R (rk_ref v)) ?T"
    unfolding assms(3) by (simp add: List.map_filter_def filter_map o_def)
  also have "\<dots> = ?T"
  proof -
    have "findRanked R (rk_ref v) = Some v" if "v \<in> set ?T" for v
      using in_set_takeD [OF that] by (simp add: findRanked_Some_iff [OF assms(2)])
    then show ?thesis by (simp add: List.map_filter_def map_idI cong: filter_cong map_cong)
  qed
  finally have K: "retained policy usable ms R = ?T" using True by (simp add: retained_def Let_def)
  have wf: "ranked_wf ?T" using assms(2) by (auto simp: ranked_wf_def take_map [symmetric] dest: in_set_takeD)
  have "foldl (fill_step policy) ?T R = ?T @ take (topN policy - length ?T) (filter (\<lambda>v. rk_ref v \<notin> rk_ref ` set ?T) R)"
    by (rule filled_spec(5) [OF assms(2) wf set_take_subset]) simp
  also have "\<dots> = ?T"
  proof (cases "topN policy \<le> length R")
    case False
    then have "?T = R" by simp
    then show ?thesis by (simp add: filter_empty_conv)
  qed simp
  finally have F: "foldl (fill_step policy) ?T R = ?T" .
  show ?thesis
    unfolding choose_ranked_selected [OF assms(1)] K Let_def F
    using True optimize_keeps_best [OF assms(2) assms(4)] by (simp del: length_take)
qed

text \<open>
  C19. The selector does not flap: evaluating again with the same candidates, at the same or a later
  time, from the state that a first evaluation committed, selects the same records and reports no
  change.
\<close>

theorem Select_stable:
  assumes "Select scope ctx policy candidates None now = Inr d" "now \<le> now'" "now' \<noteq> 0"
    and "contextsEqual ctx ctx"
  shows "\<exists>d'. Select scope ctx policy candidates (Some (dec_Next d)) now' = Inr d'
    \<and> dec_Selected d' = dec_Selected d \<and> \<not> dec_Changed d'
    \<and> dec_Transition d' = (if dec_Selected d = [] then TransitionNoEligible else TransitionUnchanged)"
proof -
  let ?p = "dec_Next d" and ?E = "explain_in scope ctx policy None now" and ?E' = "explain_in scope ctx policy (Some (dec_Next d)) now'"
  let ?R = "ranking_in scope ctx policy None now candidates" and ?R' = "ranking_in scope ctx policy (Some (dec_Next d)) now' candidates"
  have ready: "Select_ready scope ctx policy candidates None now" using assms(1) by (simp add: Select_Inr_iff)
  then have top: "1 \<le> pol_TopN policy" using Policy_ok_bounds by (auto simp: Select_ready_def)
  note f = Select_fields [OF assms(1)]
  have none: "prev_members scope ctx policy None = []" "prev_cooldowns scope ctx policy None = []"
    by (simp_all add: prev_members_def prev_cooldowns_def usable_previous_def)
  have usable: "usable_previous scope ctx policy (Some ?p)" using assms(4) by (simp add: usable_previous_def f)
  have "st_Cooldowns ?p = []" by (simp add: f chosen_in_def Let_def choose_ranked_cooldowns none usable_previous_def)
  then have prev: "prev_cooldowns scope ctx policy (Some ?p) = []" "prev_members scope ctx policy (Some ?p) = st_Members ?p"
    using usable by (simp_all add: prev_cooldowns_def prev_members_def)
  have ready': "Select_ready scope ctx policy candidates (Some ?p) now'"
    using ready assms(2,3) by (simp add: Select_ready_def f)
  then obtain d' where d': "Select scope ctx policy candidates (Some ?p) now' = Inr d'" by (simp add: Select_Inr_iff)
  note f' = Select_fields [OF d']
  have "\<exists>a b. ?E' c = (?E c)\<lparr>exp_Incumbent := a, exp_ResidenceActive := b\<rparr>" for c
    unfolding explain_in_def none prev by (rule explain_no_cooldowns)
  from ranking_no_cooldowns [of ?E' ?E, OF this] obtain L where L: "?R = map (entry_of ?E) L" "?R' = map (entry_of ?E') L"
    unfolding ranking_in_def Let_def by blast
  have S: "rt_selected (chosen_in scope ctx policy None now candidates) = take (topN policy) ?R"
    unfolding chosen_in_def Let_def by (intro choose_ranked_first top ranking_in_wf ready) (simp add: usable_previous_def)
  have refs: "map mem_Connection (st_Members ?p) = map rk_ref (take (topN policy) ?R')"
    unfolding f(3) S L by (simp add: take_map o_def)
  have S': "rt_selected (chosen_in scope ctx policy (Some ?p) now' candidates) = take (topN policy) ?R'"
    unfolding chosen_in_def Let_def prev
    by (rule choose_ranked_again [OF top ranking_in_wf [OF ready'] refs ranking_in_cost])
  have selected: "dec_Selected d' = dec_Selected d" unfolding f'(1) f(1) S S' L by (simp add: take_map o_def)
  have "map mem_Connection (st_Members (dec_Next d')) = map mem_Connection (st_Members ?p)"
    unfolding refs f'(3) S' by (simp add: o_def)
  moreover have "\<forall>r\<in>set (map mem_Connection (st_Members ?p)). ref_ok r"
    using ranking_in_wf [OF ready'] unfolding refs ranked_wf_def by (auto dest: in_set_takeD)
  ultimately have same: "sameMembers (st_Members ?p) (st_Members (dec_Next d'))"
    unfolding sameMembers_def list_all2_conv_all_nth ConnectionRef_Equal_iff ref_ok_def
    by (metis (no_types, lifting) length_map nth_map nth_mem)
  then have "\<not> dec_Changed d'" unfolding f'(12) prev by simp
  moreover from this have "dec_Transition d' = (if dec_Selected d = [] then TransitionNoEligible else TransitionUnchanged)"
    unfolding f'(13) selected [symmetric] f'(1) by (simp add: base_transition_def usable)
  ultimately show ?thesis using d' selected by blast
qed

end
