(* ===== verification/Selection_Examples.thy ===== *)
theory Selection_Examples
  imports Selection
begin

text \<open>
  A worked selection: two connections with identifiers of different versions, their evidence and
  a committed state. The theorems of the selector are applied to it, so that their hypotheses are
  seen to hold together.
\<close>

section \<open>Confidence of three successes\<close>

text \<open>The bound for three successes out of three, operation by operation.\<close>

lemma wilsonLowerPPM_3_3: "wilsonLowerPPM 3 3 = 438494"
proof -
  note ev = pow2_def
  have n: "float_of_int 3 = 3" by (simp add: float_of_int_small)
  have p: "float_div 3 3 = 1" "float_sub 1 1 = 0" "float_mul 1 0 = 0" "float_div 0 3 = 0"
    by (simp_all add: float_div_def float_sub_def float_mul_def)
  have z: "wilson_z = 8827055269646172 * pow2 (- 52)"
    unfolding wilson_z_def using round64_eval [of "- 52" "49 / 25" 8827055269646172] by (simp add: ev)
  have z2: "float_mul (8827055269646172 * pow2 (- 52)) (8827055269646172 * pow2 (- 52)) = 8650514164253248 * pow2 (- 51)"
    unfolding float_mul_def
    using round64_eval [of "- 51" "8827055269646172 * pow2 (- 52) * (8827055269646172 * pow2 (- 52))" 8650514164253248] by (simp add: ev)
  have small: "float_mul 2 3 = 6" "float_mul 4 3 = 12" "float_mul 12 3 = 36"
    using round64_of_nat [of 6] round64_of_nat [of 12] round64_of_nat [of 36] by (simp_all add: float_mul_def)
  have a: "float_div (8650514164253248 * pow2 (- 51)) 6 = 5767009442835499 * pow2 (- 53)"
    unfolding float_div_def using round64_eval [of "- 53" "8650514164253248 * pow2 (- 51) / 6" 5767009442835499] by (simp add: ev)
  have x: "float_add 1 (5767009442835499 * pow2 (- 53)) = 7387104348788246 * pow2 (- 52)"
    unfolding float_add_def using round64_eval_tie [of "- 52" "1 + 5767009442835499 * pow2 (- 53)" 7387104348788246] by (simp add: ev)
  have q: "float_div (8650514164253248 * pow2 (- 51)) 36 = 7689345923780665 * pow2 (- 56)"
    unfolding float_div_def using round64_eval [of "- 56" "8650514164253248 * pow2 (- 51) / 36" 7689345923780665] by (simp add: ev)
  have rad: "float_add 0 (7689345923780665 * pow2 (- 56)) = 7689345923780665 * pow2 (- 56)"
    unfolding float_add_def using round64_eval [of "- 56" "7689345923780665 * pow2 (- 56)" 7689345923780665] by (simp add: ev)
  have root: "sqrt64 (7689345923780665 * pow2 (- 56)) = 5884703513097448 * pow2 (- 54)"
    using sqrt64_eval [of "- 4" "7689345923780665 * pow2 (- 56)" "- 54" "7689345923780665 * pow2 (- 56) / (pow2 (- 54) * pow2 (- 54))" 5884703513097447]
    by (simp add: ev power_divide)
  have zs: "float_mul (8827055269646172 * pow2 (- 52)) (5884703513097448 * pow2 (- 54)) = 5767009442835499 * pow2 (- 53)"
    unfolding float_mul_def
    using round64_eval [of "- 53" "8827055269646172 * pow2 (- 52) * (5884703513097448 * pow2 (- 54))" 5767009442835499] by (simp add: ev)
  have num: "float_sub (7387104348788246 * pow2 (- 52)) (5767009442835499 * pow2 (- 53)) = 1"
    unfolding float_sub_def
    using round64_eval_tie [of "- 52" "7387104348788246 * pow2 (- 52) - 5767009442835499 * pow2 (- 53)" 4503599627370496] by (simp add: ev)
  have b: "float_div (8650514164253248 * pow2 (- 51)) 3 = 5767009442835499 * pow2 (- 52)"
    unfolding float_div_def using round64_eval [of "- 52" "8650514164253248 * pow2 (- 51) / 3" 5767009442835499] by (simp add: ev)
  have den: "float_add 1 (5767009442835499 * pow2 (- 52)) = 5135304535102998 * pow2 (- 51)"
    unfolding float_add_def using round64_eval_tie [of "- 51" "1 + 5767009442835499 * pow2 (- 52)" 5135304535102998] by (simp add: ev)
  have lower: "float_div 1 (5135304535102998 * pow2 (- 51)) = 7899204210776127 * pow2 (- 54)"
    unfolding float_div_def using round64_eval [of "- 54" "1 / (5135304535102998 * pow2 (- 51))" 7899204210776127] by (simp add: ev)
  have scaled: "float_mul (7899204210776127 * pow2 (- 54)) 1000000 = 7533268175865294 * pow2 (- 34)"
    unfolding float_mul_def using round64_eval [of "- 34" "7899204210776127 * pow2 (- 54) * 1000000" 7533268175865294] by (simp add: ev)
  have "math_Round (7533268175865294 * pow2 (- 34)) = 438494" unfolding math_Round_def ev by (simp add: floor_unique)
  moreover have "\<not> pow2 (- 54) < 0" by (simp add: not_less)
  ultimately show ?thesis
    unfolding wilsonLowerPPM_def Let_def n p z2 small a x q rad z root zs num b den lower
    by (simp add: scaled mult_less_0_iff)
qed
section \<open>Two connections and their evidence\<close>

definition sample_websocket :: Configuration where
  "sample_websocket = sample_configuration\<lparr>cfg_transport :=
     \<lparr>tr_kind = TransportWebSocket, tr_webSocketPath = Some ''/ws'', tr_webSocketHost = ''h.example'', tr_advanced = None\<rparr>\<rparr>"

definition record_a :: Record where "record_a = sample_record ''s1'' [''one'']"
definition record_b :: Record where "record_b = record_a\<lparr>rec_configuration := sample_websocket\<rparr>"

definition example_ctx :: Context where
  "example_ctx = \<lparr>ctx_Target = key_target sample_key, ctx_Vantage = key_vantage sample_key,
     ctx_Kind = key_kind sample_key, ctx_Profile = key_profile sample_key\<rparr>"

definition example_summary :: "Record \<Rightarrow> duration \<Rightarrow> Summary" where
  "example_summary r mean =
     \<lparr>sum_Key = sample_key\<lparr>key_connection := ref_of (Record_Identity r)\<rparr>, sum_Samples = 3, sum_Successes = 3,
      sum_SuccessRatio = 1, sum_Latest = None, sum_LatestSuccess = None, sum_MeanSuccessDuration = mean,
      sum_ConsecutiveSuccesses = 3, sum_ConsecutiveFailures = 0, sum_Fresh = True\<rparr>"

definition example_candidate :: "Record \<Rightarrow> duration \<Rightarrow> Candidate" where
  "example_candidate r mean = \<lparr>cand_Record = r, cand_Evidence = Some (example_summary r mean)\<rparr>"

abbreviation ref_a :: ConnectionRef where "ref_a \<equiv> ref_of (Record_Identity record_a)"
abbreviation ref_b :: ConnectionRef where "ref_b \<equiv> ref_of (Record_Identity record_b)"

abbreviation example_policy :: Policy where "example_policy \<equiv> DefaultPolicy StrategyAdaptive"

definition example_state :: "Member list \<Rightarrow> Cooldown list \<Rightarrow> SelectionState" where
  "example_state ms cs = \<lparr>st_Scope = ''pool'', st_Context = example_ctx, st_PolicyFingerprint = policyFingerprint example_policy,
     st_EvaluatedAt = unix_epoch, st_Members = ms, st_Cooldowns = cs\<rparr>"

definition example_now :: instant where "example_now = unix_epoch + hour"

lemma example_valid: "Configuration_valid (rec_configuration record_a)" "Configuration_valid (rec_configuration record_b)"
  by code_simp+

lemma example_versions:
  "version_prefix (rec_configuration record_a) = ''ef1_''" "version_prefix (rec_configuration record_b) = ''ef2_''"
  by code_simp+

lemma example_identities:
  "\<exists>x. Record_Identity record_a = \<lparr>id_value = ''ef1_'' @ x, id_revision = Some (sha256 (canonicalConfiguration (rec_configuration record_a) True))\<rparr>"
  "\<exists>x. Record_Identity record_b = \<lparr>id_value = ''ef2_'' @ x, id_revision = Some (sha256 (canonicalConfiguration (rec_configuration record_b) True))\<rparr>"
  unfolding Record_Identity_def Configuration_Identity_valid [OF example_valid(1)] Configuration_Identity_valid [OF example_valid(2)]
    example_versions by blast+

lemma example_refs: "ref_a \<noteq> ref_b" "ref_ok ref_a" "ref_ok ref_b" "stored_ref ref_a" "stored_ref ref_b"
  using example_identities by (auto simp: ref_of_def ref_ok_def ID_String_def stored_ref_def)

lemma example_ids: "Record_Identity record_a \<noteq> Record_Identity record_b"
  using example_refs(1) by simp

lemma example_policy_ok: "Policy_ok example_policy"
  unfolding Policy_ok_def by code_simp

lemma example_context: "is_ok (NewContext (ctx_Target example_ctx) (ctx_Vantage example_ctx) (ctx_Kind example_ctx) (ctx_Profile example_ctx))"
  "contextsEqual example_ctx example_ctx"
  by (simp_all add: example_ctx_def sample_key_def NewContext_def TargetRevision_Reveal_def contextsEqual_def TargetRef_Equal_def TargetRevision_Equal_def)

lemma example_usable: "usable_previous ''pool'' example_ctx example_policy (Some (example_state ms cs))"
  by (simp add: usable_previous_def example_state_def example_context)

lemma example_now_pos: "0 < example_now" "example_now \<noteq> 0" "unix_epoch \<le> example_now"
  by (simp_all add: example_now_def unix_epoch_def hour_def)

lemma example_ready:
  assumes "set candidates \<subseteq> {example_candidate record_a m, example_candidate record_b n}" "distinct (map cand_identity candidates)"
  shows "Select_ready ''pool'' example_ctx example_policy candidates None example_now"
    "Select_ready ''pool'' example_ctx example_policy candidates (Some (example_state ms cs)) example_now"
proof -
  have "safeScope ''pool''" by code_simp
  moreover have "\<forall>c\<in>set candidates. ref_ok (cand_ref c)"
    using assms(1) example_refs by (auto simp: example_candidate_def)
  ultimately show "Select_ready ''pool'' example_ctx example_policy candidates None example_now"
    "Select_ready ''pool'' example_ctx example_policy candidates (Some (example_state ms cs)) example_now"
    using assms(2) example_policy_ok example_now_pos
    by (simp_all add: Select_ready_def usable_previous_def example_state_def)
qed

lemma example_eligible:
  assumes "0 < mean" "findCooldown cs (ref_of (Record_Identity r)) = None" "ref_ok (ref_of (Record_Identity r))"
  shows "exp_Reason (evaluate (example_candidate r mean) (ref_of (Record_Identity r)) example_ctx example_policy cs inc since now)
    = ReasonEligible"
proof -
  have "wrap64 3000 sdiv 3 = 1000" by code_simp
  then show ?thesis using assms
    by (simp add: evaluate_def example_candidate_def example_summary_def Context_Matches_def example_ctx_def sample_key_def
      TargetRef_Equal_def TargetRevision_Equal_def ConnectionRef_Equal_iff ref_ok_def DefaultPolicy_def wilsonLowerPPM_3_3 Let_def)
qed

lemma example_pair: "distinct (map cand_identity [example_candidate record_a m, example_candidate record_b n])"
  using example_ids by (simp add: example_candidate_def)
section \<open>The theorems on the example\<close>

abbreviation example_pool :: "Candidate list" where
  "example_pool \<equiv> [example_candidate record_a second, example_candidate record_b (500 * millisecond)]"

lemma example_pool_ready:
  "Select_ready ''pool'' example_ctx example_policy example_pool None example_now"
  "Select_ready ''pool'' example_ctx example_policy example_pool (Some (example_state ms cs)) example_now"
  by (rule example_ready [where m = second and n = "500 * millisecond", OF _ example_pair]; simp)+

lemma example_candidate_identity [simp]: "cand_identity (example_candidate r m) = Record_Identity r"
  by (simp add: example_candidate_def)

lemma example_explain:
  assumes "c \<in> set example_pool" "findCooldown (prev_cooldowns ''pool'' example_ctx example_policy previous) (cand_ref c) = None"
  shows "exp_Reason (explain_in ''pool'' example_ctx example_policy previous now c) = ReasonEligible"
  using assms example_refs
  by (auto simp: explain_in_def explain_def second_def millisecond_def intro!: example_eligible split: prod.splits)

lemma example_decision:
  assumes "previous = None \<or> previous = Some (example_state ms [])" "previous_ok previous"
  obtains d where "Select ''pool'' example_ctx example_policy example_pool previous example_now = Inr d"
    "length (eligible_explanations d) = 2" "exp_connection ` set (eligible_explanations d) = {ref_a, ref_b}"
    "length (st_Members (dec_Next d)) = 1"
proof -
  have ready: "Select_ready ''pool'' example_ctx example_policy example_pool previous example_now"
    using assms example_pool_ready by auto
  then obtain d where d: "Select ''pool'' example_ctx example_policy example_pool previous example_now = Inr d"
    by (simp add: Select_Inr_iff)
  have none: "prev_cooldowns ''pool'' example_ctx example_policy previous = []"
    using assms example_usable by (auto simp: prev_cooldowns_def usable_previous_def example_state_def)
  have all: "exp_Reason (explain_in ''pool'' example_ctx example_policy previous example_now c) = ReasonEligible"
    if "c \<in> set example_pool" for c
    using that by (intro example_explain) (simp_all add: none findCooldown_def)
  then have "eligible_explanations d =
      map (explain_in ''pool'' example_ctx example_policy previous example_now) (ordered_candidates example_pool)"
    unfolding eligible_explanations_def Select_fields(2) [OF d] by (intro filter_True) auto
  moreover from this have "length (eligible_explanations d) = 2" by (simp add: ordered_candidates_def)
  moreover have "length (st_Members (dec_Next d)) = 1"
    using chosen_in_spec(3) [OF ready assms(2)] \<open>length (eligible_explanations d) = 2\<close>
    by (simp add: Select_fields(3) [OF d] ranking_in_length eligible_explanations_def Select_fields(2) [OF d] DefaultPolicy_def)
  moreover have "exp_connection ` set (eligible_explanations d) = {ref_a, ref_b}"
    unfolding calculation(1) by (auto simp: image_image)
  ultimately show ?thesis using that d by blast
qed

lemma example_previous_ok [simp]: "previous_ok None"
  by (simp add: previous_ok_def)

theorem Select_sound_witness:
  "\<exists>d. Select ''pool'' example_ctx example_policy example_pool None example_now = Inr d
     \<and> length (dec_Selected d) = 1 \<and> set (dec_Selected d) \<subseteq> {record_a, record_b} \<and> \<not> dec_Degraded d"
proof -
  obtain d where d: "Select ''pool'' example_ctx example_policy example_pool None example_now = Inr d"
    "length (eligible_explanations d) = 2"
    by (rule example_decision [of None]) auto
  from Select_sound [OF d(1) example_previous_ok] d show ?thesis
    by (auto simp: DefaultPolicy_def example_candidate_def)
qed

theorem Select_best_witness:
  "\<exists>d e f. Select ''pool'' example_ctx example_policy example_pool None example_now = Inr d
     \<and> e \<in> set (eligible_explanations d) \<and> f \<in> set (eligible_explanations d)
     \<and> exp_connection e \<in> mem_Connection ` set (st_Members (dec_Next d))
     \<and> exp_connection f \<notin> mem_Connection ` set (st_Members (dec_Next d))
     \<and> exp_AdaptiveCostNanos e \<le> exp_AdaptiveCostNanos f"
proof -
  obtain d where d: "Select ''pool'' example_ctx example_policy example_pool None example_now = Inr d"
    "exp_connection ` set (eligible_explanations d) = {ref_a, ref_b}" "length (st_Members (dec_Next d)) = 1"
    by (rule example_decision [of None]) auto
  have ready: "Select_ready ''pool'' example_ctx example_policy example_pool None example_now" using d(1) by (simp add: Select_Inr_iff)
  obtain m where m: "st_Members (dec_Next d) = [m]" using d(3) by (auto simp: length_Suc_conv)
  have "mem_Connection m \<in> {ref_a, ref_b}"
  proof -
    obtain v where "v \<in> set (ranking_in ''pool'' example_ctx example_policy None example_now example_pool)" "mem_Connection m = rk_ref v"
      using m chosen_in_spec(2) [OF ready example_previous_ok] unfolding Select_fields(3) [OF d(1)] by auto
    then show ?thesis using ranking_in_entry(1,2) [of v] by fastforce
  qed
  then obtain e f where ef: "e \<in> set (eligible_explanations d)" "f \<in> set (eligible_explanations d)"
    "exp_connection e = mem_Connection m" "exp_connection f \<noteq> mem_Connection m"
    using d(2) example_refs(1) by (metis imageE insertCI insertE singletonD)
  have "\<not> usable_previous ''pool'' example_ctx example_policy None" by (simp add: usable_previous_def)
  from Select_best [OF d(1) _ ef(1,2)] this ef m
  have "exp_AdaptiveCostNanos e \<le> exp_AdaptiveCostNanos f" by (simp add: DefaultPolicy_def)
  then show ?thesis using d(1) ef m by auto
qed

theorem Select_permutation_witness:
  "Select ''pool'' example_ctx example_policy (rev example_pool) None example_now
   = Select ''pool'' example_ctx example_policy example_pool None example_now"
  by (rule Select_permutation) simp

theorem Select_stable_witness:
  "\<exists>d d'. Select ''pool'' example_ctx example_policy example_pool None example_now = Inr d
     \<and> Select ''pool'' example_ctx example_policy example_pool (Some (dec_Next d)) (example_now + hour) = Inr d'
     \<and> dec_Selected d' = dec_Selected d \<and> \<not> dec_Changed d'"
proof -
  obtain d where d: "Select ''pool'' example_ctx example_policy example_pool None example_now = Inr d"
    by (rule example_decision [of None]) auto
  have "example_now \<le> example_now + hour" "example_now + hour \<noteq> 0"
    by (simp_all add: example_now_def unix_epoch_def hour_def)
  from Select_stable [OF d this example_context(2)] d show ?thesis by blast
qed

theorem committed_states_valid_witness:
  "\<exists>d. Select ''pool'' example_ctx example_policy example_pool None example_now = Inr d \<and> committed (Some (dec_Next d))
     \<and> State_Validate (dec_Next d) = (if list_all (\<lambda>c. c = byte 0) (policyFingerprint example_policy)
         then Inl ''invalid selection policy fingerprint'' else Inr ())"
proof -
  obtain d where d: "Select ''pool'' example_ctx example_policy example_pool None example_now = Inr d"
    by (rule example_decision [of None]) auto
  from committed_states_valid [OF committed_start example_now_pos(1) example_context(1) d] d show ?thesis by blast
qed
definition incumbent_a :: Member where
  "incumbent_a = \<lparr>mem_Connection = ref_a, mem_SelectedAt = unix_epoch\<rparr>"

lemma incumbent_a_valid: "refs_valid (example_state [incumbent_a] [])"
  using example_refs by (simp add: refs_valid_def example_state_def incumbent_a_def is_ok_Reveal ref_ok_def time_IsZero_def unix_epoch_def)

theorem Select_hysteresis_witness:
  "\<exists>d e. Select ''pool'' example_ctx example_policy example_pool (Some (example_state [incumbent_a] [])) example_now = Inr d
     \<and> e \<in> set (eligible_explanations d) \<and> exp_connection e = ref_a
     \<and> (incumbent_a \<in> set (st_Members (dec_Next d))
        \<or> (\<exists>c\<in>set (eligible_explanations d). improvesBy c e 100
             \<and> exp_connection c \<in> mem_Connection ` set (st_Members (dec_Next d))))"
proof -
  let ?p = "example_state [incumbent_a] []"
  obtain d where d: "Select ''pool'' example_ctx example_policy example_pool (Some ?p) example_now = Inr d"
    "exp_connection ` set (eligible_explanations d) = {ref_a, ref_b}"
    by (rule example_decision [of "Some ?p" "[incumbent_a]"]) (simp_all add: previous_ok_def incumbent_a_valid)
  then obtain e where e: "e \<in> set (eligible_explanations d)" "exp_connection e = ref_a" by (metis imageE insertI1)
  have p: "pol_Strategy example_policy = StrategyAdaptive" "int (length (st_Members ?p)) \<le> pol_TopN example_policy"
    "incumbent_a \<in> set (st_Members ?p)" "exp_connection e = mem_Connection incumbent_a" "pol_RequiredImprovementPermille example_policy = 100"
    using e(2) by (simp_all add: DefaultPolicy_def example_state_def incumbent_a_def)
  from Select_hysteresis [OF d(1) incumbent_a_valid p(1) example_usable p(2,3) e(1) p(4)] d(1) e p(5)
  show ?thesis by fastforce
qed

lemma example_recovered:
  assumes "0 < mean" "findCooldown cs (ref_of (Record_Identity r)) = Some k" "cool_Until k \<le> now" "ref_ok (ref_of (Record_Identity r))"
  shows "exp_Reason (evaluate (example_candidate r mean) (ref_of (Record_Identity r)) example_ctx example_policy cs inc since now)
    = ReasonEligible"
proof -
  have "wrap64 3000 sdiv 3 = 1000" by code_simp
  then show ?thesis using assms
    by (simp add: evaluate_def example_candidate_def example_summary_def Context_Matches_def example_ctx_def sample_key_def
      TargetRef_Equal_def TargetRevision_Equal_def ConnectionRef_Equal_iff ref_ok_def DefaultPolicy_def wilsonLowerPPM_3_3 Let_def)
qed

definition cooling_b :: Cooldown where
  "cooling_b = \<lparr>cool_Connection = ref_b, cool_Until = unix_epoch + minute\<rparr>"

lemma cooling_b_valid: "refs_valid (example_state [] [cooling_b])"
  using example_refs by (simp add: refs_valid_def example_state_def cooling_b_def is_ok_Reveal time_IsZero_def unix_epoch_def minute_def ref_ok_def)

text \<open>The recovered connection is eligible again, and its cooldown is released.\<close>

theorem Select_respects_cooldowns_witness:
  "\<exists>d. Select ''pool'' example_ctx example_policy [example_candidate record_b second] (Some (example_state [] [cooling_b])) example_now = Inr d
     \<and> ref_b \<notin> cool_Connection ` set (st_Cooldowns (dec_Next d)) \<and> cool_Until cooling_b \<le> example_now"
proof -
  let ?p = "example_state [] [cooling_b]" and ?c = "example_candidate record_b second"
  have ready: "Select_ready ''pool'' example_ctx example_policy [?c] (Some ?p) example_now"
    by (rule example_ready(2) [where m = second and n = second]) simp_all
  then obtain d where d: "Select ''pool'' example_ctx example_policy [?c] (Some ?p) example_now = Inr d"
    by (simp add: Select_Inr_iff)
  have until: "cool_Until cooling_b \<le> example_now" by (simp add: cooling_b_def example_now_def minute_def hour_def)
  have cs: "prev_cooldowns ''pool'' example_ctx example_policy (Some ?p) = [cooling_b]"
    "prev_members ''pool'' example_ctx example_policy (Some ?p) = []"
    by (simp_all add: prev_cooldowns_def prev_members_def example_usable) (simp_all add: example_state_def)
  have "findCooldown [cooling_b] ref_b = Some cooling_b"
    using example_refs by (simp add: findCooldown_def cooling_b_def ConnectionRef_Equal_iff ref_ok_def)
  then have "eligible_by (explain_in ''pool'' example_ctx example_policy (Some ?p) example_now) ?c"
    using until example_refs unfolding eligible_by_def explain_in_def explain_def cs
    by (auto simp: second_def intro!: example_recovered split: prod.splits)
  then have R: "set (ranking_in ''pool'' example_ctx example_policy (Some ?p) example_now [?c])
      = {entry_of (explain_in ''pool'' example_ctx example_policy (Some ?p) example_now) ?c}"
    by (auto simp: ranking_in_set)
  have "findRanked (ranking_in ''pool'' example_ctx example_policy (Some ?p) example_now [?c]) ref_b
      = Some (entry_of (explain_in ''pool'' example_ctx example_policy (Some ?p) example_now) ?c)"
    unfolding findRanked_Some_iff [OF ranking_in_wf [OF ready]] R by simp
  then have "\<not> keep_cooldown reasons (ranking_in ''pool'' example_ctx example_policy (Some ?p) example_now [?c]) example_policy example_now cooling_b" for reasons
    using until by (simp add: keep_cooldown_def cooling_b_def example_candidate_def example_summary_def DefaultPolicy_def)
  then have gone: "st_Cooldowns (dec_Next d) = []"
    unfolding Select_fields(4) [OF d] chosen_in_def Let_def choose_ranked_cooldowns cs by simp
  have "cand_ref ?c = cool_Connection cooling_b" by (simp add: cooling_b_def)
  from Select_respects_cooldowns [OF d cooling_b_valid example_usable, of cooling_b ?c] this gone
  have "cool_Until cooling_b \<le> example_now" by (simp add: example_state_def)
  then show ?thesis using d gone by auto
qed

definition failing_a :: Candidate where
  "failing_a = \<lparr>cand_Record = record_a, cand_Evidence = Some ((example_summary record_a second)
     \<lparr>sum_Samples := 6, sum_Successes := 4, sum_ConsecutiveSuccesses := 0, sum_ConsecutiveFailures := 2\<rparr>)\<rparr>"

theorem Select_cools_failures_witness:
  "\<exists>d. Select ''pool'' example_ctx example_policy [failing_a] (Some (example_state [incumbent_a] [])) example_now = Inr d
     \<and> \<lparr>cool_Connection = ref_a, cool_Until = example_now + 15 * minute\<rparr> \<in> set (st_Cooldowns (dec_Next d))
     \<and> ref_a \<notin> mem_Connection ` set (st_Members (dec_Next d))"
proof -
  let ?p = "example_state [incumbent_a] []"
  have ready: "Select_ready ''pool'' example_ctx example_policy [failing_a] (Some ?p) example_now"
    using example_ready(2) [of "[]" second second "[incumbent_a]" "[]"] example_refs by (simp add: Select_ready_def failing_a_def)
  then obtain d where d: "Select ''pool'' example_ctx example_policy [failing_a] (Some ?p) example_now = Inr d"
    by (simp add: Select_Inr_iff)
  let ?e = "explain_in ''pool'' example_ctx example_policy (Some ?p) example_now failing_a"
  have cs: "prev_cooldowns ''pool'' example_ctx example_policy (Some ?p) = []"
    by (simp add: prev_cooldowns_def example_usable) (simp add: example_state_def)
  have "wrap64 4000 sdiv 6 = 666" by code_simp
  then have reason: "exp_Reason ?e = ReasonFailureStreak"
    using example_refs
    by (simp add: explain_in_def explain_def cs evaluate_def failing_a_def example_summary_def
        Context_Matches_def example_ctx_def sample_key_def TargetRef_Equal_def TargetRevision_Equal_def ConnectionRef_Equal_iff ref_ok_def
        DefaultPolicy_def Let_def split: prod.splits)
  have e: "?e \<in> set (dec_Explanations d)" by (simp add: Select_fields(2) [OF d])
  have conn: "exp_connection ?e = mem_Connection incumbent_a" by (simp add: failing_a_def incumbent_a_def)
  have p: "pol_Strategy example_policy = StrategyAdaptive" "incumbent_a \<in> set (st_Members ?p)"
    by (simp_all add: DefaultPolicy_def example_state_def)
  from Select_cools_failures [OF d incumbent_a_valid p(1) example_usable p(2) e conn] reason
  have "\<lparr>cool_Connection = mem_Connection incumbent_a, cool_Until = example_now + pol_Cooldown example_policy\<rparr>
      \<in> set (st_Cooldowns (dec_Next d)) \<and> mem_Connection incumbent_a \<notin> mem_Connection ` set (st_Members (dec_Next d))"
    by simp
  then show ?thesis using d by (simp add: incumbent_a_def DefaultPolicy_def)
qed

theorem evaluate_eligible_witness:
  "\<exists>e. e = evaluate (example_candidate record_a second) ref_a example_ctx example_policy [] False 0 example_now
     \<and> exp_Reason e = ReasonEligible
     \<and> exp_AdaptiveCostNanos e = \<lceil>(of_int (exp_MeanSuccessDuration e * 1000000) / of_int (exp_ConfidencePPM e) :: rat)\<rceil>"
proof -
  let ?s = "example_summary record_a second"
  let ?e = "evaluate (example_candidate record_a second) ref_a example_ctx example_policy [] False 0 example_now"
  have s: "sum_MeanSuccessDuration ?s \<le> 2 * minute" "0 \<le> sum_Successes ?s" "sum_Successes ?s \<le> sum_Samples ?s" "sum_Samples ?s < 2 ^ 50"
    "cand_Evidence (example_candidate record_a second) = Some ?s" "1 \<le> pol_MinSamples example_policy"
    by (simp_all add: example_summary_def example_candidate_def DefaultPolicy_def minute_def second_def)
  have "exp_Reason ?e = ReasonEligible"
    by (rule example_eligible) (simp_all add: second_def findCooldown_def example_refs)
  with evaluate_eligible [OF s refl, of ref_a example_ctx "[]" False 0 example_now] show ?thesis by blast
qed

end
