(* ===== verification/Selection_Replay.thy ===== *)
theory Selection_Replay
  imports Selection_Examples
begin

text \<open>
  \<^verbatim>\<open>internal/selection/replay.go\<close>: the deterministic comparison of strategies on one sequence of
  evidence frames. Each strategy threads its own state through the frames. The reports are shown to
  be a reference function of the decisions made, every decision starting from the state the
  previous one committed.
\<close>

record Frame =
  fr_At :: instant
  fr_Candidates :: "Candidate list"

record Scenario =
  sc_Scope :: string
  sc_Context :: Context
  sc_Policy :: Policy
  sc_Frames :: "Frame list"

record Report =
  rep_Strategy :: Strategy
  rep_Evaluations :: int
  rep_Changes :: int
  rep_EmergencyChanges :: int
  rep_NoEligible :: int
  rep_Degraded :: int
  rep_MeanSelectedLatency :: duration

definition connectionRef :: "Record \<Rightarrow> ConnectionRef" where
  "connectionRef r =
     (case NewConnectionRef (Record_Identity r) of
        Inl _ \<Rightarrow> \<lparr>cref_id = [], cref_revision = None\<rparr> | Inr reference \<Rightarrow> reference)"

text \<open>The latency of one selected record: the first eligible explanation of its connection.\<close>

definition latency_step :: "Explanation list \<Rightarrow> duration \<times> int \<Rightarrow> Record \<Rightarrow> duration \<times> int" where
  "latency_step explanations acc selected =
     (case find (\<lambda>e. ConnectionRef_Equal (exp_connection e) (connectionRef selected) \<and> exp_Reason e = ReasonEligible)
        explanations of
        None \<Rightarrow> acc
      | Some e \<Rightarrow> (wrap64 (fst acc + exp_MeanSuccessDuration e), snd acc + 1))"

record replay =
  rp_state :: "SelectionState option"
  rp_total :: duration
  rp_samples :: int
  rp_report :: Report

definition record_decision :: "replay \<Rightarrow> Decision \<Rightarrow> replay" where
  "record_decision acc decision =
     (let report = rp_report acc;
          (total', samples') = foldl (latency_step (dec_Explanations decision)) (rp_total acc, rp_samples acc) (dec_Selected decision)
      in \<lparr>rp_state = Some (dec_Next decision), rp_total = total', rp_samples = samples',
          rp_report = report\<lparr>rep_Evaluations := rep_Evaluations report + 1,
            rep_Changes := (if dec_Changed decision then rep_Changes report + 1 else rep_Changes report),
            rep_EmergencyChanges := (if dec_Transition decision = TransitionEmergency
              then rep_EmergencyChanges report + 1 else rep_EmergencyChanges report),
            rep_NoEligible := (if dec_Selected decision = [] then rep_NoEligible report + 1 else rep_NoEligible report),
            rep_Degraded := (if dec_Degraded decision then rep_Degraded report + 1 else rep_Degraded report)\<rparr>\<rparr>)"

fun replay_frames :: "Scenario \<Rightarrow> Policy \<Rightarrow> replay \<Rightarrow> Frame list \<Rightarrow> string + replay" where
  "replay_frames scenario policy acc [] = Inr acc"
| "replay_frames scenario policy acc (frame # rest) =
     and_then (Select (sc_Scope scenario) (sc_Context scenario) policy (fr_Candidates frame) (rp_state acc) (fr_At frame))
       (\<lambda>decision. replay_frames scenario policy (record_decision acc decision) rest)"

definition new_report :: "Strategy \<Rightarrow> Report" where
  "new_report strategy = \<lparr>rep_Strategy = strategy, rep_Evaluations = 0, rep_Changes = 0, rep_EmergencyChanges = 0,
     rep_NoEligible = 0, rep_Degraded = 0, rep_MeanSelectedLatency = 0\<rparr>"

definition replay_strategy :: "Scenario \<Rightarrow> Strategy \<Rightarrow> string + Report" where
  "replay_strategy scenario strategy =
     and_then (replay_frames scenario ((sc_Policy scenario)\<lparr>pol_Strategy := strategy\<rparr>)
         \<lparr>rp_state = None, rp_total = 0, rp_samples = 0, rp_report = new_report strategy\<rparr> (sc_Frames scenario)) (\<lambda>final.
       Inr (if rp_samples final > 0
            then (rp_report final)\<lparr>rep_MeanSelectedLatency := rp_total final sdiv rp_samples final\<rparr>
            else rp_report final))"

definition Compare :: "Scenario \<Rightarrow> Strategy list \<Rightarrow> string + Report list" where
  "Compare scenario strategies =
     (if strategies = [] \<or> sc_Frames scenario = [] then Inl ''selection replay requires strategies and frames''
      else map_result (replay_strategy scenario) strategies)"

section \<open>Reports\<close>

text \<open>An emergency is a change, and an empty selection is degraded.\<close>

lemma Select_emergency_changed:
  assumes "Select scope ctx policy candidates previous now = Inr d"
  shows "dec_Transition d = TransitionEmergency \<Longrightarrow> dec_Changed d" "dec_Selected d = [] \<Longrightarrow> dec_Degraded d"
proof -
  have top: "1 \<le> pol_TopN policy"
    using assms Policy_ok_bounds by (auto simp: Select_Inr_iff Select_ready_def)
  note f = Select_fields [OF assms]
  show "dec_Transition d = TransitionEmergency \<Longrightarrow> dec_Changed d"
    unfolding f(13) by (auto simp: base_transition_def split: if_splits)
  show "dec_Selected d = [] \<Longrightarrow> dec_Degraded d" unfolding f(1,5) using top by simp
qed

lemma replay_frames_committed:
  assumes "committed (rp_state acc)" "\<forall>frame\<in>set frames. 0 < fr_At frame"
    and "is_ok (NewContext (ctx_Target (sc_Context scenario)) (ctx_Vantage (sc_Context scenario)) (ctx_Kind (sc_Context scenario))
      (ctx_Profile (sc_Context scenario)))"
    and "replay_frames scenario policy acc frames = Inr final"
  shows "committed (rp_state final)"
  using assms
proof (induction frames arbitrary: acc)
  case (Cons frame rest)
  then obtain d where d: "Select (sc_Scope scenario) (sc_Context scenario) policy (fr_Candidates frame) (rp_state acc) (fr_At frame) = Inr d"
    and rest: "replay_frames scenario policy (record_decision acc d) rest = Inr final"
    by (auto simp: and_then_Inr_iff)
  have "committed (Some (dec_Next d))" using Cons.prems(1-3) d by (intro committed_step) auto
  then show ?case
    using Cons.IH [OF _ _ Cons.prems(3) rest] Cons.prems(2) by (simp add: record_decision_def Let_def split: prod.splits)
qed simp

section \<open>What a report says of the decisions\<close>

text \<open>
  The decisions of a replay, one per frame: each is made by \<^verbatim>\<open>Select\<close> from the evidence of its
  frame and from the state the decision before it committed, the first from no state. The
  latencies of a decision are those of the first eligible explanation of each selected record.
\<close>

definition replayed :: "Scenario \<Rightarrow> Strategy \<Rightarrow> Decision list \<Rightarrow> bool" where
  "replayed scenario strategy ds \<longleftrightarrow> length ds = length (sc_Frames scenario)
     \<and> (\<forall>i<length ds. Select (sc_Scope scenario) (sc_Context scenario) ((sc_Policy scenario)\<lparr>pol_Strategy := strategy\<rparr>)
          (fr_Candidates (sc_Frames scenario ! i)) (if i = 0 then None else Some (dec_Next (ds ! (i - 1))))
          (fr_At (sc_Frames scenario ! i)) = Inr (ds ! i))"

definition selected_latencies :: "Decision \<Rightarrow> duration list" where
  "selected_latencies d = [exp_MeanSuccessDuration e. r \<leftarrow> dec_Selected d,
     e \<leftarrow> take 1 (filter (\<lambda>e. exp_connection e = ref_of (Record_Identity r)) (eligible_explanations d))]"

definition how_many :: "('a \<Rightarrow> bool) \<Rightarrow> 'a list \<Rightarrow> int" where
  "how_many P xs = int (length (filter P xs))"

definition mean_latency :: "duration list \<Rightarrow> duration" where
  "mean_latency ls = (if ls = [] then 0 else wrap64 (sum_list ls) sdiv int (length ls))"

definition report_of :: "Strategy \<Rightarrow> Decision list \<Rightarrow> Report" where
  "report_of strategy ds = \<lparr>rep_Strategy = strategy, rep_Evaluations = int (length ds),
     rep_Changes = how_many dec_Changed ds,
     rep_EmergencyChanges = how_many (\<lambda>d. dec_Transition d = TransitionEmergency) ds,
     rep_NoEligible = how_many (\<lambda>d. dec_Selected d = []) ds,
     rep_Degraded = how_many dec_Degraded ds,
     rep_MeanSelectedLatency = mean_latency (concat (map selected_latencies ds))\<rparr>"

text \<open>The decisions of a run over frames from any state, as a chain.\<close>

fun chained :: "Scenario \<Rightarrow> Policy \<Rightarrow> SelectionState option \<Rightarrow> Frame list \<Rightarrow> Decision list \<Rightarrow> bool" where
  "chained scenario policy st [] ds \<longleftrightarrow> ds = []"
| "chained scenario policy st (frame # rest) ds \<longleftrightarrow>
     (\<exists>d ds'. ds = d # ds' \<and> Select (sc_Scope scenario) (sc_Context scenario) policy (fr_Candidates frame) st (fr_At frame) = Inr d
        \<and> chained scenario policy (Some (dec_Next d)) rest ds')"

lemma chained_nth:
  "chained scenario policy st frames ds \<longleftrightarrow> length ds = length frames
     \<and> (\<forall>i<length ds. Select (sc_Scope scenario) (sc_Context scenario) policy (fr_Candidates (frames ! i))
          (if i = 0 then st else Some (dec_Next (ds ! (i - 1)))) (fr_At (frames ! i)) = Inr (ds ! i))"
proof (induction frames arbitrary: st ds)
  case (Cons frame rest)
  show ?case
  proof (cases ds)
    case (Cons d ds')
    have shift: "(if i = 0 then Some (dec_Next d) else Some (dec_Next (ds' ! (i - 1)))) = Some (dec_Next ((d # ds') ! i))" for i
      by (cases i) simp_all
    show ?thesis unfolding Cons by (auto simp: Cons.IH shift less_Suc_eq_0_disj all_conj_distrib)
  qed simp
qed auto

lemma replayed_chained: "replayed scenario strategy ds
    \<longleftrightarrow> chained scenario ((sc_Policy scenario)\<lparr>pol_Strategy := strategy\<rparr>) None (sc_Frames scenario) ds"
  by (simp add: replayed_def chained_nth)

lemma replay_frames_chained:
  "replay_frames scenario policy acc frames = Inr final
     \<longleftrightarrow> (\<exists>ds. chained scenario policy (rp_state acc) frames ds \<and> final = foldl record_decision acc ds)"
proof (induction frames arbitrary: acc)
  case (Cons frame rest)
  have state: "rp_state (record_decision acc d) = Some (dec_Next d)" for d
    by (simp add: record_decision_def Let_def split: prod.splits)
  have "(\<exists>ds. chained scenario policy (rp_state acc) (frame # rest) ds \<and> final = foldl record_decision acc ds)
    \<longleftrightarrow> (\<exists>d ds. Select (sc_Scope scenario) (sc_Context scenario) policy (fr_Candidates frame) (rp_state acc) (fr_At frame) = Inr d
        \<and> chained scenario policy (Some (dec_Next d)) rest ds \<and> final = foldl record_decision (record_decision acc d) ds)"
    by (auto intro: exI [of _ "_ # _"])
  then show ?case by (simp add: and_then_Inr_iff Cons.IH state)
qed auto

text \<open>Each selected record has exactly one latency: its explanation, which is eligible.\<close>

definition distinct_previous :: "SelectionState option \<Rightarrow> bool" where
  "distinct_previous previous = (case previous of None \<Rightarrow> True | Some p \<Rightarrow> distinct_members (st_Members p))"

lemma chosen_in_distinct:
  assumes "Select_ready scope ctx policy candidates previous now" "distinct_previous previous"
  defines "S \<equiv> rt_selected (chosen_in scope ctx policy previous now candidates)"
  shows "ranked_wf S" "set S \<subseteq> set (ranking_in scope ctx policy previous now candidates)"
proof -
  have ok: "Policy_ok policy" using assms(1) by (simp add: Select_ready_def)
  have members: "distinct_members (prev_members scope ctx policy previous)"
    using assms(2) by (auto simp: prev_members_def distinct_previous_def usable_previous_def distinct_members_def split: option.splits)
  note size = choose_ranked_size [OF Policy_ok_bounds(3) [OF ok] ranking_in_wf [OF assms(1)] members ranking_in_cost]
  show "ranked_wf S" "set S \<subseteq> set (ranking_in scope ctx policy previous now candidates)"
    unfolding S_def chosen_in_def Let_def by (rule size; assumption)+
qed

lemma wrap64_add: "wrap64 (wrap64 t + x) = wrap64 (t + x)"
proof -
  have "wrap64 t + x + 2 ^ 63 = (t + 2 ^ 63) mod 2 ^ 64 + x" by (simp add: wrap64_def)
  moreover have "((t + 2 ^ 63) mod 2 ^ 64 + x) mod 2 ^ 64 = (t + x + 2 ^ 63) mod 2 ^ 64"
    unfolding mod_add_left_eq by (simp only: ac_simps)
  ultimately show ?thesis unfolding wrap64_def [of "wrap64 t + x"] wrap64_def [of "t + x"] by (simp only:)
qed

lemma take_1_filter: "take 1 (filter P xs) = (case find P xs of None \<Rightarrow> [] | Some x \<Rightarrow> [x])"
  by (induction xs) auto

lemma length_take_1_filter: "\<exists>x\<in>set xs. P x \<Longrightarrow> length (take 1 (filter P xs)) = 1"
  by (induction xs) auto

lemma Select_latency:
  assumes "Select scope ctx policy candidates previous now = Inr d" "distinct_previous previous" "r \<in> set (dec_Selected d)"
  shows "connectionRef r = ref_of (Record_Identity r)" "cref_revision (ref_of (Record_Identity r)) \<noteq> None"
    "\<exists>e\<in>set (eligible_explanations d). exp_connection e = ref_of (Record_Identity r)"
proof -
  have ready: "Select_ready scope ctx policy candidates previous now" using assms(1) by (simp add: Select_Inr_iff)
  note f = Select_fields [OF assms(1)]
  obtain v where v: "v \<in> set (ranking_in scope ctx policy previous now candidates)" "r = cand_Record (rk_candidate v)"
    using assms(3) chosen_in_distinct(2) [OF ready assms(2)] by (auto simp: f)
  note entry = ranking_in_entry [OF v(1)]
  have ok: "ref_ok (cand_ref (rk_candidate v))" using ready entry(1) by (simp add: Select_ready_def)
  then show "connectionRef r = ref_of (Record_Identity r)" "cref_revision (ref_of (Record_Identity r)) \<noteq> None"
    by (auto simp: v(2) connectionRef_def NewConnectionRef_def ref_ok_def ref_of_def RevealForPersistence_def split: option.splits)
  have "rk_explanation v \<in> set (eligible_explanations d)"
    using entry(1,3,4) by (simp add: eligible_explanations_def f ordered_candidates_def)
  then show "\<exists>e\<in>set (eligible_explanations d). exp_connection e = ref_of (Record_Identity r)" using entry(3) v(2) by force
qed

lemma selected_latencies_length:
  assumes "Select scope ctx policy candidates previous now = Inr d" "distinct_previous previous"
  shows "length (selected_latencies d) = length (dec_Selected d)"
proof -
  have "length (take 1 (filter (\<lambda>e. exp_connection e = ref_of (Record_Identity r)) (eligible_explanations d))) = 1"
    if "r \<in> set (dec_Selected d)" for r
    by (rule length_take_1_filter [OF Select_latency(3) [OF assms that]])
  then show ?thesis by (simp add: selected_latencies_def length_concat comp_def sum_list_triv cong: map_cong)
qed

lemma latency_fold:
  assumes "Select scope ctx policy candidates previous now = Inr d" "distinct_previous previous" "set rs \<subseteq> set (dec_Selected d)"
  shows "foldl (latency_step (dec_Explanations d)) (wrap64 t, n) rs =
     (let ls = [exp_MeanSuccessDuration e. r \<leftarrow> rs,
          e \<leftarrow> take 1 (filter (\<lambda>e. exp_connection e = ref_of (Record_Identity r)) (eligible_explanations d))]
      in (wrap64 (t + sum_list ls), n + int (length ls)))"
  using assms(3)
proof (induction rs arbitrary: t n)
  case (Cons r rs)
  have r: "connectionRef r = ref_of (Record_Identity r)" "cref_revision (ref_of (Record_Identity r)) \<noteq> None"
    "\<exists>e\<in>set (eligible_explanations d). exp_connection e = ref_of (Record_Identity r)"
    using Select_latency [OF assms(1,2)] Cons.prems by simp_all
  have find: "find (\<lambda>e. ConnectionRef_Equal (exp_connection e) (connectionRef r) \<and> exp_Reason e = ReasonEligible) (dec_Explanations d)
      = find (\<lambda>e. exp_connection e = ref_of (Record_Identity r)) (eligible_explanations d)" (is "find ?P ?xs = find ?Q _")
  proof -
    have "?P e \<longleftrightarrow> ?Q e \<and> exp_Reason e = ReasonEligible" for e using r(1,2) by (auto simp: ConnectionRef_Equal_iff)
    then have "find ?P xs = find ?Q (filter (\<lambda>e. exp_Reason e = ReasonEligible) xs)" for xs by (induction xs) auto
    then show ?thesis by (simp add: eligible_explanations_def)
  qed
  obtain e where e: "find (\<lambda>e. exp_connection e = ref_of (Record_Identity r)) (eligible_explanations d) = Some e"
    using r(3) by (cases "find (\<lambda>e. exp_connection e = ref_of (Record_Identity r)) (eligible_explanations d)") (auto simp: find_None_iff)
  have "latency_step (dec_Explanations d) (wrap64 t, n) r = (wrap64 (t + exp_MeanSuccessDuration e), n + 1)"
    by (simp add: latency_step_def find e wrap64_add)
  moreover have "take (Suc 0) (filter (\<lambda>e. exp_connection e = ref_of (Record_Identity r)) (eligible_explanations d)) = [e]"
    using take_1_filter [of "\<lambda>e. exp_connection e = ref_of (Record_Identity r)" "eligible_explanations d"] e by simp
  ultimately show ?case using Cons.IH [of "t + exp_MeanSuccessDuration e" "n + 1"] Cons.prems
    by (simp add: Let_def add.assoc)
qed simp

lemma Select_distinct_next:
  assumes "Select scope ctx policy candidates previous now = Inr d" "distinct_previous previous"
  shows "distinct_previous (Some (dec_Next d))"
proof -
  have "Select_ready scope ctx policy candidates previous now" using assms(1) by (simp add: Select_Inr_iff)
  from chosen_in_distinct(1) [OF this assms(2)] show ?thesis
    by (simp add: distinct_previous_def distinct_members_def Select_fields(3) [OF assms(1)] ranked_wf_def o_def)
qed

lemma chained_latencies:
  "chained scenario policy st frames ds \<Longrightarrow> distinct_previous st \<Longrightarrow>
   \<forall>d\<in>set ds. length (selected_latencies d) = length (dec_Selected d)"
proof (induction frames arbitrary: st ds)
  case (Cons frame rest)
  then obtain d ds' where ds: "ds = d # ds'" "chained scenario policy (Some (dec_Next d)) rest ds'"
    and d: "Select (sc_Scope scenario) (sc_Context scenario) policy (fr_Candidates frame) st (fr_At frame) = Inr d" by auto
  from Cons.IH [OF ds(2) Select_distinct_next [OF d Cons.prems(2)]] selected_latencies_length [OF d Cons.prems(2)]
  show ?case by (simp add: ds(1))
qed simp

lemma chained_consistent:
  "chained scenario policy st frames ds \<Longrightarrow>
   \<forall>d\<in>set ds. (dec_Transition d = TransitionEmergency \<longrightarrow> dec_Changed d) \<and> (dec_Selected d = [] \<longrightarrow> dec_Degraded d)"
proof (induction frames arbitrary: st ds)
  case (Cons frame rest)
  then obtain d ds' where ds: "ds = d # ds'" "chained scenario policy (Some (dec_Next d)) rest ds'"
    and d: "Select (sc_Scope scenario) (sc_Context scenario) policy (fr_Candidates frame) st (fr_At frame) = Inr d" by auto
  from Cons.IH [OF ds(2)] Select_emergency_changed [OF d] show ?case by (simp add: ds(1))
qed simp

lemma how_many_Cons: "how_many P (x # xs) = (if P x then 1 else 0) + how_many P xs"
  by (simp add: how_many_def)

lemma how_many_mono: "\<forall>x\<in>set xs. P x \<longrightarrow> Q x \<Longrightarrow> how_many P xs \<le> how_many Q xs"
  by (induction xs) (auto simp: how_many_def)

lemma how_many_bounds: "0 \<le> how_many P xs" "how_many P xs \<le> int (length xs)"
  by (simp_all add: how_many_def)

lemma record_decision_fold:
  assumes "chained scenario policy st frames ds" "distinct_previous st" "rp_total acc = wrap64 t"
  shows "rp_total (foldl record_decision acc ds) = wrap64 (t + sum_list (concat (map selected_latencies ds)))
    \<and> rp_samples (foldl record_decision acc ds) = rp_samples acc + int (length (concat (map selected_latencies ds)))
    \<and> rp_report (foldl record_decision acc ds) = (rp_report acc)\<lparr>
       rep_Evaluations := rep_Evaluations (rp_report acc) + int (length ds),
       rep_Changes := rep_Changes (rp_report acc) + how_many dec_Changed ds,
       rep_EmergencyChanges := rep_EmergencyChanges (rp_report acc) + how_many (\<lambda>d. dec_Transition d = TransitionEmergency) ds,
       rep_NoEligible := rep_NoEligible (rp_report acc) + how_many (\<lambda>d. dec_Selected d = []) ds,
       rep_Degraded := rep_Degraded (rp_report acc) + how_many dec_Degraded ds\<rparr>"
  using assms
proof (induction frames arbitrary: st ds acc t)
  case (Cons frame rest)
  obtain d ds' where ds: "ds = d # ds'"
    and d: "Select (sc_Scope scenario) (sc_Context scenario) policy (fr_Candidates frame) st (fr_At frame) = Inr d"
    and rest: "chained scenario policy (Some (dec_Next d)) rest ds'" using Cons.prems(1) by auto
  let ?acc = "record_decision acc d"
  have fold: "foldl (latency_step (dec_Explanations d)) (rp_total acc, rp_samples acc) (dec_Selected d)
      = (wrap64 (t + sum_list (selected_latencies d)), rp_samples acc + int (length (selected_latencies d)))"
    using latency_fold [OF d Cons.prems(2), of "dec_Selected d" t "rp_samples acc"]
    by (simp add: Cons.prems(3) selected_latencies_def Let_def)
  have acc: "rp_total ?acc = wrap64 (t + sum_list (selected_latencies d))"
    "rp_samples ?acc = rp_samples acc + int (length (selected_latencies d))"
    by (simp_all add: record_decision_def fold Let_def)
  note IH = Cons.IH [OF rest Select_distinct_next [OF d Cons.prems(2)] acc(1)]
  have "rp_report (foldl record_decision ?acc ds') = (rp_report acc)\<lparr>
       rep_Evaluations := rep_Evaluations (rp_report acc) + int (length ds),
       rep_Changes := rep_Changes (rp_report acc) + how_many dec_Changed ds,
       rep_EmergencyChanges := rep_EmergencyChanges (rp_report acc) + how_many (\<lambda>d. dec_Transition d = TransitionEmergency) ds,
       rep_NoEligible := rep_NoEligible (rp_report acc) + how_many (\<lambda>d. dec_Selected d = []) ds,
       rep_Degraded := rep_Degraded (rp_report acc) + how_many dec_Degraded ds\<rparr>"
    unfolding IH [THEN conjunct2, THEN conjunct2]
    by (rule Report.equality) (auto simp: ds record_decision_def fold Let_def how_many_Cons)
  then show ?case using IH acc(2) by (simp add: ds add.assoc)
qed (simp add: how_many_def)

lemma replay_strategy_exact:
  "replay_strategy scenario s = Inr r \<longleftrightarrow> (\<exists>ds. replayed scenario s ds \<and> r = report_of s ds)"
proof -
  let ?start = "\<lparr>rp_state = None, rp_total = 0, rp_samples = 0, rp_report = new_report s\<rparr>"
  let ?policy = "(sc_Policy scenario)\<lparr>pol_Strategy := s\<rparr>"
  have final: "(let final = foldl record_decision ?start ds in
      if rp_samples final > 0 then (rp_report final)\<lparr>rep_MeanSelectedLatency := rp_total final sdiv rp_samples final\<rparr>
      else rp_report final) = report_of s ds" if "chained scenario ?policy None (sc_Frames scenario) ds" for ds
  proof -
    have "wrap64 0 = 0" "distinct_previous None" by (simp_all add: wrap64_def distinct_previous_def)
    note fold = record_decision_fold [OF that this(2), of ?start 0, simplified, OF this(1)]
    show ?thesis unfolding Let_def fold [THEN conjunct1] fold [THEN conjunct2, THEN conjunct1] fold [THEN conjunct2, THEN conjunct2]
      by (rule Report.equality) (auto simp: report_of_def mean_latency_def new_report_def)
  qed
  show ?thesis
    unfolding replay_strategy_def and_then_Inr_iff replay_frames_chained replayed_chained sum.inject replay.simps
    using final unfolding Let_def by metis
qed

text \<open>
  C22. A comparison of strategies is exact. It succeeds precisely when there are strategies and
  frames and every strategy can decide every frame, each from the state its previous decision
  committed; then it returns one report per strategy, in order, which is the reference report of
  those decisions: it counts the evaluations, the changes, the emergencies, the empty and the
  degraded selections, and its latency is the mean over the selected records, with Go's
  wrap-around of the sum and truncation of the quotient. Every selected record contributes
  exactly one latency, emergencies are among the changes, and empty selections are among the
  degraded ones.
\<close>

theorem Compare_reports:
  "(Compare scenario strategies = Inr reports \<longleftrightarrow> strategies \<noteq> [] \<and> sc_Frames scenario \<noteq> []
      \<and> list_all2 (\<lambda>s r. \<exists>ds. replayed scenario s ds \<and> r = report_of s ds) strategies reports)
   \<and> (replayed scenario s ds \<longrightarrow> (\<forall>d\<in>set ds. length (selected_latencies d) = length (dec_Selected d)))
   \<and> (Compare scenario strategies = Inr reports \<longrightarrow> map rep_Strategy reports = strategies
      \<and> (\<forall>r\<in>set reports. rep_Evaluations r = int (length (sc_Frames scenario))
        \<and> 0 \<le> rep_EmergencyChanges r \<and> rep_EmergencyChanges r \<le> rep_Changes r \<and> rep_Changes r \<le> rep_Evaluations r
        \<and> 0 \<le> rep_NoEligible r \<and> rep_NoEligible r \<le> rep_Degraded r \<and> rep_Degraded r \<le> rep_Evaluations r))"
proof -
  have exact: "Compare scenario strategies = Inr reports \<longleftrightarrow> strategies \<noteq> [] \<and> sc_Frames scenario \<noteq> []
      \<and> list_all2 (\<lambda>s r. \<exists>ds. replayed scenario s ds \<and> r = report_of s ds) strategies reports"
    by (auto simp: Compare_def map_result_Inr_iff replay_strategy_exact)
  have latencies: "replayed scenario s ds \<longrightarrow> (\<forall>d\<in>set ds. length (selected_latencies d) = length (dec_Selected d))"
    using chained_latencies by (auto simp: replayed_chained distinct_previous_def)
  have "map rep_Strategy reports = strategies
      \<and> (\<forall>r\<in>set reports. rep_Evaluations r = int (length (sc_Frames scenario))
        \<and> 0 \<le> rep_EmergencyChanges r \<and> rep_EmergencyChanges r \<le> rep_Changes r \<and> rep_Changes r \<le> rep_Evaluations r
        \<and> 0 \<le> rep_NoEligible r \<and> rep_NoEligible r \<le> rep_Degraded r \<and> rep_Degraded r \<le> rep_Evaluations r)"
    if "list_all2 (\<lambda>s r. \<exists>ds. replayed scenario s ds \<and> r = report_of s ds) strategies reports"
    using that
  proof (induction rule: list_all2_induct)
    case (Cons s ss r rs)
    then obtain ds where ds: "replayed scenario s ds" "r = report_of s ds" by blast
    have "\<forall>d\<in>set ds. (dec_Transition d = TransitionEmergency \<longrightarrow> dec_Changed d) \<and> (dec_Selected d = [] \<longrightarrow> dec_Degraded d)"
      using ds(1) unfolding replayed_chained by (rule chained_consistent)
    then have "how_many (\<lambda>d. dec_Transition d = TransitionEmergency) ds \<le> how_many dec_Changed ds"
      "how_many (\<lambda>d. dec_Selected d = []) ds \<le> how_many dec_Degraded ds" by (simp_all add: how_many_mono)
    moreover have "int (length ds) = int (length (sc_Frames scenario))" using ds(1) by (simp add: replayed_def)
    moreover note how_many_bounds [of dec_Changed ds] how_many_bounds [of dec_Degraded ds]
    ultimately show ?case using Cons.IH how_many_bounds(1) by (auto simp: ds(2) report_of_def)
  qed simp
  then show ?thesis using exact latencies by blast
qed

definition example_scenario :: Scenario where
  "example_scenario = \<lparr>sc_Scope = ''pool'', sc_Context = example_ctx, sc_Policy = example_policy,
     sc_Frames = [\<lparr>fr_At = example_now, fr_Candidates = example_pool\<rparr>]\<rparr>"

theorem Compare_reports_witness:
  "\<exists>r d. Compare example_scenario [StrategyAdaptive] = Inr [r] \<and> rep_Strategy r = StrategyAdaptive \<and> rep_Evaluations r = 1
     \<and> r = report_of StrategyAdaptive [d] \<and> length (dec_Selected d) = 1 \<and> length (selected_latencies d) = 1"
proof -
  have policy: "example_policy\<lparr>pol_Strategy := StrategyAdaptive\<rparr> = example_policy" by (simp add: DefaultPolicy_def)
  obtain d where d: "Select ''pool'' example_ctx example_policy example_pool None example_now = Inr d"
    and selected: "length (st_Members (dec_Next d)) = 1"
    by (rule example_decision [of None]) auto
  then have chain: "replayed example_scenario StrategyAdaptive [d]"
    by (simp add: replayed_def example_scenario_def policy)
  let ?r = "report_of StrategyAdaptive [d]"
  have r: "Compare example_scenario [StrategyAdaptive] = Inr [?r]"
    using Compare_reports [of example_scenario "[StrategyAdaptive]" "[?r]" StrategyAdaptive "[d]"] chain
    by (auto simp: example_scenario_def)
  have "length (dec_Selected d) = 1" using selected Select_fields(1,3) [OF d] by simp
  then show ?thesis using Compare_reports [of example_scenario "[StrategyAdaptive]" "[?r]" StrategyAdaptive "[d]"] r chain
    by (auto simp: example_scenario_def)
qed

end
