(* ===== verification/Gateway_Policy.thy ===== *)
theory Gateway_Policy
  imports Endpoint_Inventory Artifact
begin

text \<open>
  The gateway policy of \<^verbatim>\<open>internal/policy/gateway.go\<close>: the SOCKS listener and the inventory it
  fronts. A listener is either bound to a loopback address or to every address of the Pod with
  credentials; the theorem on exposure says that a gateway never listens beyond the loopback
  interface without both.
\<close>

section \<open>Errors\<close>

datatype gateway_error = GatewayError string string \<comment> \<open>field and problem\<close>

definition gateway_invalid :: "string \<Rightarrow> string \<Rightarrow> gateway_error + 'a" where
  "gateway_invalid field problem = Inl (GatewayError field problem)"

section \<open>Listeners\<close>

text \<open>
  The mode is a byte with two named values. Zero marks a listener no constructor made; nothing in
  its type rules out the other 253 values.
\<close>

type_synonym listenerMode = "8 word"

definition listenerLoopback :: listenerMode where
  "listenerLoopback = 1"

definition listenerManaged :: listenerMode where
  "listenerManaged = 2"

record Listener =
  lst_address :: netip_addr
  lst_port :: "16 word"
  lst_mode :: listenerMode
  lst_user :: string
  lst_pass :: string

definition NewSOCKSListener :: "string \<Rightarrow> int \<Rightarrow> gateway_error + Listener" where
  "NewSOCKSListener address port =
     (case ParseAddr address of
        None \<Rightarrow> gateway_invalid ''listener.address'' ''must be a loopback IP address''
      | Some parsed \<Rightarrow>
          if \<not> addr_IsLoopback parsed \<or> addr_Zone parsed \<noteq> []
          then gateway_invalid ''listener.address'' ''must be a loopback IP address''
          else if port < 1 \<or> port > 65535
          then gateway_invalid ''listener.port'' ''must be between 1 and 65535''
          else Inr \<lparr>lst_address = parsed, lst_port = word_of_int port, lst_mode = listenerLoopback,
                 lst_user = [], lst_pass = []\<rparr>)"

definition credential_char :: "char \<Rightarrow> bool" where
  "credential_char c \<longleftrightarrow> is_lower c \<or> is_upper c \<or> is_digit c \<or> c = CHR ''-'' \<or> c = CHR ''_''
     \<or> c = CHR ''.'' \<or> c = CHR ''~''"

text \<open>
  The loop of \<^verbatim>\<open>safeCredential\<close> ranges over runes; every byte of a multi-byte or invalid
  sequence is outside the alphabet, so checking bytes decides the same.
\<close>

definition safeCredential :: "string \<Rightarrow> nat \<Rightarrow> nat \<Rightarrow> bool" where
  "safeCredential value minimum maximum =
     (if length value < minimum \<or> length value > maximum then False
      else list_all credential_char value)"

definition NewManagedSOCKSListener :: "int \<Rightarrow> string \<Rightarrow> string \<Rightarrow> gateway_error + Listener" where
  "NewManagedSOCKSListener port username password =
     (if port < 1 \<or> port > 65535 then gateway_invalid ''listener.port'' ''must be between 1 and 65535''
      else if \<not> safeCredential username 1 64
      then gateway_invalid ''listener.authentication.username'' ''must be 1 to 64 safe ASCII characters''
      else if \<not> safeCredential password 16 128
      then gateway_invalid ''listener.authentication.password'' ''must be 16 to 128 safe ASCII characters''
      else Inr \<lparr>lst_address = ipv4_unspecified, lst_port = word_of_int port, lst_mode = listenerManaged,
             lst_user = username, lst_pass = password\<rparr>)"

definition Listener_Address :: "Listener \<Rightarrow> string" where
  "Listener_Address l = addr_String (lst_address l)"

definition Listener_Managed :: "Listener \<Rightarrow> bool" where
  "Listener_Managed l \<longleftrightarrow> lst_mode l = listenerManaged"

section \<open>Gateways\<close>

record Gateway =
  gw_inventory :: Inventory
  gw_listener :: Listener

definition NewGateway :: "Inventory \<Rightarrow> Listener \<Rightarrow> gateway_error + Gateway" where
  "NewGateway inventory listener =
     (if Inventory_Len inventory = 0
      then gateway_invalid ''inventory'' ''must contain at least one admitted endpoint''
      else if \<not> addr_IsValid (lst_address listener) \<or> lst_port listener = 0
        \<or> lst_mode listener = 0
      then gateway_invalid ''listener'' ''must be constructed with a SOCKS listener constructor''
      else if lst_mode listener = listenerLoopback \<and> \<not> addr_IsLoopback (lst_address listener)
      then gateway_invalid ''listener'' ''BYO listener must be loopback''
      else if lst_mode listener = listenerManaged
        \<and> (\<not> addr_IsUnspecified (lst_address listener) \<or> lst_user listener = [] \<or> lst_pass listener = [])
      then gateway_invalid ''listener'' ''managed listener must be authenticated on the Pod network''
      else Inr \<lparr>gw_inventory = inventory, gw_listener = listener\<rparr>)"

definition Gateway_String :: "Gateway \<Rightarrow> string" where
  "Gateway_String g =
     ''gateway policy endpoints='' @ itoa (int (Inventory_Len (gw_inventory g))) @ '' listener=''
     @ (if Listener_Managed (gw_listener g) then ''managed-authenticated'' else ''loopback'')
     @ '':'' @ itoa (uint (lst_port (gw_listener g))) @ '' credentials=<redacted>''"

section \<open>What the constructors guarantee\<close>

lemma port_word:
  assumes "1 \<le> port" "port \<le> 65535"
  shows "uint (word_of_int port :: 16 word) = port" "(word_of_int port :: 16 word) \<noteq> 0"
proof -
  show u: "uint (word_of_int port :: 16 word) = port"
    using assms by (simp add: uint_word_of_int)
  then show "(word_of_int port :: 16 word) \<noteq> 0" using assms by auto
qed

lemma NewSOCKSListener_Inr_iff:
  "NewSOCKSListener address port = Inr l \<longleftrightarrow>
     (\<exists>parsed. ParseAddr address = Some parsed \<and> addr_IsLoopback parsed \<and> addr_Zone parsed = []
        \<and> 1 \<le> port \<and> port \<le> 65535
        \<and> l = \<lparr>lst_address = parsed, lst_port = word_of_int port, lst_mode = listenerLoopback,
                lst_user = [], lst_pass = []\<rparr>)"
  by (auto simp: NewSOCKSListener_def gateway_invalid_def split: option.splits)

lemma NewManagedSOCKSListener_Inr_iff:
  "NewManagedSOCKSListener port username password = Inr l \<longleftrightarrow>
     1 \<le> port \<and> port \<le> 65535 \<and> safeCredential username 1 64 \<and> safeCredential password 16 128
     \<and> l = \<lparr>lst_address = ipv4_unspecified, lst_port = word_of_int port, lst_mode = listenerManaged,
             lst_user = username, lst_pass = password\<rparr>"
  by (auto simp: NewManagedSOCKSListener_def gateway_invalid_def)

text \<open>The listeners of the program: the values of the two constructors.\<close>

inductive built_listener :: "Listener \<Rightarrow> bool" where
  built_loopback: "NewSOCKSListener address port = Inr l \<Longrightarrow> built_listener l"
| built_managed: "NewManagedSOCKSListener port username password = Inr l \<Longrightarrow> built_listener l"

lemma listener_modes [simp]:
  "listenerLoopback \<noteq> 0" "listenerManaged \<noteq> 0" "listenerManaged \<noteq> listenerLoopback" "listenerLoopback \<noteq> listenerManaged"
  by (simp_all add: listenerLoopback_def listenerManaged_def)

definition Listener_wf :: "Listener \<Rightarrow> bool" where
  "Listener_wf l \<longleftrightarrow> lst_port l \<noteq> 0
     \<and> (if lst_mode l = listenerLoopback
        then addr_IsLoopback (lst_address l) \<and> addr_wf (lst_address l)
          \<and> addr_Zone (lst_address l) = [] \<and> lst_user l = [] \<and> lst_pass l = []
        else lst_mode l = listenerManaged \<and> lst_address l = ipv4_unspecified
          \<and> safeCredential (lst_user l) 1 64 \<and> safeCredential (lst_pass l) 16 128)"

lemma built_listener_wf: "built_listener l \<Longrightarrow> Listener_wf l"
  by (induction rule: built_listener.induct)
    (auto simp: NewSOCKSListener_Inr_iff NewManagedSOCKSListener_Inr_iff Listener_wf_def port_word(2)
      dest: ParseAddr_wf)

lemma loopback_IsValid: "addr_IsLoopback a \<Longrightarrow> addr_IsValid a"
  by (cases a) (auto simp: addr_IsLoopback_def)

lemma Listener_wf_NewGateway:
  assumes "Listener_wf l"
  shows "NewGateway inventory l =
    (if inventory = [] then gateway_invalid ''inventory'' ''must contain at least one admitted endpoint''
     else Inr \<lparr>gw_inventory = inventory, gw_listener = l\<rparr>)"
  using assms
  by (auto simp: NewGateway_def Inventory_Len_def Listener_wf_def loopback_IsValid addr_IsUnspecified_def
      ipv4_unspecified_def safeCredential_def split: if_splits)

lemma NewGateway_Inr_iff:
  "NewGateway inventory l = Inr g \<longleftrightarrow>
     inventory \<noteq> [] \<and> addr_IsValid (lst_address l) \<and> lst_port l \<noteq> 0 \<and> lst_mode l \<noteq> 0
     \<and> (lst_mode l = listenerLoopback \<longrightarrow> addr_IsLoopback (lst_address l))
     \<and> (lst_mode l = listenerManaged \<longrightarrow> addr_IsUnspecified (lst_address l) \<and> lst_user l \<noteq> [] \<and> lst_pass l \<noteq> [])
     \<and> g = \<lparr>gw_inventory = inventory, gw_listener = l\<rparr>"
  by (auto simp: NewGateway_def gateway_invalid_def Inventory_Len_def)

lemma Listener_wf_address:
  assumes "Listener_wf l"
  shows "ParseAddr (Listener_Address l) = Some (lst_address l)"
proof -
  have "addr_wf (lst_address l)" "addr_IsValid (lst_address l)" "addr_Zone (lst_address l) = []"
    using assms by (auto simp: Listener_wf_def ipv4_unspecified_def loopback_IsValid split: if_splits)
  then show ?thesis unfolding Listener_Address_def by (intro ParseAddr_String) auto
qed

text \<open>
  C33. A gateway of the program listens beyond the loopback interface only with a user name and a
  password of at least sixteen characters. Every listener of the two constructors carries one of
  the two named modes, is accepted with any non-empty inventory, unchanged, and its printed
  address parses back to the address it is bound to. Of an arbitrary listener value the gateway
  checks this much: one of either named mode is accepted only on a loopback address, or on the
  unspecified address with both credentials. The guarantee rests on the constructors: a value
  with a mode other than the two and zero would be accepted on any valid address with a port,
  with or without credentials.
\<close>

theorem NewGateway_exposure_safe:
  "(built_listener l \<and> inventory \<noteq> [] \<longrightarrow>
      NewGateway inventory l = Inr \<lparr>gw_inventory = inventory, gw_listener = l\<rparr>
      \<and> lst_mode l \<in> {listenerLoopback, listenerManaged}
      \<and> ParseAddr (Listener_Address l) = Some (lst_address l)
      \<and> (addr_IsLoopback (lst_address l)
         \<or> Listener_Managed l \<and> lst_user l \<noteq> [] \<and> 16 \<le> length (lst_pass l)
           \<and> list_all credential_char (lst_user l @ lst_pass l)))
   \<and> (NewGateway inventory any = Inr g \<and> lst_mode any \<in> {listenerLoopback, listenerManaged} \<longrightarrow>
      inventory \<noteq> [] \<and> g = \<lparr>gw_inventory = inventory, gw_listener = any\<rparr> \<and> lst_port any \<noteq> 0
      \<and> (addr_IsLoopback (lst_address any)
         \<or> Listener_Managed any \<and> addr_IsUnspecified (lst_address any) \<and> lst_user any \<noteq> [] \<and> lst_pass any \<noteq> []))
   \<and> (lst_mode any \<notin> {0, listenerLoopback, listenerManaged} \<longrightarrow>
      (NewGateway inventory any = Inr g \<longleftrightarrow> inventory \<noteq> [] \<and> addr_IsValid (lst_address any) \<and> lst_port any \<noteq> 0
         \<and> g = \<lparr>gw_inventory = inventory, gw_listener = any\<rparr>))"
proof (intro conjI impI)
  assume "built_listener l \<and> inventory \<noteq> []"
  then have wf: "Listener_wf l" and inventory: "inventory \<noteq> []" by (auto intro: built_listener_wf)
  show "NewGateway inventory l = Inr \<lparr>gw_inventory = inventory, gw_listener = l\<rparr>"
    using inventory by (simp add: Listener_wf_NewGateway [OF wf])
  show "lst_mode l \<in> {listenerLoopback, listenerManaged}" using wf by (auto simp: Listener_wf_def split: if_splits)
  show "ParseAddr (Listener_Address l) = Some (lst_address l)" by (rule Listener_wf_address [OF wf])
  show "addr_IsLoopback (lst_address l)
      \<or> Listener_Managed l \<and> lst_user l \<noteq> [] \<and> 16 \<le> length (lst_pass l)
        \<and> list_all credential_char (lst_user l @ lst_pass l)"
    using wf by (auto simp: Listener_wf_def Listener_Managed_def safeCredential_def split: if_splits)
next
  assume g: "NewGateway inventory any = Inr g \<and> lst_mode any \<in> {listenerLoopback, listenerManaged}"
  show "inventory \<noteq> []" "g = \<lparr>gw_inventory = inventory, gw_listener = any\<rparr>" "lst_port any \<noteq> 0"
    using g by (simp_all add: NewGateway_Inr_iff)
  show "addr_IsLoopback (lst_address any)
      \<or> Listener_Managed any \<and> addr_IsUnspecified (lst_address any) \<and> lst_user any \<noteq> [] \<and> lst_pass any \<noteq> []"
    using g by (auto simp: NewGateway_Inr_iff Listener_Managed_def)
next
  assume "lst_mode any \<notin> {0, listenerLoopback, listenerManaged}"
  then show "NewGateway inventory any = Inr g \<longleftrightarrow> inventory \<noteq> [] \<and> addr_IsValid (lst_address any) \<and> lst_port any \<noteq> 0
      \<and> g = \<lparr>gw_inventory = inventory, gw_listener = any\<rparr>" by (auto simp: NewGateway_Inr_iff)
qed

theorem NewGateway_exposure_safe_witness:
  "\<exists>l. NewManagedSOCKSListener 1080 ''user'' ''0123456789abcdef'' = Inr l
     \<and> NewGateway [sample_record ''s1'' [''one'']] l
       = Inr \<lparr>gw_inventory = [sample_record ''s1'' [''one'']], gw_listener = l\<rparr>
     \<and> \<not> addr_IsLoopback (lst_address l)"
proof -
  have "\<exists>l. NewManagedSOCKSListener 1080 ''user'' ''0123456789abcdef'' = Inr l
      \<and> lst_address l = ipv4_unspecified"
    by (simp add: NewManagedSOCKSListener_Inr_iff safeCredential_def credential_char_def is_lower_def
        is_digit_def code_def)
  then obtain l where l: "NewManagedSOCKSListener 1080 ''user'' ''0123456789abcdef'' = Inr l"
    "lst_address l = ipv4_unspecified" by blast
  moreover have "\<not> addr_IsLoopback ipv4_unspecified" by code_simp
  moreover have "NewGateway [sample_record ''s1'' [''one'']] l
       = Inr \<lparr>gw_inventory = [sample_record ''s1'' [''one'']], gw_listener = l\<rparr>"
    using NewGateway_exposure_safe [of l "[sample_record ''s1'' [''one'']]" l] built_managed [OF l(1)] by blast
  ultimately show ?thesis by metis
qed

end
