(* ===== verification/Engine_Capability.thy ===== *)
theory Engine_Capability
  imports Endpoint_Inventory Artifact
begin

text \<open>
  The capability gate and the naming of \<^verbatim>\<open>internal/engine/renderer.go\<close>. \<^verbatim>\<open>AssessEndpoint\<close> is a
  cascade of early returns; the lemmas compare it with one closed table of supported forms.
  \<^verbatim>\<open>AssignNames\<close> numbers the records of one endpoint, and the names never repeat.
\<close>

section \<open>Assessments\<close>

datatype BuildSupport = BuildUnverified | BuildAvailable | BuildUnavailable

record Assessment =
  as_Build :: BuildSupport
  as_Implemented :: bool
  as_Field :: string
  as_Feature :: string

datatype engine_error =
    InvalidEndpoint endpoint_error
  | CapabilityError Profile string string \<comment> \<open>profile, field and feature\<close>

definition unsupported :: "string \<Rightarrow> string \<Rightarrow> Assessment" where
  "unsupported field feature = \<lparr>as_Build = BuildAvailable, as_Implemented = False, as_Field = field,
     as_Feature = feature\<rparr>"

definition supported :: Assessment where
  "supported = \<lparr>as_Build = BuildAvailable, as_Implemented = True, as_Field = [], as_Feature = []\<rparr>"

text \<open>The final switch on the transport.\<close>

definition assess_transport :: "Profile \<Rightarrow> Configuration \<Rightarrow> Assessment" where
  "assess_transport profile c =
     (let kind = tr_kind (cfg_transport c)
      in case kind of
        TransportTCP \<Rightarrow> supported
      | TransportWebSocket \<Rightarrow> supported
      | TransportXHTTP \<Rightarrow>
          if profile = SingBox1141
          then (unsupported ''endpoint.transport'' ''xhttp'')\<lparr>as_Build := BuildUnavailable\<rparr>
          else if cfg_protocol c \<noteq> ProtocolVLESS \<or> \<not> tls_enabled (cfg_tls c)
          then unsupported ''endpoint.transport'' ''xhttp_protocol''
          else supported
      | _ \<Rightarrow>
          if kind = TransportHTTP2 \<or> kind = TransportGRPC \<or> kind = TransportHTTPUpgrade then
            if cfg_protocol c \<noteq> ProtocolVLESS \<or> \<not> tls_enabled (cfg_tls c)
            then unsupported ''endpoint.transport'' (TransportKind_String kind)
            else supported
          else (unsupported ''endpoint.transport'' (TransportKind_String kind))\<lparr>as_Build := BuildUnverified\<rparr>)"

text \<open>The cascade for a valid configuration and a qualified profile.\<close>

definition assess_form :: "Profile \<Rightarrow> Configuration \<Rightarrow> Assessment" where
  "assess_form profile c =
     (let sec = Configuration_SecurityOptions c;
          vless_tcp = (cfg_protocol c = ProtocolVLESS \<and> tr_kind (cfg_transport c) = TransportTCP)
      in if cfg_protocol c = ProtocolHysteria2 then
           if sec_fingerprint sec \<noteq> []
           then unsupported ''endpoint.security'' ''hysteria2_client_fingerprint''
           else supported
         else if sec_reality sec \<noteq> None then
           if vless_tcp \<and> Configuration_Flow c = FlowVision then supported
           else unsupported ''endpoint.security'' ''reality_transport''
         else if Configuration_Flow c \<noteq> FlowNone
         then unsupported ''endpoint.flow'' ''vision''
         else if sec_fingerprint sec \<noteq> [] \<and> \<not> vless_tcp
         then unsupported ''endpoint.security'' ''client_fingerprint''
         else if sec_alpn sec \<noteq> [] \<and> \<not> vless_tcp
         then unsupported ''endpoint.security'' ''alpn''
         else assess_transport profile c)"

definition AssessEndpoint :: "Profile \<Rightarrow> Configuration \<Rightarrow> engine_error + Assessment" where
  "AssessEndpoint profile c =
     (case Configuration_Validate c of
        Some e \<Rightarrow> Inl (InvalidEndpoint e)
      | None \<Rightarrow>
          if profile \<noteq> Mihomo11931 \<and> profile \<noteq> SingBox1141
          then Inr \<lparr>as_Build = BuildUnverified, as_Implemented = False, as_Field = ''engine.profile'',
                 as_Feature = ''unqualified_profile''\<rparr>
          else Inr (assess_form profile c))"

definition CheckEndpoint :: "Profile \<Rightarrow> Configuration \<Rightarrow> engine_error + unit" where
  "CheckEndpoint profile c =
     and_then (AssessEndpoint profile c) (\<lambda>assessment.
       if as_Implemented assessment \<and> as_Build assessment = BuildAvailable then Inr ()
       else Inl (CapabilityError profile (as_Field assessment) (as_Feature assessment)))"

section \<open>Names\<close>

record NamedRecord =
  nr_Name :: string
  nr_Record :: Record

text \<open>\<^verbatim>\<open>fmt\<close>'s verb \<^verbatim>\<open>%03d\<close> on a count, which is positive.\<close>

definition pad3 :: "nat \<Rightarrow> string" where
  "pad3 n = replicate (3 - length (dec_digits n)) CHR ''0'' @ dec_digits n"

definition record_name :: "ID \<Rightarrow> nat \<Rightarrow> string" where
  "record_name i n = ''egressfox-'' @ i @ ''-'' @ pad3 n"

fun assign_loop :: "(ID \<Rightarrow> nat) \<Rightarrow> Record list \<Rightarrow> NamedRecord list" where
  "assign_loop counts [] = []"
| "assign_loop counts (r # rs) =
     (let i = ID_String (Record_ID r); counts' = counts(i := counts i + 1)
      in \<lparr>nr_Name = record_name i (counts' i), nr_Record = r\<rparr> # assign_loop counts' rs)"

definition AssignNames :: "Inventory \<Rightarrow> NamedRecord list" where
  "AssignNames inventory = assign_loop (\<lambda>_. 0) (Inventory_Records inventory)"

section \<open>The gate as a table\<close>

text \<open>
  The forms the shipped engines carry traffic for: the qualified profiles, and for each the
  admitted protocol, transport and security combinations.
\<close>

definition plain_form :: "Profile \<Rightarrow> Configuration \<Rightarrow> bool" where
  "plain_form profile c \<longleftrightarrow>
     (let kind = tr_kind (cfg_transport c)
      in kind \<in> {TransportTCP, TransportWebSocket}
         \<or> cfg_protocol c = ProtocolVLESS \<and> tls_enabled (cfg_tls c)
           \<and> (kind \<in> {TransportHTTP2, TransportGRPC, TransportHTTPUpgrade}
              \<or> kind = TransportXHTTP \<and> profile = Mihomo11931))"

definition supported_form :: "Profile \<Rightarrow> Configuration \<Rightarrow> bool" where
  "supported_form profile c \<longleftrightarrow>
     (let sec = Configuration_SecurityOptions c;
          direct = (cfg_protocol c = ProtocolVLESS \<and> tr_kind (cfg_transport c) = TransportTCP)
      in if cfg_protocol c = ProtocolHysteria2 then sec_fingerprint sec = []
         else if sec_reality sec \<noteq> None then direct \<and> Configuration_Flow c = FlowVision
         else Configuration_Flow c = FlowNone \<and> (direct \<or> sec_fingerprint sec = [] \<and> sec_alpn sec = [])
           \<and> plain_form profile c)"

lemma profiles_differ [simp]: "Mihomo11931 \<noteq> SingBox1141" "SingBox1141 \<noteq> Mihomo11931"
  by (simp_all add: Mihomo11931_def SingBox1141_def)

definition admitted :: "Assessment \<Rightarrow> bool" where
  "admitted a \<longleftrightarrow> as_Implemented a \<and> as_Build a = BuildAvailable"

lemma admitted_simps [simp]:
  "admitted supported" "\<not> admitted (unsupported f g)" "\<not> admitted ((unsupported f g)\<lparr>as_Build := b\<rparr>)"
  by (simp_all add: admitted_def supported_def unsupported_def)

lemma admitted_assess_transport:
  assumes "profile \<in> {Mihomo11931, SingBox1141}"
  shows "admitted (assess_transport profile c) = plain_form profile c"
  using assms by (auto simp: assess_transport_def plain_form_def Let_def split: TransportKind.splits)

lemma admitted_assess_form:
  assumes "profile \<in> {Mihomo11931, SingBox1141}"
  shows "admitted (assess_form profile c) = supported_form profile c"
  unfolding assess_form_def supported_form_def Let_def
  by (simp only: if_distrib [of admitted] admitted_assess_transport [OF assms] admitted_simps if_bool_eq_conj) blast

lemma CheckEndpoint_table:
  "CheckEndpoint profile c = Inr () \<longleftrightarrow>
     Configuration_valid c \<and> profile \<in> {Mihomo11931, SingBox1141} \<and> supported_form profile c"
proof (cases "Configuration_valid c \<and> profile \<in> {Mihomo11931, SingBox1141}")
  case True
  then have "AssessEndpoint profile c = Inr (assess_form profile c)"
    by (auto simp: AssessEndpoint_def Configuration_Validate_def)
  then have "CheckEndpoint profile c = Inr () \<longleftrightarrow> admitted (assess_form profile c)"
    by (simp add: CheckEndpoint_def admitted_def)
  with True show ?thesis by (simp only: admitted_assess_form simp_thms)
next
  case False
  then show ?thesis
    by (auto simp: CheckEndpoint_def AssessEndpoint_def Configuration_Validate_def)
qed

lemma supported_form_singbox: "supported_form SingBox1141 c \<Longrightarrow> supported_form Mihomo11931 c"
  by (auto simp: supported_form_def plain_form_def Let_def split: if_splits)

text \<open>
  C34. The capability gate is exactly the table of supported forms: an endpoint passes for a
  profile if and only if its configuration is valid, the profile is one of the two shipped ones
  and the form is in the table. Whatever passes for sing-box passes for Mihomo, and an endpoint
  that is refused although its configuration is valid is refused with a capability error
  naming the profile.
\<close>

theorem CheckEndpoint_exact:
  "(CheckEndpoint profile c = Inr () \<longleftrightarrow>
      Configuration_valid c \<and> profile \<in> {Mihomo11931, SingBox1141} \<and> supported_form profile c)
   \<and> (CheckEndpoint SingBox1141 c = Inr () \<longrightarrow> CheckEndpoint Mihomo11931 c = Inr ())
   \<and> (CheckEndpoint profile c \<noteq> Inr () \<and> Configuration_valid c \<longrightarrow>
      (\<exists>field feature. CheckEndpoint profile c = Inl (CapabilityError profile field feature)))"
proof (intro conjI impI)
  show "CheckEndpoint profile c = Inr () \<longleftrightarrow>
      Configuration_valid c \<and> profile \<in> {Mihomo11931, SingBox1141} \<and> supported_form profile c"
    by (rule CheckEndpoint_table)
  show "CheckEndpoint Mihomo11931 c = Inr ()" if "CheckEndpoint SingBox1141 c = Inr ()"
    using that by (auto simp: CheckEndpoint_table supported_form_singbox)
  show "\<exists>field feature. CheckEndpoint profile c = Inl (CapabilityError profile field feature)"
    if "CheckEndpoint profile c \<noteq> Inr () \<and> Configuration_valid c"
    using that by (auto simp: CheckEndpoint_def AssessEndpoint_def Configuration_Validate_def)
qed

theorem CheckEndpoint_exact_witness:
  "CheckEndpoint SingBox1141 sample_configuration = Inr () \<and> CheckEndpoint Mihomo11931 sample_configuration = Inr ()"
proof -
  have "CheckEndpoint SingBox1141 sample_configuration = Inr ()" by code_simp
  then show ?thesis using CheckEndpoint_exact [of SingBox1141 sample_configuration] by blast
qed

section \<open>Names are unique\<close>

lemma pad3_value [simp]: "dec_value (pad3 n) = n"
proof -
  have "foldl (\<lambda>v c. 10 * v + (code c - 48)) 0 (replicate k CHR ''0'') = 0" for k
    by (induction k) (simp_all add: code_def)
  then have "dec_value (replicate k CHR ''0'' @ s) = dec_value s" for k s
    by (simp add: dec_value_def)
  then show ?thesis by (simp add: pad3_def)
qed

lemma pad3_digits: "list_all is_digit (pad3 n)"
  by (simp add: pad3_def dec_digits_is_digit list_all_iff [of is_digit "replicate _ _"] is_digit_def code_def)

lemma pad3_no_hyphen: "CHR ''-'' \<notin> set (pad3 n)"
  using pad3_digits [of n] by (auto simp: list_all_iff is_digit_def code_def)

lemma split_at_last:
  assumes "c \<notin> set s" "c \<notin> set t" "x @ c # s = y @ c # t"
  shows "x = y \<and> s = t"
proof -
  have "rev s @ c # rev x = rev t @ c # rev y" using arg_cong [OF assms(3), of rev] by simp
  moreover have "takeWhile (\<lambda>d. d \<noteq> c) (rev u @ c # v) = rev u" if "c \<notin> set u" for u v
    using that by (subst takeWhile_append2) auto
  ultimately have "rev s = rev t" using assms(1,2) by metis
  then show ?thesis using assms(3) by simp
qed

lemma record_name_inj: "record_name i m = record_name j n \<longleftrightarrow> i = j \<and> m = n"
proof
  assume "record_name i m = record_name j n"
  then have "i @ CHR ''-'' # pad3 m = j @ CHR ''-'' # pad3 n" by (simp add: record_name_def)
  from split_at_last [OF pad3_no_hyphen pad3_no_hyphen this] show "i = j \<and> m = n"
    by (metis pad3_value)
qed simp

lemma assign_loop_records [simp]: "map nr_Record (assign_loop counts rs) = rs"
  by (induction rs arbitrary: counts) (simp_all add: Let_def)

lemma assign_loop_names:
  "x \<in> set (assign_loop counts rs) \<Longrightarrow> \<exists>i n. nr_Name x = record_name i n \<and> counts i < n"
proof (induction rs arbitrary: counts)
  case (Cons r rs)
  define i where "i = ID_String (Record_ID r)"
  define counts' where "counts' = counts(i := counts i + 1)"
  have grow: "counts j \<le> counts' j" for j by (simp add: counts'_def)
  have "x = \<lparr>nr_Name = record_name i (counts' i), nr_Record = r\<rparr> \<or> x \<in> set (assign_loop counts' rs)"
    using Cons.prems by (simp add: Let_def i_def counts'_def)
  then show ?case
  proof
    assume "x = \<lparr>nr_Name = record_name i (counts' i), nr_Record = r\<rparr>"
    then show ?thesis by (intro exI [of _ i] exI [of _ "counts' i"]) (simp add: counts'_def)
  next
    assume "x \<in> set (assign_loop counts' rs)"
    from Cons.IH [OF this] show ?thesis using grow by (meson le_less_trans)
  qed
qed simp

lemma assign_loop_distinct: "distinct (map nr_Name (assign_loop counts rs))"
proof (induction rs arbitrary: counts)
  case (Cons r rs)
  define i where "i = ID_String (Record_ID r)"
  have "record_name i (counts i + 1) \<notin> nr_Name ` set (assign_loop (counts(i := counts i + 1)) rs)"
    by (auto simp: record_name_inj dest!: assign_loop_names)
  with Cons.IH show ?case by (simp add: Let_def i_def [symmetric])
qed simp

text \<open>
  C35. Names identify records: naming an inventory keeps its records and their order, and no two
  records get the same name, even when several share one endpoint identifier.
\<close>

theorem AssignNames_unique:
  "map nr_Record (AssignNames inventory) = Inventory_Records inventory
   \<and> distinct (map nr_Name (AssignNames inventory))"
  by (simp add: AssignNames_def assign_loop_distinct)

end
