(* ===== verification/Runtime.thy ===== *)
theory Runtime
  imports Prelude
begin

text \<open>
  What the effectful components observe of the Go runtime: the state of a
  \<^verbatim>\<open>context.Context\<close>. The model passes it as an argument wherever the code reads
  \<^verbatim>\<open>ctx.Err()\<close> or waits on \<^verbatim>\<open>ctx.Done()\<close>.
\<close>

datatype ctx_err = CtxLive | CtxCanceled | CtxDeadlineExceeded

definition ctx_done :: "ctx_err \<Rightarrow> bool" where
  "ctx_done ctx \<longleftrightarrow> ctx \<noteq> CtxLive"

text \<open>
  \<^verbatim>\<open>contextCode\<close>, declared alike in \<^verbatim>\<open>internal/probe\<close> and \<^verbatim>\<open>internal/state\<close>: the two causes
  exclude each other, so the order of the tests does not matter.
\<close>

fun contextCode :: "ctx_err \<Rightarrow> string \<Rightarrow> string" where
  "contextCode CtxLive fallback = fallback"
| "contextCode CtxCanceled fallback = ''cancelled''"
| "contextCode CtxDeadlineExceeded fallback = ''timeout''"

end
