(* ===== verification/Probe_Authorize.thy ===== *)
theory Probe_Authorize
  imports Observation Runtime
begin

text \<open>
  Destination authorization of \<^verbatim>\<open>internal/probe/authorize.go\<close>. A host is turned into the one
  address a probe may connect to; every address the name resolves to has to be admissible, so a
  name that also points at an internal address is refused as a whole. The resolver is the
  interface the code takes, an argument here.
\<close>

section \<open>Targets\<close>

text \<open>
  The fields of \<^verbatim>\<open>url.URL\<close> that the probe reads, and the target they belong to
  (\<^verbatim>\<open>internal/observation/target.go\<close>).
\<close>

record request_url =
  url_Scheme :: string
  url_Host :: string

record HTTPTarget =
  tgt_id :: string
  tgt_revision :: TargetRevision
  tgt_requestURL :: request_url
  tgt_expectedStatus :: int
  tgt_timeout :: duration
  tgt_maxResponseBytes :: int
  tgt_allowPrivate :: bool

definition HTTPTarget_Ref :: "HTTPTarget \<Rightarrow> TargetRef" where
  "HTTPTarget_Ref target = \<lparr>tref_id = tgt_id target, tref_revision = tgt_revision target\<rparr>"

text \<open>
  \<^verbatim>\<open>URL.Hostname\<close>: the host without a port and without brackets. A port is what follows the
  last colon when that is only digits.
\<close>

definition strip_port :: "string \<Rightarrow> string" where
  "strip_port host =
     (let after = rev (takeWhile (\<lambda>c. c \<noteq> CHR '':'') (rev host))
      in if CHR '':'' \<in> set host \<and> list_all is_digit after
         then take (length host - length after - 1) host else host)"

definition URL_Hostname :: "request_url \<Rightarrow> string" where
  "URL_Hostname u =
     (let host = strip_port (url_Host u)
      in if has_prefix host ''['' \<and> has_suffix host '']'' then butlast (tl host) else host)"

section \<open>Admissible addresses\<close>

definition must_parse_addr :: "string \<Rightarrow> netip_addr" where
  "must_parse_addr s = (case ParseAddr s of Some a \<Rightarrow> a | None \<Rightarrow> AddrZero)"

definition must_parse_prefix :: "string \<Rightarrow> nat \<Rightarrow> netip_prefix" where
  "must_parse_prefix s n = \<lparr>prefix_addr = must_parse_addr s, prefix_bits = n\<rparr>"

definition sharedOrControlPrefixes :: "netip_prefix list" where
  "sharedOrControlPrefixes =
     [must_parse_prefix ''0.0.0.0'' 8, must_parse_prefix ''100.64.0.0'' 10, must_parse_prefix ''192.0.0.0'' 24,
      must_parse_prefix ''198.18.0.0'' 15, must_parse_prefix ''192.0.2.0'' 24,
      must_parse_prefix ''198.51.100.0'' 24, must_parse_prefix ''203.0.113.0'' 24,
      must_parse_prefix ''240.0.0.0'' 4, must_parse_prefix ''2001:db8::'' 32]"

definition metadataAddresses :: "netip_addr list" where
  "metadataAddresses =
     [must_parse_addr ''169.254.169.254'', must_parse_addr ''169.254.170.2'',
      must_parse_addr ''100.100.100.200'', must_parse_addr ''fd00:ec2::254'']"

definition isSharedOrControlAddress :: "netip_addr \<Rightarrow> bool" where
  "isSharedOrControlAddress address = list_ex (\<lambda>p. prefix_Contains p address) sharedOrControlPrefixes"

definition authorizedAddress :: "netip_addr \<Rightarrow> bool \<Rightarrow> bool" where
  "authorizedAddress addr allowPrivate =
     (let address = addr_Unmap addr
      in if address \<in> set metadataAddresses then False
         else if \<not> addr_IsValid address \<or> addr_Zone address \<noteq> [] \<or> addr_IsUnspecified address
           \<or> addr_IsMulticast address \<or> addr_IsLinkLocalUnicast address
           \<or> addr_IsLinkLocalMulticast address \<or> isSharedOrControlAddress address then False
         else if \<not> allowPrivate \<and> (addr_IsPrivate address \<or> addr_IsLoopback address) then False
         else True)"

section \<open>Hosts\<close>

datatype probe_error = ExecutionError string \<comment> \<open>code\<close>

type_synonym Resolver = "string \<Rightarrow> netip_addr list option"

text \<open>The loop that unmaps and checks the answers in place, and stops at the first refusal.\<close>

fun authorize_all :: "bool \<Rightarrow> string \<Rightarrow> netip_addr list \<Rightarrow> probe_error + netip_addr list" where
  "authorize_all allowPrivate subject [] = Inr []"
| "authorize_all allowPrivate subject (a # as) =
     (let address = addr_Unmap a
      in if \<not> authorizedAddress address allowPrivate
         then Inl (ExecutionError (subject @ ''_address_denied''))
         else and_then (authorize_all allowPrivate subject as) (\<lambda>rest. Inr (address # rest)))"

definition authorizeHost ::
  "ctx_err \<Rightarrow> Resolver \<Rightarrow> string \<Rightarrow> bool \<Rightarrow> string \<Rightarrow> probe_error + netip_addr" where
  "authorizeHost ctx resolver host allowPrivate subject =
     and_then
       (case ParseAddr host of
          Some literal \<Rightarrow> Inr [literal]
        | None \<Rightarrow>
            (case resolver host of
               None \<Rightarrow> Inl (ExecutionError (contextCode ctx (subject @ ''_resolution'')))
             | Some resolved \<Rightarrow> Inr resolved))
       (\<lambda>addresses.
          if addresses = [] then Inl (ExecutionError (subject @ ''_resolution_empty''))
          else and_then (authorize_all allowPrivate subject addresses)
                 (\<lambda>unmapped. Inr (hd (sort_by addr_less unmapped))))"

record authorizedTarget =
  at_target :: HTTPTarget
  at_address :: netip_addr

definition authorizeTarget :: "ctx_err \<Rightarrow> Resolver \<Rightarrow> HTTPTarget \<Rightarrow> probe_error + authorizedTarget" where
  "authorizeTarget ctx resolver target =
     and_then (authorizeHost ctx resolver (URL_Hostname (tgt_requestURL target)) (tgt_allowPrivate target) ''target'')
       (\<lambda>address. Inr \<lparr>at_target = target, at_address = address\<rparr>)"

section \<open>What is admitted\<close>

lemma addr_Unmap_idem [simp]: "addr_wf a \<Longrightarrow> addr_Unmap (addr_Unmap a) = addr_Unmap a"
  by (cases a) auto

lemma addr_Unmap_wf [simp]: "addr_wf a \<Longrightarrow> addr_wf (addr_Unmap a)"
  by (cases a) auto

lemma authorizedAddress_unmap:
  "addr_wf a \<Longrightarrow> authorizedAddress (addr_Unmap a) allow = authorizedAddress a allow"
  by (simp add: authorizedAddress_def)

lemma authorize_all_Inr_iff:
  "authorize_all allow subject as = Inr bs \<longleftrightarrow>
     bs = map addr_Unmap as \<and> (\<forall>a\<in>set as. authorizedAddress (addr_Unmap a) allow)"
  by (induction as arbitrary: bs) (auto simp: Let_def and_then_Inr_iff)

lemma authorize_all_denied:
  assumes "\<exists>a\<in>set as. \<not> authorizedAddress (addr_Unmap a) allow"
  shows "authorize_all allow subject as = Inl (ExecutionError (subject @ ''_address_denied''))"
  using assms by (induction as) (auto simp: Let_def)

text \<open>The answers the host stands for: itself when it is an address, else what it resolves to.\<close>

definition answers :: "Resolver \<Rightarrow> string \<Rightarrow> netip_addr list" where
  "answers resolver host =
     (case ParseAddr host of Some literal \<Rightarrow> [literal]
      | None \<Rightarrow> (case resolver host of None \<Rightarrow> [] | Some resolved \<Rightarrow> resolved))"

lemma authorizeHost_Inr_iff:
  "authorizeHost ctx resolver host allow subject = Inr a \<longleftrightarrow>
     answers resolver host \<noteq> [] \<and> (\<forall>b\<in>set (answers resolver host). authorizedAddress (addr_Unmap b) allow)
     \<and> a = hd (sort_by addr_less (map addr_Unmap (answers resolver host)))"
proof -
  have "authorizeHost ctx resolver host allow subject =
      (if answers resolver host = [] then authorizeHost ctx resolver host allow subject
       else and_then (authorize_all allow subject (answers resolver host))
              (\<lambda>unmapped. Inr (hd (sort_by addr_less unmapped))))"
    by (simp add: authorizeHost_def answers_def split: option.split)
  moreover have "is_ok (authorizeHost ctx resolver host allow subject) \<Longrightarrow> answers resolver host \<noteq> []"
    by (simp add: authorizeHost_def answers_def is_ok_def split: option.splits if_splits)
  ultimately show ?thesis
    by (cases "answers resolver host = []") (auto simp: is_ok_def and_then_Inr_iff authorize_all_Inr_iff)
qed

lemma hd_sort_by_least:
  assumes "list_all addr_wf xs" "xs \<noteq> []"
  shows "hd (sort_by addr_less xs) \<in> set xs \<and> (\<forall>x\<in>set xs. \<not> addr_less x (hd (sort_by addr_less xs)))"
proof -
  have sorted: "sorted_wrt (\<lambda>a b. \<not> addr_less b a) (sort_by addr_less xs)"
    by (rule addr_order.sort_by_sorted [OF assms(1)])
  obtain y ys where s: "sort_by addr_less xs = y # ys"
    using assms(2) by (metis neq_Nil_conv set_empty set_sort_by)
  then have sets: "set xs = insert y (set ys)" by (metis list.simps(15) set_sort_by)
  have "\<not> addr_less y y" using assms(1) sets addr_order.asym [of y y] by (auto simp: list_all_iff)
  then show ?thesis using sorted s sets by auto
qed

lemma take_nat_bits: "k \<le> w \<Longrightarrow> take k (nat_bits w n) = nat_bits k (n div 2 ^ (w - k))"
proof -
  assume k: "k \<le> w"
  have "n div 2 ^ (w - Suc i) = n div 2 ^ (w - k) div 2 ^ (k - Suc i)" if "i < k" for i
  proof -
    have "w - Suc i = (w - k) + (k - Suc i)" using k that by simp
    then show ?thesis by (simp add: power_add div_mult2_eq)
  qed
  then show ?thesis using k by (simp add: nat_bits_def take_map)
qed

lemma take_bits_eq:
  assumes "k \<le> 8"
  shows "take k (nat_bits 8 (code x)) = take k (nat_bits 8 (code a))
    \<longleftrightarrow> code x div 2 ^ (8 - k) = code a div 2 ^ (8 - k)"
proof -
  have "code c div 2 ^ (8 - k) < 2 ^ k" for c
  proof -
    have "(256::nat) = 2 ^ (8 - k) * 2 ^ k" using assms by (simp flip: power_add)
    then show ?thesis using code_less [of c] by (simp add: div_less_iff_less_mult mult.commute)
  qed
  then show ?thesis using assms by (metis bits_nat_nat_bits take_nat_bits)
qed

lemma nat_bits_code_eq: "nat_bits 8 (code x) = nat_bits 8 (code a) \<longleftrightarrow> x = a"
  using take_bits_eq [of 8 x a] by (simp add: code_def)

lemma prefix_octets:
  assumes "must_parse_addr s = Addr4 [x, y, z, w]"
  shows "k \<le> 8 \<Longrightarrow> prefix_Contains (must_parse_prefix s k) (Addr4 [a, b, c, d])
      \<longleftrightarrow> code x div 2 ^ (8 - k) = code a div 2 ^ (8 - k)"
    and "k \<le> 8 \<Longrightarrow> prefix_Contains (must_parse_prefix s (8 + k)) (Addr4 [a, b, c, d])
      \<longleftrightarrow> x = a \<and> code y div 2 ^ (8 - k) = code b div 2 ^ (8 - k)"
    and "k \<le> 8 \<Longrightarrow> prefix_Contains (must_parse_prefix s (16 + k)) (Addr4 [a, b, c, d])
      \<longleftrightarrow> x = a \<and> y = b \<and> code z div 2 ^ (8 - k) = code c div 2 ^ (8 - k)"
  using assms
  by (simp_all add: prefix_Contains_def must_parse_prefix_def byte_bits_def take_bits_eq nat_bits_code_eq)

lemma control_v4:
  "isSharedOrControlAddress (Addr4 [a, b, c, d]) \<longleftrightarrow>
     code a = 0 \<or> code a = 100 \<and> code b div 64 = 1 \<or> code a = 192 \<and> code b = 0 \<and> code c \<in> {0, 2}
     \<or> code a = 198 \<and> code b div 2 = 9 \<or> code a = 198 \<and> code b = 51 \<and> code c = 100
     \<or> code a = 203 \<and> code b = 0 \<and> code c = 113 \<or> 240 \<le> code a"
proof -
  have v4: "must_parse_addr ''0.0.0.0'' = Addr4 [byte 0, byte 0, byte 0, byte 0]"
    "must_parse_addr ''100.64.0.0'' = Addr4 [byte 100, byte 64, byte 0, byte 0]"
    "must_parse_addr ''192.0.0.0'' = Addr4 [byte 192, byte 0, byte 0, byte 0]"
    "must_parse_addr ''198.18.0.0'' = Addr4 [byte 198, byte 18, byte 0, byte 0]"
    "must_parse_addr ''192.0.2.0'' = Addr4 [byte 192, byte 0, byte 2, byte 0]"
    "must_parse_addr ''198.51.100.0'' = Addr4 [byte 198, byte 51, byte 100, byte 0]"
    "must_parse_addr ''203.0.113.0'' = Addr4 [byte 203, byte 0, byte 113, byte 0]"
    "must_parse_addr ''240.0.0.0'' = Addr4 [byte 240, byte 0, byte 0, byte 0]"
    by code_simp+
  have v6: "\<not> prefix_Contains (must_parse_prefix ''2001:db8::'' 32) (Addr4 [a, b, c, d])"
  proof -
    have "addr_bits (must_parse_addr ''2001:db8::'') = 128" by code_simp
    then show ?thesis by (simp add: prefix_Contains_def must_parse_prefix_def)
  qed
  have byte_eq: "byte n = x \<longleftrightarrow> code x = n" if "n < 256" for n x
    using that by fastforce
  have high: "15 = code a div 16 \<longleftrightarrow> 240 \<le> code a" using code_less [of a] by linarith
  let ?A = "Addr4 [a, b, c, d]"
  have "prefix_Contains (must_parse_prefix ''0.0.0.0'' 8) ?A \<longleftrightarrow> code a = 0"
    using prefix_octets(1) [OF v4(1), of 8 a b c d] by auto
  moreover have "prefix_Contains (must_parse_prefix ''100.64.0.0'' 10) ?A \<longleftrightarrow> code a = 100 \<and> code b div 64 = 1"
    using prefix_octets(2) [OF v4(2), of 2 a b c d] by (auto simp: byte_eq)
  moreover have "prefix_Contains (must_parse_prefix ''192.0.0.0'' 24) ?A \<longleftrightarrow> code a = 192 \<and> code b = 0 \<and> code c = 0"
    using prefix_octets(3) [OF v4(3), of 8 a b c d] by (auto simp: byte_eq)
  moreover have "prefix_Contains (must_parse_prefix ''198.18.0.0'' 15) ?A \<longleftrightarrow> code a = 198 \<and> code b div 2 = 9"
    using prefix_octets(2) [OF v4(4), of 7 a b c d] by (auto simp: byte_eq)
  moreover have "prefix_Contains (must_parse_prefix ''192.0.2.0'' 24) ?A \<longleftrightarrow> code a = 192 \<and> code b = 0 \<and> code c = 2"
    using prefix_octets(3) [OF v4(5), of 8 a b c d] by (auto simp: byte_eq)
  moreover have "prefix_Contains (must_parse_prefix ''198.51.100.0'' 24) ?A \<longleftrightarrow> code a = 198 \<and> code b = 51 \<and> code c = 100"
    using prefix_octets(3) [OF v4(6), of 8 a b c d] by (auto simp: byte_eq)
  moreover have "prefix_Contains (must_parse_prefix ''203.0.113.0'' 24) ?A \<longleftrightarrow> code a = 203 \<and> code b = 0 \<and> code c = 113"
    using prefix_octets(3) [OF v4(7), of 8 a b c d] by (auto simp: byte_eq)
  moreover have "prefix_Contains (must_parse_prefix ''240.0.0.0'' 4) ?A \<longleftrightarrow> 240 \<le> code a"
    using prefix_octets(1) [OF v4(8), of 4 a b c d] high by simp
  ultimately show ?thesis
    using v6 by (simp only: isSharedOrControlAddress_def sharedOrControlPrefixes_def list_ex_iff list.set bex_simps insert_iff empty_iff simp_thms) blast
qed

text \<open>
  The reserved ranges, octet by octet: this network, loopback, private, shared, link-local,
  documentation, benchmark, multicast and future use for IPv4; unspecified, multicast,
  link-local, documentation and the one metadata address for IPv6, and the embedded IPv4
  addresses. Private and loopback ranges are open only where the target allows them.
\<close>

fun forbidden_v4 :: "bool \<Rightarrow> bytes \<Rightarrow> bool" where
  "forbidden_v4 allowPrivate [a, b, c, d] \<longleftrightarrow>
     code a = 0 \<or> 224 \<le> code a \<or> code a = 169 \<and> code b = 254 \<or> code a = 100 \<and> code b div 64 = 1
     \<or> code a = 192 \<and> code b = 0 \<and> code c \<in> {0, 2} \<or> code a = 198 \<and> code b \<in> {18, 19}
     \<or> code a = 198 \<and> code b = 51 \<and> code c = 100 \<or> code a = 203 \<and> code b = 0 \<and> code c = 113
     \<or> \<not> allowPrivate \<and> (code a = 10 \<or> code a = 127 \<or> code a = 172 \<and> code b div 16 = 1
          \<or> code a = 192 \<and> code b = 168)"
| "forbidden_v4 allowPrivate _ \<longleftrightarrow> True"

definition forbidden_v6 :: "bool \<Rightarrow> bytes \<Rightarrow> bool" where
  "forbidden_v6 allowPrivate bs \<longleftrightarrow>
     length bs \<noteq> 16 \<or> take 12 bs = mapped_prefix \<or> bs = replicate 16 (byte 0) \<or> octet bs 0 = 255
     \<or> octet bs 0 = 254 \<and> octet bs 1 div 64 = 2
     \<or> octet bs 0 = 32 \<and> octet bs 1 = 1 \<and> octet bs 2 = 13 \<and> octet bs 3 = 184
     \<or> bs = map byte [253, 0, 14, 194] @ replicate 10 (byte 0) @ map byte [2, 84]
     \<or> \<not> allowPrivate \<and> (octet bs 0 div 2 = 126 \<or> bs = replicate 15 (byte 0) @ [byte 1])"

fun reserved :: "bool \<Rightarrow> netip_addr \<Rightarrow> bool" where
  "reserved allowPrivate AddrZero \<longleftrightarrow> True"
| "reserved allowPrivate (Addr4 bs) \<longleftrightarrow> forbidden_v4 allowPrivate bs"
| "reserved allowPrivate (Addr6 bs z) \<longleftrightarrow> z \<noteq> [] \<or> forbidden_v6 allowPrivate bs"

lemma authorized_v4:
  assumes "authorizedAddress (Addr4 [a, b, c, d]) allow"
  shows "\<not> forbidden_v4 allow [a, b, c, d]"
proof -
  let ?A = "Addr4 [a, b, c, d]"
  have facts: "\<not> addr_IsMulticast ?A" "\<not> addr_IsLinkLocalUnicast ?A" "\<not> isSharedOrControlAddress ?A"
    "\<not> allow \<longrightarrow> \<not> addr_IsPrivate ?A \<and> \<not> addr_IsLoopback ?A"
    using assms by (auto simp: authorizedAddress_def Let_def split: if_splits)
  have "code a div 16 \<noteq> 14" "\<not> 240 \<le> code a"
    using facts(1,3) by (simp_all add: addr_IsMulticast_def octet_def control_v4)
  then have "\<not> 224 \<le> code a" by linarith
  moreover have "code b div 2 = 9 \<longleftrightarrow> code b \<in> {18, 19}" by auto
  ultimately show ?thesis
    using facts by (auto simp: addr_IsLinkLocalUnicast_def addr_IsPrivate_def addr_IsLoopback_def octet_def control_v4)
qed

lemma metadata_v4:
  "Addr4 bs \<in> set metadataAddresses \<longleftrightarrow>
     bs \<in> {map byte [169, 254, 169, 254], map byte [169, 254, 170, 2], map byte [100, 100, 100, 200]}"
proof -
  have "must_parse_addr ''169.254.169.254'' = Addr4 (map byte [169, 254, 169, 254])"
    "must_parse_addr ''169.254.170.2'' = Addr4 (map byte [169, 254, 170, 2])"
    "must_parse_addr ''100.100.100.200'' = Addr4 (map byte [100, 100, 100, 200])"
    by code_simp+
  moreover have "addr_bits (must_parse_addr ''fd00:ec2::254'') = 128" by code_simp
  then have "Addr4 bs \<noteq> must_parse_addr ''fd00:ec2::254''" by (cases "must_parse_addr ''fd00:ec2::254''") auto
  ultimately show ?thesis by (auto simp: metadataAddresses_def)
qed

lemma authorized_v4_iff:
  "authorizedAddress (Addr4 [a, b, c, d]) allow \<longleftrightarrow> \<not> forbidden_v4 allow [a, b, c, d]"
proof
  assume ok: "\<not> forbidden_v4 allow [a, b, c, d]"
  have "forbidden_v4 allow bs" if "Addr4 bs \<in> set metadataAddresses \<or> Addr4 bs = ipv4_unspecified" for bs
  proof -
    have "replicate 4 x = [x, x, x, x]" for x :: char by (simp add: numeral_eq_Suc)
    then show ?thesis using that by (auto simp: metadata_v4 ipv4_unspecified_def)
  qed
  with ok have "Addr4 [a, b, c, d] \<notin> set metadataAddresses" "Addr4 [a, b, c, d] \<noteq> ipv4_unspecified" by blast+
  moreover have "\<not> isSharedOrControlAddress (Addr4 [a, b, c, d])"
  proof -
    have half: "code b div 2 = 9 \<longleftrightarrow> code b \<in> {18, 19}" by auto
    have up: "240 \<le> code a \<Longrightarrow> 224 \<le> code a" by simp
    show ?thesis using ok up unfolding control_v4 forbidden_v4.simps half by blast
  qed
  moreover have "\<not> 224 \<le> code a" using ok unfolding forbidden_v4.simps by blast
  then have "code a div 16 \<noteq> 14" "code a \<noteq> 224" by linarith+
  ultimately show "authorizedAddress (Addr4 [a, b, c, d]) allow"
    using ok unfolding forbidden_v4.simps
    by (simp add: authorizedAddress_def addr_IsMulticast_def addr_IsLinkLocalUnicast_def addr_IsUnspecified_def
        ipv6_unspecified_def addr_IsLinkLocalMulticast_def addr_IsPrivate_def addr_IsLoopback_def octet_def) blast
qed (rule authorized_v4)

lemma byte_eq_code: "n < 256 \<Longrightarrow> byte n = x \<longleftrightarrow> code x = n"
  by fastforce

lemma byte_bits_eq: "byte_bits xs = byte_bits ys \<longleftrightarrow> xs = ys"
proof
  have len: "length (byte_bits xs) = 8 * length xs" for xs by (induction xs) (simp_all add: byte_bits_def)
  show "xs = ys" if "byte_bits xs = byte_bits ys"
  proof -
    have "length xs = length ys" using that len [of xs] len [of ys] by simp
    then show ?thesis using that
      by (induction xs ys rule: list_induct2) (simp_all add: byte_bits_def nat_bits_code_eq)
  qed
qed simp

lemma take_byte_bits: "take (8 * n) (byte_bits xs) = byte_bits (take n xs)"
proof (induction xs arbitrary: n)
  case (Cons x xs)
  then show ?case by (cases n) (simp_all add: byte_bits_def)
qed (simp add: byte_bits_def)

lemma control_v6:
  assumes "length bs = 16"
  shows "isSharedOrControlAddress (Addr6 bs []) \<longleftrightarrow> octet bs 0 = 32 \<and> octet bs 1 = 1 \<and> octet bs 2 = 13 \<and> octet bs 3 = 184"
proof -
  have parsed: "must_parse_addr ''2001:db8::'' = Addr6 (map byte [32, 1, 13, 184] @ replicate 12 (byte 0)) []" by code_simp
  obtain a b c d rest where bs: "bs = a # b # c # d # rest" using assms by (auto simp: length_Suc_conv numeral_eq_Suc)
  have bits: "addr_bits (must_parse_addr s) = 32" if "s \<in> {''0.0.0.0'', ''100.64.0.0'', ''192.0.0.0'', ''198.18.0.0'', ''192.0.2.0'',
      ''198.51.100.0'', ''203.0.113.0'', ''240.0.0.0''}" for s
  proof -
    have "list_all (\<lambda>s. addr_bits (must_parse_addr s) = 32) [''0.0.0.0'', ''100.64.0.0'', ''192.0.0.0'', ''198.18.0.0'', ''192.0.2.0'',
      ''198.51.100.0'', ''203.0.113.0'', ''240.0.0.0'']" by code_simp
    then show ?thesis using that unfolding list_all_iff by auto
  qed
  then have v4: "\<not> prefix_Contains (must_parse_prefix s n) (Addr6 bs [])" if "s \<in> {''0.0.0.0'', ''100.64.0.0'', ''192.0.0.0'', ''198.18.0.0'', ''192.0.2.0'',
      ''198.51.100.0'', ''203.0.113.0'', ''240.0.0.0''}" for s n
    using that by (simp add: prefix_Contains_def must_parse_prefix_def)
  have "take 32 (byte_bits xs) = byte_bits (take 4 xs)" for xs using take_byte_bits [of 4 xs] by simp
  then have "prefix_Contains (must_parse_prefix ''2001:db8::'' 32) (Addr6 bs []) \<longleftrightarrow> map byte [32, 1, 13, 184] = [a, b, c, d]"
    by (simp add: prefix_Contains_def must_parse_prefix_def parsed byte_bits_eq bs)
  also have "\<dots> \<longleftrightarrow> octet bs 0 = 32 \<and> octet bs 1 = 1 \<and> octet bs 2 = 13 \<and> octet bs 3 = 184"
    by (simp add: bs octet_def byte_eq_code)
  finally show ?thesis by (simp add: isSharedOrControlAddress_def sharedOrControlPrefixes_def v4)
qed

lemma metadata_v6: "Addr6 bs z \<in> set metadataAddresses
    \<longleftrightarrow> z = [] \<and> bs = map byte [253, 0, 14, 194] @ replicate 10 (byte 0) @ map byte [2, 84]"
proof -
  have "must_parse_addr ''169.254.169.254'' = Addr4 (map byte [169, 254, 169, 254])"
    "must_parse_addr ''169.254.170.2'' = Addr4 (map byte [169, 254, 170, 2])"
    "must_parse_addr ''100.100.100.200'' = Addr4 (map byte [100, 100, 100, 200])"
    "must_parse_addr ''fd00:ec2::254'' = Addr6 (map byte [253, 0, 14, 194] @ replicate 10 (byte 0) @ map byte [2, 84]) []"
    by code_simp+
  then show ?thesis by (auto simp: metadataAddresses_def)
qed

lemma authorized_v6_iff:
  assumes "length bs = 16" "take 12 bs \<noteq> mapped_prefix"
  shows "authorizedAddress (Addr6 bs z) allow \<longleftrightarrow> z = [] \<and> \<not> forbidden_v6 allow bs"
proof (cases "z = []")
  case True
  have unmap: "addr_Unmap (Addr6 bs []) = Addr6 bs []" using assms by simp
  have classes: "addr_IsValid (Addr6 bs [])" "addr_Zone (Addr6 bs []) = []" "addr_IsUnspecified (Addr6 bs []) \<longleftrightarrow> bs = replicate 16 (byte 0)"
    "addr_IsMulticast (Addr6 bs []) \<longleftrightarrow> octet bs 0 = 255"
    "addr_IsLinkLocalUnicast (Addr6 bs []) \<longleftrightarrow> octet bs 0 = 254 \<and> octet bs 1 div 64 = 2"
    "addr_IsLinkLocalMulticast (Addr6 bs []) \<longleftrightarrow> octet bs 0 = 255 \<and> octet bs 1 mod 16 = 2"
    "addr_IsPrivate (Addr6 bs []) \<longleftrightarrow> octet bs 0 div 2 = 126"
    "addr_IsLoopback (Addr6 bs []) \<longleftrightarrow> bs = replicate 15 (byte 0) @ [byte 1]"
    unfolding addr_IsMulticast_def addr_IsLinkLocalUnicast_def addr_IsLinkLocalMulticast_def addr_IsPrivate_def addr_IsLoopback_def
      addr_IsUnspecified_def ipv6_unspecified_def ipv4_unspecified_def unmap by simp_all
  show ?thesis
    unfolding True authorizedAddress_def Let_def unmap metadata_v6 classes control_v6 [OF assms(1)] forbidden_v6_def if_bool_eq_conj
    using assms classes(1) by blast
qed (use assms in \<open>simp add: authorizedAddress_def\<close>)

lemma authorized_iff_not_reserved:
  assumes "addr_wf a"
  shows "authorizedAddress (addr_Unmap a) allow \<longleftrightarrow> \<not> reserved allow (addr_Unmap a)"
proof (cases "addr_Unmap a")
  case AddrZero
  then show ?thesis by (auto simp: authorizedAddress_def)
next
  case (Addr4 bs)
  have "length bs = 4" using addr_Unmap_wf [OF assms] Addr4 by simp
  then obtain w x y z where "bs = [w, x, y, z]" by (auto simp: length_Suc_conv numeral_eq_Suc)
  with Addr4 show ?thesis by (simp add: authorized_v4_iff del: forbidden_v4.simps)
next
  case (Addr6 bs z)
  have "length bs = 16" "take 12 bs \<noteq> mapped_prefix"
    using addr_Unmap_wf [OF assms] Addr6 by (cases a; auto split: if_splits)+
  then show ?thesis by (auto simp: Addr6 authorized_v6_iff)
qed

lemmas authorized_not_reserved = authorized_iff_not_reserved [THEN iffD1]

text \<open>
  C32. A probe never connects to a reserved address. When a host is authorized, the address is
  one of those the host stands for (an IPv4 address in IPv6 clothing is treated as what it
  is), every one of those is outside the reserved ranges, the address is the least of them,
  and the answer does not depend on the order in which the resolver lists them; if a single
  one is inadmissible the host as a whole is denied. The table of reserved ranges is exact: an
  address is admissible on its own precisely when it is outside them.
\<close>

theorem authorizeHost_safe:
  assumes wf: "list_all addr_wf (answers resolver host)"
  shows "(authorizeHost ctx resolver host allow subject = Inr a \<longrightarrow>
      a \<in> addr_Unmap ` set (answers resolver host)
      \<and> (\<forall>b\<in>set (answers resolver host). \<not> reserved allow (addr_Unmap b) \<and> \<not> addr_less (addr_Unmap b) a)
      \<and> (mset (answers resolver' host) = mset (answers resolver host) \<longrightarrow>
          authorizeHost ctx' resolver' host allow subject' = Inr a))
    \<and> ((\<exists>b\<in>set (answers resolver host). \<not> authorizedAddress (addr_Unmap b) allow) \<longrightarrow>
      authorizeHost ctx resolver host allow subject = Inl (ExecutionError (subject @ ''_address_denied'')))
    \<and> (\<forall>b\<in>set (answers resolver host). authorizedAddress (addr_Unmap b) allow \<longleftrightarrow> \<not> reserved allow (addr_Unmap b))"
proof (intro conjI impI)
  show "\<forall>b\<in>set (answers resolver host). authorizedAddress (addr_Unmap b) allow \<longleftrightarrow> \<not> reserved allow (addr_Unmap b)"
    using wf authorized_iff_not_reserved by (auto simp: list_all_iff)
next
  let ?xs = "map addr_Unmap (answers resolver host)"
  assume ok: "authorizeHost ctx resolver host allow subject = Inr a"
  note facts = ok [unfolded authorizeHost_Inr_iff]
  have wfs: "list_all addr_wf ?xs" using wf by (simp add: list_all_iff)
  have least: "a \<in> set ?xs \<and> (\<forall>x\<in>set ?xs. \<not> addr_less x a)"
    using facts hd_sort_by_least [OF wfs] by auto
  show "a \<in> addr_Unmap ` set (answers resolver host)" using least by simp
  show "\<forall>b\<in>set (answers resolver host). \<not> reserved allow (addr_Unmap b) \<and> \<not> addr_less (addr_Unmap b) a"
    using least facts wf by (auto simp: list_all_iff dest: authorized_not_reserved)
  assume perm: "mset (answers resolver' host) = mset (answers resolver host)"
  have "sort_by addr_less (map addr_Unmap (answers resolver' host)) = sort_by addr_less ?xs"
    using wfs perm by (intro addr_order.sort_by_permutation [symmetric]) simp_all
  moreover have "set (answers resolver' host) = set (answers resolver host)"
    using perm by (metis set_mset_mset)
  moreover from this have "answers resolver' host \<noteq> []" using facts by (metis set_empty)
  ultimately show "authorizeHost ctx' resolver' host allow subject' = Inr a"
    using facts by (simp add: authorizeHost_Inr_iff)
next
  assume bad: "\<exists>b\<in>set (answers resolver host). \<not> authorizedAddress (addr_Unmap b) allow"
  show "authorizeHost ctx resolver host allow subject = Inl (ExecutionError (subject @ ''_address_denied''))"
  proof (cases "ParseAddr host")
    case None
    with bad authorize_all_denied [OF bad] show ?thesis
      by (cases "resolver host") (auto simp: authorizeHost_def answers_def)
  next
    case (Some literal)
    with authorize_all_denied [OF bad] show ?thesis by (simp add: authorizeHost_def answers_def)
  qed
qed

definition example_resolver :: Resolver where
  "example_resolver host =
     (if host = ''a.example'' then Some (map (\<lambda>d. Addr4 (map byte [93, 184, 216, d])) [35, 34])
      else if host = ''b.example'' then Some [Addr4 (map byte [93, 184, 216, 34]), Addr4 (map byte [10, 0, 0, 1])]
      else None)"

lemma example_answers:
  "answers example_resolver ''a.example'' = map (\<lambda>d. Addr4 (map byte [93, 184, 216, d])) [35, 34]"
  "answers example_resolver ''b.example'' = [Addr4 (map byte [93, 184, 216, 34]), Addr4 (map byte [10, 0, 0, 1])]"
  by code_simp+

lemma example_authorized:
  "authorizeHost ctx example_resolver ''a.example'' False subject = Inr (Addr4 (map byte [93, 184, 216, 34]))"
proof -
  have "hd (sort_by addr_less [Addr4 (map byte [93, 184, 216, 35]), Addr4 (map byte [93, 184, 216, 34])])
      = Addr4 (map byte [93, 184, 216, 34])" by code_simp
  then show ?thesis by (simp add: authorizeHost_Inr_iff example_answers authorized_v4_iff)
qed

theorem authorizeHost_safe_witness:
  "authorizeHost CtxLive example_resolver ''a.example'' False ''target'' = Inr (Addr4 (map byte [93, 184, 216, 34]))
   \<and> \<not> addr_less (Addr4 (map byte [93, 184, 216, 35])) (Addr4 (map byte [93, 184, 216, 34]))
   \<and> authorizeHost CtxLive example_resolver ''b.example'' False ''target''
     = Inl (ExecutionError ''target_address_denied'')"
proof -
  have "\<not> addr_less (addr_Unmap (Addr4 (map byte [93, 184, 216, 35]))) (Addr4 (map byte [93, 184, 216, 34]))"
    using authorizeHost_safe [of example_resolver "''a.example''" CtxLive False "''target''"]
    by (simp add: example_answers example_authorized)
  moreover have "\<not> authorizedAddress (addr_Unmap (Addr4 (map byte [10, 0, 0, 1]))) False"
    by (simp add: authorized_v4_iff)
  then have "authorizeHost CtxLive example_resolver ''b.example'' False ''target''
      = Inl (ExecutionError ''target_address_denied'')"
    using authorizeHost_safe [of example_resolver "''b.example''" CtxLive False "''target''"]
    by (simp add: example_answers)
  ultimately show ?thesis using example_authorized by simp
qed

end
