(* ===== verification/Probe_Executor.thy ===== *)
theory Probe_Executor
  imports Probe_Authorize Gateway_Policy Engine_Capability
begin

text \<open>
  The probe executor of \<^verbatim>\<open>internal/probe/executor.go\<close>. Its effects (the reserved port, the
  workspace, the engine process, the HTTP exchange, the clock) are the fields of an environment
  record; everything the code decides from them is modelled. \<open>prepare\<close> is the part of
  \<^verbatim>\<open>Execute\<close> before the engine is started, which fixes what the engine will connect to.
\<close>

section \<open>Configuration\<close>

text \<open>The mode bits \<^verbatim>\<open>NewExecutor\<close> reads of the binary; \<^term>\<open>None\<close> is a failing \<^verbatim>\<open>Lstat\<close>.\<close>

record file_mode =
  fm_regular :: bool
  fm_symlink :: bool
  fm_executable :: bool

text \<open>A renderer is its profile and its \<^verbatim>\<open>Render\<close> method.\<close>

type_synonym Renderer = "Profile \<times> (Gateway \<Rightarrow> string + ArtifactCandidate)"

record ProbeConfig =
  pc_Renderer :: "Renderer option"
  pc_Checker :: "Checker option"
  pc_Binary :: string
  pc_Vantage :: string
  pc_Resolver :: "Resolver option"
  pc_StartupTimeout :: duration
  pc_AllowPrivateEndpoints :: bool

record Executor =
  ex_renderer :: Renderer
  ex_checker :: Checker
  ex_binary :: string
  ex_vantage :: string
  ex_resolver :: Resolver
  ex_startupTimeout :: duration
  ex_allowPrivateEndpoints :: bool

definition NewExecutor :: "ProbeConfig \<Rightarrow> file_mode option \<Rightarrow> Resolver \<Rightarrow> probe_error + Executor" where
  "NewExecutor config lstat defaultResolver =
     (case (pc_Renderer config, pc_Checker config) of
        (Some renderer, Some checker) \<Rightarrow>
          if \<not> has_prefix (pc_Binary config) ''/'' \<or> pc_Vantage config = []
            \<or> pc_StartupTimeout config < 100 * millisecond \<or> pc_StartupTimeout config > minute
          then Inl (ExecutionError ''configuration'')
          else if fst renderer \<noteq> Mihomo11931 \<and> fst renderer \<noteq> SingBox1141
          then Inl (ExecutionError ''profile'')
          else (case lstat of
              None \<Rightarrow> Inl (ExecutionError ''binary'')
            | Some info \<Rightarrow>
                if \<not> fm_regular info \<or> fm_symlink info \<or> \<not> fm_executable info
                then Inl (ExecutionError ''binary'')
                else Inr \<lparr>ex_renderer = renderer, ex_checker = checker, ex_binary = pc_Binary config,
                  ex_vantage = pc_Vantage config,
                  ex_resolver = (case pc_Resolver config of None \<Rightarrow> defaultResolver | Some r \<Rightarrow> r),
                  ex_startupTimeout = pc_StartupTimeout config,
                  ex_allowPrivateEndpoints = pc_AllowPrivateEndpoints config\<rparr>)
      | _ \<Rightarrow> Inl (ExecutionError ''configuration''))"

section \<open>Before the engine starts\<close>

datatype execute_error =
    EngineFailure engine_error
  | ProbeFailure probe_error
  | ObservationFailure string

abbreviation execution_failure :: "string \<Rightarrow> execute_error" where
  "execution_failure reason \<equiv> ProbeFailure (ExecutionError reason)"

definition authorizeEndpoint :: "ctx_err \<Rightarrow> Executor \<Rightarrow> Record \<Rightarrow> execute_error + Record" where
  "authorizeEndpoint ctx executor record =
     (let configuration = rec_configuration record
      in and_then (on_error ProbeFailure (authorizeHost ctx (ex_resolver executor)
             (address_host (cfg_address configuration)) (ex_allowPrivateEndpoints executor) ''endpoint''))
           (\<lambda>address. and_then (on_error (\<lambda>_. execution_failure ''endpoint_address'')
               (NewAddress (addr_String address) (int (address_port (cfg_address configuration)))))
           (\<lambda>executionAddress. and_then (on_error (\<lambda>_. execution_failure ''endpoint_configuration'')
               (WithAddress configuration executionAddress))
           (\<lambda>executionConfiguration. on_error (\<lambda>_. execution_failure ''endpoint_record'')
               (NewRecord executionConfiguration (Record_Provenance record))))))"

text \<open>The results of the system calls and of the exchange.\<close>

datatype body_read =
    BodyLength nat \<comment> \<open>the body ends after so many bytes\<close>
  | BodyError bool \<comment> \<open>reading fails; whether it is a timeout\<close>

datatype http_reply =
    NoSocksClient
  | NoSocksContext
  | NoRequest
  | RejectedRedirect int \<comment> \<open>an error with a response: its status\<close>
  | TransportError bool bool \<comment> \<open>whether it is a timeout, and whether it is a TLS failure\<close>
  | Response int body_read

record exec_env =
  env_port :: "int option"
  env_workspace :: bool
  env_release :: bool
  env_start :: bool
  env_ready :: "string option" \<comment> \<open>the code of a failing \<^verbatim>\<open>waitReady\<close>\<close>
  env_reply :: http_reply
  env_exited :: bool
  env_requestCtx :: ctx_err
  env_startedAt :: instant
  env_duration :: duration

record prepared =
  pr_key :: Key
  pr_target :: authorizedTarget
  pr_gateway :: Gateway
  pr_validated :: Validated

definition native_validator :: "Profile \<Rightarrow> string" where
  "native_validator profile = ''native/'' @ Engine_String (profile_Engine profile) @ ''/'' @ profile_Version profile"

definition prepare :: "ctx_err \<Rightarrow> Executor \<Rightarrow> int option \<Rightarrow> Record \<Rightarrow> HTTPTarget \<Rightarrow> execute_error + prepared" where
  "prepare ctx executor reserved_port record target =
     (let (profile, render) = ex_renderer executor
      in and_then (on_error EngineFailure (CheckEndpoint profile (rec_configuration record))) (\<lambda>_.
         and_then (on_error ProbeFailure (authorizeTarget ctx (ex_resolver executor) target)) (\<lambda>authorized.
         and_then (on_error (\<lambda>_. execution_failure ''endpoint'') (NewConnectionRef (Record_Identity record)))
           (\<lambda>connection.
         and_then (on_error (\<lambda>_. execution_failure ''evidence_key'')
             (NewKey connection (HTTPTarget_Ref target) (ex_vantage executor) KindHTTPGet profile)) (\<lambda>key.
         and_then (authorizeEndpoint ctx executor record) (\<lambda>executionRecord.
         and_then (case reserved_port of None \<Rightarrow> Inl (execution_failure ''listener'') | Some port \<Rightarrow> Inr port) (\<lambda>port.
         and_then (on_error (\<lambda>_. execution_failure ''inventory'') (Deduplicate [executionRecord])) (\<lambda>inventory.
         and_then (on_error (\<lambda>_. execution_failure ''listener_policy'') (NewSOCKSListener ''127.0.0.1'' port)) (\<lambda>policyListener.
         and_then (on_error (\<lambda>_. execution_failure ''gateway_policy'') (NewGateway inventory policyListener)) (\<lambda>gateway.
         and_then (on_error (\<lambda>_. execution_failure ''render'') (render gateway)) (\<lambda>candidate.
         and_then (on_error (\<lambda>_. execution_failure (contextCode ctx ''validation''))
             (Validate candidate (Some (ex_checker executor)))) (\<lambda>validated.
         if val_evidence validated \<noteq> native_validator (art_profile (val_candidate validated))
         then Inl (execution_failure ''native_validation_required'')
         else Inr \<lparr>pr_key = key, pr_target = authorized, pr_gateway = gateway, pr_validated = validated\<rparr>))))))))))))"

section \<open>The exchange\<close>

definition consumeResponse :: "ctx_err \<Rightarrow> int \<Rightarrow> body_read \<Rightarrow> HTTPTarget \<Rightarrow> execute_error + Outcome \<times> int" where
  "consumeResponse ctx status body target =
     (case body of
        BodyError timeout \<Rightarrow>
          if ctx = CtxCanceled then Inl (execution_failure ''cancelled'')
          else if ctx = CtxDeadlineExceeded \<or> timeout then Inr (OutcomeTimeout, 0)
          else Inr (OutcomeConnectionFailure, 0)
      | BodyLength n \<Rightarrow>
          let read_bytes = min (int n) (tgt_maxResponseBytes target + 1)
          in if read_bytes > tgt_maxResponseBytes target then Inr (OutcomeResponseTooLarge, 0)
             else if status \<noteq> tgt_expectedStatus target then Inr (OutcomeUnexpectedResponse, status)
             else Inr (OutcomeSuccess, status))"

definition measureHTTP :: "ctx_err \<Rightarrow> http_reply \<Rightarrow> bool \<Rightarrow> HTTPTarget \<Rightarrow> execute_error + Outcome \<times> int" where
  "measureHTTP ctx reply exited target =
     (case reply of
        NoSocksClient \<Rightarrow> Inl (execution_failure ''socks_client'')
      | NoSocksContext \<Rightarrow> Inl (execution_failure ''socks_context'')
      | NoRequest \<Rightarrow> Inl (execution_failure ''request'')
      | RejectedRedirect status \<Rightarrow> Inr (OutcomeUnexpectedResponse, status)
      | TransportError timeout tls \<Rightarrow>
          if exited then Inl (execution_failure ''engine_exit'')
          else if ctx = CtxCanceled then Inl (execution_failure ''cancelled'')
          else if ctx = CtxDeadlineExceeded \<or> timeout then Inr (OutcomeTimeout, 0)
          else if tls then Inr (OutcomeTLSFailure, 0)
          else Inr (OutcomeConnectionFailure, 0)
      | Response status body \<Rightarrow> consumeResponse ctx status body target)"

text \<open>
  The dial hook of the HTTP transport: whatever host and port the client asks for, only the
  authorized address is dialled, and only for the target's own name and port. The argument is
  the result of \<^verbatim>\<open>net.SplitHostPort\<close>.
\<close>

definition URL_Port :: "request_url \<Rightarrow> string" where
  "URL_Port u = drop (length (strip_port (url_Host u)) + 1) (url_Host u)"

definition wanted_port :: "request_url \<Rightarrow> string" where
  "wanted_port u =
     (if URL_Port u = [] then if url_Scheme u = ''https'' then ''443'' else ''80'' else URL_Port u)"

definition DialContext :: "authorizedTarget \<Rightarrow> (string \<times> string) option \<Rightarrow> probe_error + string" where
  "DialContext authorized asked =
     (let u = tgt_requestURL (at_target authorized); wantedPort = wanted_port u
      in case asked of
           None \<Rightarrow> Inl (ExecutionError ''target_mismatch'')
         | Some (host, port) \<Rightarrow>
             if to_lower (trim_suffix host ''.'') \<noteq> to_lower (URL_Hostname u) \<or> port \<noteq> wantedPort
             then Inl (ExecutionError ''target_mismatch'')
             else Inr (join_host_port (addr_String (at_address authorized)) wantedPort))"

definition engineArguments :: "Profile \<Rightarrow> string \<Rightarrow> string \<Rightarrow> string list" where
  "engineArguments profile configPath workspace =
     (if profile_Engine profile = EngineMihomo then [''-f'', configPath, ''-d'', workspace]
      else [''run'', ''-c'', configPath, ''-D'', workspace])"

definition Execute :: "ctx_err \<Rightarrow> Executor \<Rightarrow> exec_env \<Rightarrow> Record \<Rightarrow> HTTPTarget \<Rightarrow> execute_error + Observation" where
  "Execute ctx executor env record target =
     and_then (prepare ctx executor (env_port env) record target) (\<lambda>p.
       if \<not> env_workspace env then Inl (execution_failure ''workspace'')
       else if \<not> env_release env then Inl (execution_failure ''listener_release'')
       else if \<not> env_start env then Inl (execution_failure ''engine_start'')
       else case env_ready env of
           Some reason \<Rightarrow> Inl (execution_failure reason)
         | None \<Rightarrow>
             and_then (measureHTTP (env_requestCtx env) (env_reply env) (env_exited env) target)
               (\<lambda>(outcome, status). on_error ObservationFailure (NewObservation
                  \<lparr>par_Key = pr_key p, par_StartedAt = env_startedAt env,
                   par_CompletedAt = time_Add (env_startedAt env) (env_duration env),
                   par_Duration = env_duration env, par_Outcome = outcome, par_StatusCode = status\<rparr>)))"

section \<open>Address pinning\<close>

declare on_error_Inr_iff [simp]

text \<open>The record with its host replaced by one address; names, credentials and TLS stay.\<close>

definition pinned :: "netip_addr \<Rightarrow> Record \<Rightarrow> Record" where
  "pinned a r = r\<lparr>rec_configuration := (rec_configuration r)\<lparr>cfg_address :=
     \<lparr>address_host = addr_String a, address_port = address_port (cfg_address (rec_configuration r)),
      address_kind = (if addr_Is4 a then hostIPv4 else hostIPv6)\<rparr>\<rparr>\<rparr>"

lemma authorizedAddress_plain:
  assumes "authorizedAddress (addr_Unmap a) allow" "addr_wf a"
  shows "addr_IsValid (addr_Unmap a)" "addr_Zone (addr_Unmap a) = []"
  using assms by (auto simp: authorizedAddress_def Let_def split: if_splits)

lemma authorizeHost_plain:
  assumes "authorizeHost ctx resolver host allow subject = Inr a" "list_all addr_wf (answers resolver host)"
  shows "addr_wf a \<and> addr_IsValid a \<and> addr_Zone a = [] \<and> \<not> reserved allow a"
proof -
  have wfs: "list_all addr_wf (map addr_Unmap (answers resolver host))"
    using assms(2) by (simp add: list_all_iff)
  have facts: "answers resolver host \<noteq> []"
    "\<forall>b\<in>set (answers resolver host). authorizedAddress (addr_Unmap b) allow"
    "a = hd (sort_by addr_less (map addr_Unmap (answers resolver host)))"
    using assms(1) by (auto simp: authorizeHost_Inr_iff)
  then have "a \<in> set (map addr_Unmap (answers resolver host))"
    using hd_sort_by_least [OF wfs] by simp
  then obtain b where b: "b \<in> set (answers resolver host)" "a = addr_Unmap b" by auto
  have wf: "addr_wf b" using assms(2) b(1) by (auto simp: list_all_iff)
  moreover have ok: "authorizedAddress (addr_Unmap b) allow" using facts(2) b(1) by blast
  ultimately show ?thesis
    using authorizedAddress_plain [OF ok wf] authorized_not_reserved [OF wf ok] b(2) by simp
qed

lemma mergeProvenance_canonical:
  assumes "canonical_provenance ps"
  shows "mergeProvenance [ps] = ps"
proof -
  have wf: "\<forall>g \<in> set [ps]. \<forall>p \<in> set g. Provenance_wf p"
    using assms by (simp add: canonical_provenance_def list_all_iff)
  show ?thesis
  proof (rule strictly_sorted_unique [where R = provenance_less])
    show "sorted_wrt provenance_less (mergeProvenance [ps])" by (rule mergeProvenance_spec(1) [OF wf])
    show "sorted_wrt provenance_less ps" using assms by (simp add: canonical_provenance_def)
    show "set (mergeProvenance [ps]) = set ps"
      using mergeProvenance_spec(2) [OF wf] canonical_provenance_set [OF assms] by simp
  qed (rule provenance_less_asym)
qed

lemma NewRecord_canonical:
  assumes "Record_wf r" "Configuration_valid c"
  shows "NewRecord c (Record_Provenance r) = Inr (r\<lparr>rec_configuration := c\<rparr>)"
proof -
  have prov: "Record_Provenance r = rec_provenance r"
    using Record_clone_wf [OF assms(1)] by (cases r) (simp add: Record_clone_def)
  have "canonical_provenance (rec_provenance r)" using assms(1) by (simp add: Record_wf_def)
  moreover from this have "rec_provenance r \<noteq> []" "list_all Provenance_valid (rec_provenance r)"
    by (auto simp: canonical_provenance_def list_all_iff Provenance_wf_def)
  ultimately have "NewRecord c (Record_Provenance r)
      = Inr \<lparr>rec_configuration = c, rec_provenance = rec_provenance r\<rparr>"
    using assms(2) by (simp add: NewRecord_def prov mergeProvenance_canonical)
  then show ?thesis by (cases r) simp
qed

lemma authorizeEndpoint_Inr_iff:
  assumes "Record_wf r" "list_all addr_wf (answers (ex_resolver ex) (address_host (cfg_address (rec_configuration r))))"
  shows "authorizeEndpoint ctx ex r = Inr out \<longleftrightarrow>
    (\<exists>a. authorizeHost ctx (ex_resolver ex) (address_host (cfg_address (rec_configuration r)))
           (ex_allowPrivateEndpoints ex) ''endpoint'' = Inr a \<and> out = pinned a r)"
proof -
  let ?c = "rec_configuration r" and ?port = "address_port (cfg_address (rec_configuration r))"
  have valid: "Configuration_valid ?c" "address_valid (cfg_address ?c)" "?port < 65536"
    using assms(1) by (auto simp: Record_wf_def Configuration_wf_def Address_wf_def)
  have step: "and_then (on_error f (NewAddress (addr_String a) (int ?port))) (\<lambda>b.
        and_then (on_error g (WithAddress ?c b)) (\<lambda>d. on_error h (NewRecord d (Record_Provenance r))))
      = Inr (pinned a r)"
    if host: "authorizeHost ctx (ex_resolver ex) (address_host (cfg_address ?c)) (ex_allowPrivateEndpoints ex)
        ''endpoint'' = Inr a" for a and f g h :: "endpoint_error \<Rightarrow> execute_error"
  proof -
    define b where "b = \<lparr>address_host = addr_String a, address_port = ?port,
      address_kind = (if addr_Is4 a then hostIPv4 else hostIPv6)\<rparr>"
    have plain: "addr_wf a" "addr_IsValid a" "addr_Zone a = []"
      using authorizeHost_plain [OF host assms(2)] by auto
    have "?port \<noteq> 0" using valid(2) by (simp add: address_valid_def)
    then have b: "NewAddress (addr_String a) (int ?port) = Inr b"
      using valid(3) normalizeHost_ip [OF plain, of "''address.host''"] by (simp add: NewAddress_Inr b_def)
    have bv: "address_valid b" using NewAddress_valid [OF b] by simp
    have "WithAddress ?c b = Inr (?c\<lparr>cfg_address := b\<rparr>)" using valid(1) bv by (simp add: WithAddress_def)
    moreover have "Configuration_valid (?c\<lparr>cfg_address := b\<rparr>)" by (rule Configuration_valid_address [OF valid(1) bv])
    ultimately show ?thesis
      using b NewRecord_canonical [OF assms(1)] by (simp add: on_error_def pinned_def b_def)
  qed
  show ?thesis
    unfolding authorizeEndpoint_def Let_def and_then_Inr_iff on_error_Inr_iff
    using step [unfolded and_then_Inr_iff on_error_Inr_iff] by (metis Inr_inject)
qed

lemma Deduplicate_single:
  assumes "Record_wf r"
  shows "Deduplicate [r] = Inr [r]"
proof -
  have "conflict_free (set [r])" by (simp add: conflict_free_def)
  then obtain out where out: "Deduplicate [r] = Inr out" "deduplicated (set [r]) out"
    using Deduplicate_spec [of "[r]"] assms by auto
  with deduplicated_unique [OF out(2), of "[r]"] deduplicated_single [OF assms] show ?thesis by simp
qed


lemma pinned_wf:
  assumes "Record_wf r" "addr_wf a" "addr_IsValid a" "addr_Zone a = []"
  shows "Record_wf (pinned a r)"
proof -
  let ?c = "rec_configuration r" and ?port = "address_port (cfg_address (rec_configuration r))"
  define b where "b = \<lparr>address_host = addr_String a, address_port = ?port,
    address_kind = (if addr_Is4 a then hostIPv4 else hostIPv6)\<rparr>"
  have c: "Configuration_wf ?c" using assms(1) by (simp add: Record_wf_def)
  then have "?port < 65536" "?port \<noteq> 0" "Configuration_valid ?c"
    by (auto simp: Configuration_wf_def Address_wf_def address_valid_def)
  then have new: "NewAddress (addr_String a) (int ?port) = Inr b"
    using normalizeHost_ip [OF assms(2-4), of "''address.host''"] by (simp add: NewAddress_Inr b_def)
  have "WithAddress ?c b = Inr (?c\<lparr>cfg_address := b\<rparr>)"
    using \<open>Configuration_valid ?c\<close> NewAddress_valid [OF new] by (simp add: WithAddress_def)
  from WithAddress_wf [OF this c NewAddress_wf [OF new]] show ?thesis
    using assms(1) by (simp add: Record_wf_def pinned_def b_def)
qed

section \<open>What reaches the engine\<close>

text \<open>The listener of every probe gateway: loopback, without credentials.\<close>

lemma probe_listener:
  "NewSOCKSListener ''127.0.0.1'' port = Inr l \<Longrightarrow> addr_IsLoopback (lst_address l) \<and> \<not> Listener_Managed l"
  by (auto simp: NewSOCKSListener_Inr_iff Listener_Managed_def)

lemma Validate_Inr:
  "Validate candidate (Some check) = Inr v \<longleftrightarrow>
     check candidate = Inr (val_evidence v) \<and> safeValidatorID (val_evidence v) \<and> val_candidate v = candidate
     \<and> val_generation v = generation candidate"
  by (cases v) (auto simp: Validate_def and_then_Inr_iff split: if_splits)

lemma prepare_Inr:
  assumes "prepare ctx ex port r target = Inr p" "Record_wf r"
    "list_all addr_wf (answers (ex_resolver ex) (address_host (cfg_address (rec_configuration r))))"
  obtains a l candidate where
    "CheckEndpoint (fst (ex_renderer ex)) (rec_configuration r) = Inr ()"
    "authorizeTarget ctx (ex_resolver ex) target = Inr (pr_target p)"
    "pr_key p = \<lparr>key_connection = \<lparr>cref_id = Record_ID r, cref_revision = id_revision (Record_Identity r)\<rparr>,
       key_target = HTTPTarget_Ref target, key_vantage = ex_vantage ex, key_kind = KindHTTPGet,
       key_profile = fst (ex_renderer ex)\<rparr>"
    "authorizeHost ctx (ex_resolver ex) (address_host (cfg_address (rec_configuration r)))
       (ex_allowPrivateEndpoints ex) ''endpoint'' = Inr a"
    "pr_gateway p = \<lparr>gw_inventory = [pinned a r], gw_listener = l\<rparr>"
    "addr_IsLoopback (lst_address l)"
    "snd (ex_renderer ex) (pr_gateway p) = Inr candidate"
    "ex_checker ex candidate = Inr (native_validator (art_profile candidate))"
    "val_candidate (pr_validated p) = candidate"
proof -
  obtain profile render where ex: "ex_renderer ex = (profile, render)" by (cases "ex_renderer ex")
  obtain connection q l n where
    check: "CheckEndpoint profile (rec_configuration r) = Inr ()"
    and t: "authorizeTarget ctx (ex_resolver ex) target = Inr (pr_target p)"
    and connection: "NewConnectionRef (Record_Identity r) = Inr connection"
    and key: "NewKey connection (HTTPTarget_Ref target) (ex_vantage ex) KindHTTPGet profile = Inr (pr_key p)"
    and q: "authorizeEndpoint ctx ex r = Inr q"
    and l: "NewSOCKSListener ''127.0.0.1'' n = Inr l"
    and gateway: "and_then (on_error (\<lambda>_. execution_failure ''inventory'') (Deduplicate [q])) (\<lambda>inventory.
        on_error (\<lambda>_. execution_failure ''gateway_policy'') (NewGateway inventory l)) = Inr (pr_gateway p)"
    and candidate: "and_then (render (pr_gateway p)) (\<lambda>candidate. Validate candidate (Some (ex_checker ex)))
      = Inr (pr_validated p)"
    and native: "val_evidence (pr_validated p) = native_validator (art_profile (val_candidate (pr_validated p)))"
    using assms(1)
    by (auto simp: prepare_def ex and_then_Inr_iff split: if_splits option.splits) 
  from q obtain a where a: "authorizeHost ctx (ex_resolver ex) (address_host (cfg_address (rec_configuration r)))
      (ex_allowPrivateEndpoints ex) ''endpoint'' = Inr a" "q = pinned a r"
    by (auto simp: authorizeEndpoint_Inr_iff [OF assms(2,3)])
  have "Record_wf (pinned a r)"
    using authorizeHost_plain [OF a(1) assms(3)] by (intro pinned_wf [OF assms(2)]) auto
  then have g: "pr_gateway p = \<lparr>gw_inventory = [pinned a r], gw_listener = l\<rparr>"
    using gateway a(2)
    by (auto simp: Deduplicate_single and_then_Inr_iff NewGateway_def gateway_invalid_def split: if_splits)
  obtain candidate where c: "render (pr_gateway p) = Inr candidate"
    "Validate candidate (Some (ex_checker ex)) = Inr (pr_validated p)"
    using candidate by (auto simp: and_then_Inr_iff)
  then have v: "val_candidate (pr_validated p) = candidate" "ex_checker ex candidate = Inr (val_evidence (pr_validated p))"
    by (simp_all add: Validate_Inr)
  have "connection = \<lparr>cref_id = Record_ID r, cref_revision = id_revision (Record_Identity r)\<rparr>"
    using connection
    by (auto simp: NewConnectionRef_def Record_ID_def Record_Identity_def Configuration_ID_def split: if_splits)
  with key have k: "pr_key p = \<lparr>key_connection = \<lparr>cref_id = Record_ID r, cref_revision = id_revision (Record_Identity r)\<rparr>,
      key_target = HTTPTarget_Ref target, key_vantage = ex_vantage ex, key_kind = KindHTTPGet,
      key_profile = profile\<rparr>"
    by (simp add: NewKey_Inr_iff)
  show thesis
    using that [of a l candidate] check t k a(1) g probe_listener [OF l] c(1) v native by (simp add: ex)
qed

text \<open>A resolver returns well-formed addresses.\<close>

definition resolver_wf :: "Resolver \<Rightarrow> bool" where
  "resolver_wf resolver \<longleftrightarrow> (\<forall>host as. resolver host = Some as \<longrightarrow> list_all addr_wf as)"

lemma resolver_wf_answers: "resolver_wf resolver \<Longrightarrow> list_all addr_wf (answers resolver host)"
  by (auto simp: resolver_wf_def answers_def dest: ParseAddr_wf split: option.split)

lemma Execute_Inr:
  assumes "Execute ctx ex env r target = Inr v"
  obtains p outcome status where "prepare ctx ex (env_port env) r target = Inr p"
    "measureHTTP (env_requestCtx env) (env_reply env) (env_exited env) target = Inr (outcome, status)"
    "NewObservation \<lparr>par_Key = pr_key p, par_StartedAt = env_startedAt env,
       par_CompletedAt = time_Add (env_startedAt env) (env_duration env),
       par_Duration = env_duration env, par_Outcome = outcome, par_StatusCode = status\<rparr> = Inr v"
    "env_workspace env" "env_release env" "env_start env" "env_ready env = None"
  using assms by (auto simp: Execute_def and_then_Inr_iff split: if_splits option.splits)

text \<open>
  C31. An observation is evidence about the endpoint that was asked for, obtained without
  leaving the authorized destinations. When a probe returns an observation, its key names the
  identity of the given record, the target, the executor's vantage and its qualified profile;
  the engine was started on a gateway with a loopback listener and one single endpoint, the
  record with its host pinned to an address outside the reserved ranges and nothing else
  changed; the artifact run is the rendering of that gateway, accepted by the engine's own
  validator; and the address dialled for the target is outside the reserved ranges too.
\<close>

theorem Execute_pins_destinations:
  assumes "built_record r" "resolver_wf (ex_resolver ex)" "Execute ctx ex env r target = Inr v"
  shows "\<exists>p a l. prepare ctx ex (env_port env) r target = Inr p
    \<and> obs_key v = \<lparr>key_connection = \<lparr>cref_id = Record_ID r, cref_revision = id_revision (Record_Identity r)\<rparr>,
        key_target = HTTPTarget_Ref target, key_vantage = ex_vantage ex, key_kind = KindHTTPGet,
        key_profile = fst (ex_renderer ex)\<rparr>
    \<and> Observation_wf v \<and> CheckEndpoint (fst (ex_renderer ex)) (rec_configuration r) = Inr ()
    \<and> pr_gateway p = \<lparr>gw_inventory = [pinned a r], gw_listener = l\<rparr> \<and> addr_IsLoopback (lst_address l)
    \<and> \<not> reserved (ex_allowPrivateEndpoints ex) a
    \<and> snd (ex_renderer ex) (pr_gateway p) = Inr (val_candidate (pr_validated p))
    \<and> ex_checker ex (val_candidate (pr_validated p))
      = Inr (native_validator (art_profile (val_candidate (pr_validated p))))
    \<and> at_target (pr_target p) = target \<and> \<not> reserved (tgt_allowPrivate target) (at_address (pr_target p))"
proof -
  have wf: "Record_wf r" by (rule built_record_wf [OF assms(1)])
  have answers: "list_all addr_wf (answers (ex_resolver ex) host)" for host
    by (rule resolver_wf_answers [OF assms(2)])
  from Execute_Inr [OF assms(3)] obtain p outcome status where
    p: "prepare ctx ex (env_port env) r target = Inr p"
    and v: "NewObservation \<lparr>par_Key = pr_key p, par_StartedAt = env_startedAt env,
       par_CompletedAt = time_Add (env_startedAt env) (env_duration env),
       par_Duration = env_duration env, par_Outcome = outcome, par_StatusCode = status\<rparr> = Inr v"
    by metis
  have observed: "Observation_wf v" "obs_key v = pr_key p"
    using v by (auto simp: NewObservation_iff params_of_def)
  have reached: "at_target (pr_target p) = target \<and> \<not> reserved (tgt_allowPrivate target) (at_address (pr_target p))"
    if t: "authorizeTarget ctx (ex_resolver ex) target = Inr (pr_target p)"
  proof -
    obtain b where b: "authorizeHost ctx (ex_resolver ex) (URL_Hostname (tgt_requestURL target))
        (tgt_allowPrivate target) ''target'' = Inr b" "pr_target p = \<lparr>at_target = target, at_address = b\<rparr>"
      using t by (auto simp: authorizeTarget_def and_then_Inr_iff)
    with authorizeHost_plain [OF b(1) answers] show ?thesis by simp
  qed
  show ?thesis
  proof (rule prepare_Inr [OF p wf answers])
    fix a l candidate
    assume facts: "CheckEndpoint (fst (ex_renderer ex)) (rec_configuration r) = Inr ()"
      "authorizeTarget ctx (ex_resolver ex) target = Inr (pr_target p)"
      "pr_key p = \<lparr>key_connection = \<lparr>cref_id = Record_ID r, cref_revision = id_revision (Record_Identity r)\<rparr>,
         key_target = HTTPTarget_Ref target, key_vantage = ex_vantage ex, key_kind = KindHTTPGet,
         key_profile = fst (ex_renderer ex)\<rparr>"
      "authorizeHost ctx (ex_resolver ex) (address_host (cfg_address (rec_configuration r)))
         (ex_allowPrivateEndpoints ex) ''endpoint'' = Inr a"
      "pr_gateway p = \<lparr>gw_inventory = [pinned a r], gw_listener = l\<rparr>" "addr_IsLoopback (lst_address l)"
      "snd (ex_renderer ex) (pr_gateway p) = Inr candidate"
      "ex_checker ex candidate = Inr (native_validator (art_profile candidate))"
      "val_candidate (pr_validated p) = candidate"
    have "\<not> reserved (ex_allowPrivateEndpoints ex) a" using authorizeHost_plain [OF facts(4) answers] by simp
    then show ?thesis
      by (intro exI [of _ p] exI [of _ a] exI [of _ l] conjI)
        (use p observed reached facts in \<open>simp_all only: simp_thms\<close>)
  qed
qed

section \<open>A concrete probe\<close>

definition example_executor :: Executor where
  "example_executor = \<lparr>ex_renderer = (SingBox1141, \<lambda>_. Inr \<lparr>art_profile = SingBox1141, art_content = ''{}''\<rparr>),
     ex_checker = (\<lambda>_. Inr ''native/sing-box/1.14.1''), ex_binary = ''/usr/bin/sing-box'', ex_vantage = ''lab'',
     ex_resolver = example_resolver, ex_startupTimeout = second, ex_allowPrivateEndpoints = False\<rparr>"

definition example_target :: HTTPTarget where
  "example_target = \<lparr>tgt_id = ''web'', tgt_revision = Some (replicate 32 CHR ''t''),
     tgt_requestURL = \<lparr>url_Scheme = ''https'', url_Host = ''a.example''\<rparr>, tgt_expectedStatus = 204,
     tgt_timeout = second, tgt_maxResponseBytes = 4096, tgt_allowPrivate = False\<rparr>"

definition example_env :: exec_env where
  "example_env = \<lparr>env_port = Some 40000, env_workspace = True, env_release = True, env_start = True,
     env_ready = None, env_reply = Response 204 (BodyLength 0), env_exited = False, env_requestCtx = CtxLive,
     env_startedAt = unix_epoch, env_duration = second\<rparr>"

lemma example_resolver_wf: "resolver_wf example_resolver"
  by (auto simp: resolver_wf_def example_resolver_def split: if_splits)

lemma example_prepare:
  "\<exists>p. prepare CtxLive example_executor (Some 40000) (sample_record ''s1'' [''one'']) example_target = Inr p
     \<and> Key_ok (pr_key p)"
proof -
  let ?r = "sample_record ''s1'' [''one'']"
  have wf: "Record_wf ?r" by (rule built_record_wf [OF sample_record_built(1)])
  have cfg: "rec_configuration ?r = sample_configuration" by (simp add: sample_record_def)
  have check: "CheckEndpoint SingBox1141 sample_configuration = Inr ()" by code_simp
  have "URL_Hostname (tgt_requestURL example_target) = ''a.example''" by code_simp
  then have target: "authorizeTarget CtxLive example_resolver example_target
      = Inr \<lparr>at_target = example_target, at_address = Addr4 (map byte [93, 184, 216, 34])\<rparr>"
    by (simp add: authorizeTarget_def example_authorized example_target_def)
  define connection where "connection = \<lparr>cref_id = id_value (Record_Identity ?r), cref_revision = id_revision (Record_Identity ?r)\<rparr>"
  have valid: "Configuration_valid sample_configuration"
    using wf by (simp add: Record_wf_def Configuration_wf_def sample_record_def)
  have connection: "NewConnectionRef (Record_Identity ?r) = Inr connection"
    using valid
    by (simp add: NewConnectionRef_def connection_def Record_Identity_def cfg Configuration_Identity_valid
        RevealForPersistence_def is_ok_def ID_String_def version_prefix_def)
  define key where "key = \<lparr>key_connection = connection, key_target = HTTPTarget_Ref example_target,
    key_vantage = ''lab'', key_kind = KindHTTPGet, key_profile = SingBox1141\<rparr>"
  have key: "NewKey connection (HTTPTarget_Ref example_target) ''lab'' KindHTTPGet SingBox1141 = Inr key"
    using valid
    by (simp add: NewKey_Inr_iff key_def connection_def Record_Identity_def cfg Configuration_Identity_valid
        ID_String_def version_prefix_def HTTPTarget_Ref_def example_target_def supportedProfile_def)
  have q: "authorizeEndpoint CtxLive example_executor ?r = Inr (pinned (Addr4 (map byte [93, 184, 216, 34])) ?r)"
    using example_authorized [of CtxLive "''endpoint''"]
    by (subst authorizeEndpoint_Inr_iff [OF wf resolver_wf_answers])
      (simp_all add: example_resolver_wf example_executor_def cfg sample_configuration_def sample_address_def)
  have "Record_wf (pinned (Addr4 (map byte [93, 184, 216, 34])) ?r)"
    by (rule pinned_wf [OF wf]) simp_all
  note dedup = Deduplicate_single [OF this]
  obtain l where l: "NewSOCKSListener ''127.0.0.1'' 40000 = Inr l" "built_listener l"
  proof -
    have "is_ok (NewSOCKSListener ''127.0.0.1'' 40000)" by code_simp
    then show thesis using that by (auto simp: is_ok_def intro: built_loopback split: sum.splits)
  qed
  have gateway: "NewGateway [pinned (Addr4 (map byte [93, 184, 216, 34])) ?r] l
      = Inr \<lparr>gw_inventory = [pinned (Addr4 (map byte [93, 184, 216, 34])) ?r], gw_listener = l\<rparr>"
    by (simp add: Listener_wf_NewGateway [OF built_listener_wf [OF l(2)]])
  have native: "safeValidatorID ''native/sing-box/1.14.1''"
    "native_validator SingBox1141 = ''native/sing-box/1.14.1''" by code_simp+
  have "Key_ok key" using key by (simp add: Key_ok_iff NewKey_Inr_iff key_def)
  moreover have "\<exists>p. prepare CtxLive example_executor (Some 40000) ?r example_target = Inr p \<and> pr_key p = key"
    unfolding prepare_def
    using check target connection key q dedup l(1) gateway native
    by (simp add: cfg example_executor_def on_error_def Validate_def)
  ultimately show ?thesis by metis
qed

theorem Execute_pins_destinations_witness:
  "\<exists>p a v. Execute CtxLive example_executor example_env (sample_record ''s1'' [''one'']) example_target = Inr v
     \<and> obs_outcome v = OutcomeSuccess
     \<and> prepare CtxLive example_executor (Some 40000) (sample_record ''s1'' [''one'']) example_target = Inr p
     \<and> gw_inventory (pr_gateway p) = [pinned a (sample_record ''s1'' [''one''])] \<and> \<not> reserved False a"
proof -
  let ?r = "sample_record ''s1'' [''one'']"
  obtain p where p: "prepare CtxLive example_executor (Some 40000) ?r example_target = Inr p" "Key_ok (pr_key p)"
    using example_prepare by blast
  have reply: "measureHTTP CtxLive (Response 204 (BodyLength 0)) False example_target = Inr (OutcomeSuccess, 204)"
    by (simp add: measureHTTP_def consumeResponse_def example_target_def)
  have "\<exists>v. Execute CtxLive example_executor example_env ?r example_target = Inr v \<and> obs_outcome v = OutcomeSuccess"
  proof -
    define par where "par = \<lparr>par_Key = pr_key p, par_StartedAt = unix_epoch, par_CompletedAt = unix_epoch + second,
      par_Duration = second, par_Outcome = OutcomeSuccess, par_StatusCode = 204\<rparr>"
    have "is_ok (NewObservation par)"
      using p(2) by (simp add: NewObservation_def par_def Let_def Key_ok_def is_ok_iff time_IsZero_def
          unix_epoch_def duration_defs outcome_defs) auto
    then obtain v where v: "NewObservation par = Inr v" by (auto simp: is_ok_iff)
    moreover have "obs_outcome v = OutcomeSuccess"
      using v by (simp add: NewObservation_iff params_of_def par_def)
    moreover have "Execute CtxLive example_executor example_env ?r example_target = on_error ObservationFailure (NewObservation par)"
      using p(1) reply by (simp add: Execute_def example_env_def time_Add_def par_def)
    ultimately show ?thesis by (simp add: on_error_def)
  qed
  then obtain v where v: "Execute CtxLive example_executor example_env ?r example_target = Inr v"
    "obs_outcome v = OutcomeSuccess" by blast
  have "resolver_wf (ex_resolver example_executor)" by (simp add: example_executor_def example_resolver_wf)
  from Execute_pins_destinations [OF sample_record_built(1) this v(1)] obtain q a l where
    "prepare CtxLive example_executor (env_port example_env) ?r example_target = Inr q"
    "pr_gateway q = \<lparr>gw_inventory = [pinned a ?r], gw_listener = l\<rparr>"
    "\<not> reserved (ex_allowPrivateEndpoints example_executor) a" by blast
  moreover have "env_port example_env = Some 40000" "\<not> ex_allowPrivateEndpoints example_executor"
    by (simp_all add: example_env_def example_executor_def)
  ultimately show ?thesis using v by (intro exI [of _ q] exI [of _ a] exI [of _ v]) simp
qed

section \<open>Evidence that is lost\<close>

text \<open>
  A target may have a timeout of two minutes, the maximum \<^verbatim>\<open>NewHTTPTarget\<close> accepts. A request that
  is stopped by that deadline has taken more than two minutes, and \<^verbatim>\<open>observation.New\<close> refuses
  longer durations: the timeout is reported as an error and leaves no observation.
\<close>

lemma Execute_two_minute_timeout:
  assumes "tgt_timeout target = 2 * minute" "env_duration env > tgt_timeout target"
    and "env_requestCtx env = CtxDeadlineExceeded" "env_reply env = TransportError timeout tls" "\<not> env_exited env"
  shows "measureHTTP (env_requestCtx env) (env_reply env) (env_exited env) target = Inr (OutcomeTimeout, 0)"
    and "Execute ctx ex env r target \<noteq> Inr v"
proof -
  show "measureHTTP (env_requestCtx env) (env_reply env) (env_exited env) target = Inr (OutcomeTimeout, 0)"
    using assms by (simp add: measureHTTP_def)
  show "Execute ctx ex env r target \<noteq> Inr v"
  proof
    assume "Execute ctx ex env r target = Inr v"
    then show False
      by (rule Execute_Inr) (use assms in \<open>auto simp: NewObservation_cases\<close>)
  qed
qed

text \<open>
  An answer with a status above 599 is classified as an unexpected response, but no
  observation can hold it; the probe reports an error instead.
\<close>

lemma Execute_status_above_599:
  assumes "env_reply env = Response status (BodyLength n)" "status > 599" "tgt_expectedStatus target \<le> 599"
    "int n \<le> tgt_maxResponseBytes target"
  shows "measureHTTP (env_requestCtx env) (env_reply env) (env_exited env) target
      = Inr (OutcomeUnexpectedResponse, status)"
    and "Execute ctx ex env r target \<noteq> Inr v"
proof -
  show reply: "measureHTTP (env_requestCtx env) (env_reply env) (env_exited env) target
      = Inr (OutcomeUnexpectedResponse, status)"
    using assms by (simp add: measureHTTP_def consumeResponse_def)
  show "Execute ctx ex env r target \<noteq> Inr v"
  proof
    assume "Execute ctx ex env r target = Inr v"
    then show False
      by (rule Execute_Inr) (use assms reply in \<open>auto simp: NewObservation_cases carries_status_def\<close>)
  qed
qed

end
