(* ===== verification/Probe_Scheduler.thy ===== *)
theory Probe_Scheduler
  imports Probe_Executor
begin

text \<open>
  The bounded probe scheduler of \<^verbatim>\<open>internal/probe/scheduler.go\<close> as a transition system. A
  state holds the job queue, the two families of semaphores, the atomic counters, the result
  slice, the program counter of every worker goroutine and the position of the producer loop.
  Every channel operation, atomic operation and call of the runner is a step of its own, so the
  interleavings are those of the goroutines. The runner is the interface the scheduler is given:
  a relation between a job and what \<^verbatim>\<open>Execute\<close> may return for it.
\<close>

section \<open>Configuration, jobs and results\<close>

definition MaxSchedulerConcurrency :: int where "MaxSchedulerConcurrency = 64"
definition MaxSchedulerQueue :: int where "MaxSchedulerQueue = 4096"
definition MaxSchedulerJobs :: int where "MaxSchedulerJobs = 10000"

record ScheduleConfig =
  sch_Concurrency :: int
  sch_Queue :: int
  sch_PerEndpoint :: int
  sch_PerTarget :: int
  sch_MaxJobs :: int

definition DefaultScheduleConfig :: ScheduleConfig where
  "DefaultScheduleConfig = \<lparr>sch_Concurrency = 4, sch_Queue = 256, sch_PerEndpoint = 1, sch_PerTarget = 2,
     sch_MaxJobs = MaxSchedulerJobs\<rparr>"

definition ScheduleConfig_valid :: "ScheduleConfig \<Rightarrow> bool" where
  "ScheduleConfig_valid config \<longleftrightarrow>
     sch_Concurrency config \<ge> 1 \<and> sch_Concurrency config \<le> MaxSchedulerConcurrency
     \<and> sch_Queue config \<ge> 1 \<and> sch_Queue config \<le> MaxSchedulerQueue
     \<and> sch_PerEndpoint config \<ge> 1 \<and> sch_PerEndpoint config \<le> sch_Concurrency config
     \<and> sch_PerTarget config \<ge> 1 \<and> sch_PerTarget config \<le> sch_Concurrency config
     \<and> sch_MaxJobs config \<ge> 1 \<and> sch_MaxJobs config \<le> MaxSchedulerJobs"

record Job =
  job_Record :: Record
  job_Target :: HTTPTarget

type_synonym run_outcome = "execute_error + Observation"

datatype schedule_error = ScheduleError string \<comment> \<open>code\<close>

text \<open>A slot of the result slice: still zero, failed by the scheduler, or what the runner returned.\<close>

datatype job_result = Unset | NotRun schedule_error | Returned run_outcome

record Stats =
  st_Jobs :: nat
  st_PeakRunning :: nat
  st_PeakEndpointRunning :: nat
  st_PeakTargetRunning :: nat

definition NewScheduler :: "'runner option \<Rightarrow> ScheduleConfig \<Rightarrow> schedule_error + 'runner \<times> ScheduleConfig" where
  "NewScheduler runner config =
     (case runner of
        None \<Rightarrow> Inl (ScheduleError ''configuration'')
      | Some r \<Rightarrow> if \<not> ScheduleConfig_valid config then Inl (ScheduleError ''configuration'') else Inr (r, config))"

definition endpoint_key :: "Job \<Rightarrow> string" where
  "endpoint_key job = ID_String (Record_ID (job_Record job))"

definition target_key :: "Job \<Rightarrow> string" where
  "target_key job = tgt_id (job_Target job)"

section \<open>States\<close>

text \<open>The statements of the worker loop, in order; a worker is about to run the one it is at.\<close>

datatype pc =
    AcquireEndpoint
  | AcquireTarget
  | Abandon \<comment> \<open>gives the endpoint back and records the cancellation\<close>
  | AddRunning
  | PeakRunning nat
  | AddEndpoint
  | AddTarget nat
  | PeakEndpoint nat nat
  | PeakTarget nat
  | Executing
  | SubTarget
  | SubEndpoint
  | SubRunning
  | ReleaseTarget
  | ReleaseEndpoint

datatype worker = Idle | Busy pc nat | Exited

text \<open>
  What the goroutines share. The semaphores are buffered channels, so their state is their
  length; a counter that \<^verbatim>\<open>loadCounter\<close> has not stored yet is zero.
\<close>

record shared =
  sh_queue :: "nat list"
  sh_closed :: bool
  sh_results :: "job_result list"
  sh_endpointLimits :: "string \<Rightarrow> nat"
  sh_targetLimits :: "string \<Rightarrow> nat"
  sh_running :: nat
  sh_peakRunning :: nat
  sh_endpointCurrent :: "string \<Rightarrow> nat"
  sh_endpointPeak :: "string \<Rightarrow> nat"
  sh_targetCurrent :: "string \<Rightarrow> nat"
  sh_targetPeak :: "string \<Rightarrow> nat"

record sched =
  sc_shared :: shared
  sc_workers :: "worker list"
  sc_next :: nat \<comment> \<open>the index the producer loop is at\<close>
  sc_cancelled :: bool \<comment> \<open>the context is done\<close>
  sc_stats :: "Stats option" \<comment> \<open>the statistics \<^verbatim>\<open>Run\<close> returned with\<close>

definition empty_shared :: "nat \<Rightarrow> shared" where
  "empty_shared n = \<lparr>sh_queue = [], sh_closed = False, sh_results = replicate n Unset,
     sh_endpointLimits = (\<lambda>_. 0), sh_targetLimits = (\<lambda>_. 0), sh_running = 0, sh_peakRunning = 0,
     sh_endpointCurrent = (\<lambda>_. 0), sh_endpointPeak = (\<lambda>_. 0), sh_targetCurrent = (\<lambda>_. 0),
     sh_targetPeak = (\<lambda>_. 0)\<rparr>"

text \<open>
  The part of \<^verbatim>\<open>Run\<close> before the loops: the checks, and the goroutines it starts. Without jobs it
  returns at once; that state has no queue to feed, which a closed one stands for.
\<close>

definition Run_start :: "ScheduleConfig \<Rightarrow> Job list \<Rightarrow> bool \<Rightarrow> schedule_error + sched" where
  "Run_start config jobs cancelled =
     (if int (length jobs) > sch_MaxJobs config then Inl (ScheduleError ''job_limit'')
      else if jobs = [] then
        Inr \<lparr>sc_shared = (empty_shared 0)\<lparr>sh_closed := True\<rparr>, sc_workers = [], sc_next = 0, sc_cancelled = cancelled,
          sc_stats = Some \<lparr>st_Jobs = 0, st_PeakRunning = 0, st_PeakEndpointRunning = 0, st_PeakTargetRunning = 0\<rparr>\<rparr>
      else if list_ex (\<lambda>job. endpoint_key job = ''<invalid-endpoint-id>'' \<or> target_key job = []) jobs
      then Inl (ScheduleError ''job'')
      else Inr \<lparr>sc_shared = empty_shared (length jobs),
             sc_workers = replicate (min (nat (sch_Concurrency config)) (length jobs)) Idle,
             sc_next = 0, sc_cancelled = cancelled, sc_stats = None\<rparr>)"

definition maxPeak :: "string list \<Rightarrow> (string \<Rightarrow> nat) \<Rightarrow> nat" where
  "maxPeak keys peaks = foldl (\<lambda>maximum k. if peaks k > maximum then peaks k else maximum) 0 keys"

definition run_stats :: "Job list \<Rightarrow> shared \<Rightarrow> Stats" where
  "run_stats jobs s = \<lparr>st_Jobs = length jobs, st_PeakRunning = sh_peakRunning s,
     st_PeakEndpointRunning = maxPeak (map endpoint_key jobs) (sh_endpointPeak s),
     st_PeakTargetRunning = maxPeak (map target_key jobs) (sh_targetPeak s)\<rparr>"

section \<open>Steps\<close>

definition cancelled_result :: job_result where
  "cancelled_result = NotRun (ScheduleError ''cancelled'')"

text \<open>
  One step of a worker goroutine. \<^verbatim>\<open>acquire\<close> selects between the semaphore and the context;
  when both are ready either branch may be taken. A semaphore is given back by receiving from its
  channel, which blocks while the channel is empty.
\<close>

inductive worker_step ::
  "ScheduleConfig \<Rightarrow> Job list \<Rightarrow> (Job \<Rightarrow> run_outcome \<Rightarrow> bool) \<Rightarrow> bool
   \<Rightarrow> worker \<Rightarrow> shared \<Rightarrow> worker \<Rightarrow> shared \<Rightarrow> bool"
  for config jobs runs cancelled where
  take_job: "sh_queue s = i # rest \<Longrightarrow>
    worker_step config jobs runs cancelled Idle s (Busy AcquireEndpoint i) (s\<lparr>sh_queue := rest\<rparr>)"
| exit_loop: "sh_queue s = [] \<Longrightarrow> sh_closed s \<Longrightarrow> worker_step config jobs runs cancelled Idle s Exited s"
| acquire_endpoint: "k = endpoint_key (jobs ! i) \<Longrightarrow> int (sh_endpointLimits s k) < sch_PerEndpoint config \<Longrightarrow>
    worker_step config jobs runs cancelled (Busy AcquireEndpoint i) s (Busy AcquireTarget i)
      (s\<lparr>sh_endpointLimits := (sh_endpointLimits s)(k := sh_endpointLimits s k + 1)\<rparr>)"
| cancel_endpoint: "cancelled \<Longrightarrow>
    worker_step config jobs runs cancelled (Busy AcquireEndpoint i) s Idle
      (s\<lparr>sh_results := (sh_results s)[i := cancelled_result]\<rparr>)"
| acquire_target: "k = target_key (jobs ! i) \<Longrightarrow> int (sh_targetLimits s k) < sch_PerTarget config \<Longrightarrow>
    worker_step config jobs runs cancelled (Busy AcquireTarget i) s (Busy AddRunning i)
      (s\<lparr>sh_targetLimits := (sh_targetLimits s)(k := sh_targetLimits s k + 1)\<rparr>)"
| cancel_target: "cancelled \<Longrightarrow>
    worker_step config jobs runs cancelled (Busy AcquireTarget i) s (Busy Abandon i) s"
| abandon: "k = endpoint_key (jobs ! i) \<Longrightarrow> 0 < sh_endpointLimits s k \<Longrightarrow>
    worker_step config jobs runs cancelled (Busy Abandon i) s Idle
      (s\<lparr>sh_endpointLimits := (sh_endpointLimits s)(k := sh_endpointLimits s k - 1),
         sh_results := (sh_results s)[i := cancelled_result]\<rparr>)"
| add_running:
    "worker_step config jobs runs cancelled (Busy AddRunning i) s (Busy (PeakRunning (sh_running s + 1)) i)
      (s\<lparr>sh_running := sh_running s + 1\<rparr>)"
| peak_running:
    "worker_step config jobs runs cancelled (Busy (PeakRunning c) i) s (Busy AddEndpoint i)
      (s\<lparr>sh_peakRunning := max (sh_peakRunning s) c\<rparr>)"
| add_endpoint: "k = endpoint_key (jobs ! i) \<Longrightarrow> c = sh_endpointCurrent s k + 1 \<Longrightarrow>
    worker_step config jobs runs cancelled (Busy AddEndpoint i) s (Busy (AddTarget c) i)
      (s\<lparr>sh_endpointCurrent := (sh_endpointCurrent s)(k := c)\<rparr>)"
| add_target: "k = target_key (jobs ! i) \<Longrightarrow> c = sh_targetCurrent s k + 1 \<Longrightarrow>
    worker_step config jobs runs cancelled (Busy (AddTarget e) i) s (Busy (PeakEndpoint e c) i)
      (s\<lparr>sh_targetCurrent := (sh_targetCurrent s)(k := c)\<rparr>)"
| peak_endpoint: "k = endpoint_key (jobs ! i) \<Longrightarrow>
    worker_step config jobs runs cancelled (Busy (PeakEndpoint e c) i) s (Busy (PeakTarget c) i)
      (s\<lparr>sh_endpointPeak := (sh_endpointPeak s)(k := max (sh_endpointPeak s k) e)\<rparr>)"
| peak_target: "k = target_key (jobs ! i) \<Longrightarrow>
    worker_step config jobs runs cancelled (Busy (PeakTarget c) i) s (Busy Executing i)
      (s\<lparr>sh_targetPeak := (sh_targetPeak s)(k := max (sh_targetPeak s k) c)\<rparr>)"
| execute: "runs (jobs ! i) r \<Longrightarrow>
    worker_step config jobs runs cancelled (Busy Executing i) s (Busy SubTarget i)
      (s\<lparr>sh_results := (sh_results s)[i := Returned r]\<rparr>)"
| sub_target: "k = target_key (jobs ! i) \<Longrightarrow>
    worker_step config jobs runs cancelled (Busy SubTarget i) s (Busy SubEndpoint i)
      (s\<lparr>sh_targetCurrent := (sh_targetCurrent s)(k := sh_targetCurrent s k - 1)\<rparr>)"
| sub_endpoint: "k = endpoint_key (jobs ! i) \<Longrightarrow>
    worker_step config jobs runs cancelled (Busy SubEndpoint i) s (Busy SubRunning i)
      (s\<lparr>sh_endpointCurrent := (sh_endpointCurrent s)(k := sh_endpointCurrent s k - 1)\<rparr>)"
| sub_running:
    "worker_step config jobs runs cancelled (Busy SubRunning i) s (Busy ReleaseTarget i)
      (s\<lparr>sh_running := sh_running s - 1\<rparr>)"
| release_target: "k = target_key (jobs ! i) \<Longrightarrow> 0 < sh_targetLimits s k \<Longrightarrow>
    worker_step config jobs runs cancelled (Busy ReleaseTarget i) s (Busy ReleaseEndpoint i)
      (s\<lparr>sh_targetLimits := (sh_targetLimits s)(k := sh_targetLimits s k - 1)\<rparr>)"
| release_endpoint: "k = endpoint_key (jobs ! i) \<Longrightarrow> 0 < sh_endpointLimits s k \<Longrightarrow>
    worker_step config jobs runs cancelled (Busy ReleaseEndpoint i) s Idle
      (s\<lparr>sh_endpointLimits := (sh_endpointLimits s)(k := sh_endpointLimits s k - 1)\<rparr>)"

text \<open>The producer's branch on a done context: every job from \<open>next\<close> on is marked.\<close>

definition cancel_from :: "nat \<Rightarrow> job_result list \<Rightarrow> job_result list" where
  "cancel_from n results = take n results @ replicate (length results - n) cancelled_result"

inductive program_step ::
  "ScheduleConfig \<Rightarrow> Job list \<Rightarrow> (Job \<Rightarrow> run_outcome \<Rightarrow> bool) \<Rightarrow> sched \<Rightarrow> sched \<Rightarrow> bool"
  for config jobs runs where
  worker: "w < length (sc_workers s) \<Longrightarrow>
    worker_step config jobs runs (sc_cancelled s) (sc_workers s ! w) (sc_shared s) u sh \<Longrightarrow>
    program_step config jobs runs s (s\<lparr>sc_workers := (sc_workers s)[w := u], sc_shared := sh\<rparr>)"
| enqueue: "\<not> sh_closed (sc_shared s) \<Longrightarrow> sc_next s < length jobs \<Longrightarrow>
    int (length (sh_queue (sc_shared s))) < sch_Queue config \<Longrightarrow>
    program_step config jobs runs s
      (s\<lparr>sc_shared := (sc_shared s)\<lparr>sh_queue := sh_queue (sc_shared s) @ [sc_next s]\<rparr>, sc_next := sc_next s + 1\<rparr>)"
| cancel_rest: "\<not> sh_closed (sc_shared s) \<Longrightarrow> sc_next s < length jobs \<Longrightarrow> sc_cancelled s \<Longrightarrow>
    program_step config jobs runs s
      (s\<lparr>sc_shared := (sc_shared s)\<lparr>sh_results := cancel_from (sc_next s) (sh_results (sc_shared s)), sh_closed := True\<rparr>,
         sc_next := length jobs\<rparr>)"
| close_queue: "\<not> sh_closed (sc_shared s) \<Longrightarrow> sc_next s = length jobs \<Longrightarrow>
    program_step config jobs runs s (s\<lparr>sc_shared := (sc_shared s)\<lparr>sh_closed := True\<rparr>\<rparr>)"
| return_results: "sh_closed (sc_shared s) \<Longrightarrow> list_all (\<lambda>u. u = Exited) (sc_workers s) \<Longrightarrow> sc_stats s = None \<Longrightarrow>
    program_step config jobs runs s (s\<lparr>sc_stats := Some (run_stats jobs (sc_shared s))\<rparr>)"

text \<open>The environment may cancel the context at any moment.\<close>

inductive sched_step ::
  "ScheduleConfig \<Rightarrow> Job list \<Rightarrow> (Job \<Rightarrow> run_outcome \<Rightarrow> bool) \<Rightarrow> sched \<Rightarrow> sched \<Rightarrow> bool"
  for config jobs runs where
  program: "program_step config jobs runs s s' \<Longrightarrow> sched_step config jobs runs s s'"
| cancellation: "\<not> sc_cancelled s \<Longrightarrow> sched_step config jobs runs s (s\<lparr>sc_cancelled := True\<rparr>)"

text \<open>Executions of \<^verbatim>\<open>Run\<close>, with their number of steps.\<close>

inductive sched_run ::
  "ScheduleConfig \<Rightarrow> Job list \<Rightarrow> (Job \<Rightarrow> run_outcome \<Rightarrow> bool) \<Rightarrow> nat \<Rightarrow> sched \<Rightarrow> bool"
  for config jobs runs where
  started: "Run_start config jobs cancelled = Inr s \<Longrightarrow> sched_run config jobs runs 0 s"
| stepped: "sched_run config jobs runs n s \<Longrightarrow> sched_step config jobs runs s s' \<Longrightarrow>
    sched_run config jobs runs (Suc n) s'"

section \<open>Where a worker stands\<close>

fun past_endpoint :: "pc \<Rightarrow> bool" where
  "past_endpoint AcquireEndpoint = False"
| "past_endpoint _ = True"

fun past_target :: "pc \<Rightarrow> bool" where
  "past_target AcquireEndpoint = False"
| "past_target AcquireTarget = False"
| "past_target Abandon = False"
| "past_target ReleaseEndpoint = False"
| "past_target _ = True"

fun in_running :: "pc \<Rightarrow> bool" where
  "in_running AddRunning = False"
| "in_running ReleaseTarget = False"
| "in_running p = past_target p"

fun in_endpoint :: "pc \<Rightarrow> bool" where
  "in_endpoint (PeakRunning _) = False"
| "in_endpoint AddEndpoint = False"
| "in_endpoint SubRunning = False"
| "in_endpoint p = in_running p"

fun in_target :: "pc \<Rightarrow> bool" where
  "in_target (AddTarget _) = False"
| "in_target SubEndpoint = False"
| "in_target p = in_endpoint p"

fun unanswered :: "pc \<Rightarrow> bool" where
  "unanswered SubTarget = False"
| "unanswered SubEndpoint = False"
| "unanswered SubRunning = False"
| "unanswered ReleaseTarget = False"
| "unanswered ReleaseEndpoint = False"
| "unanswered _ = True"

text \<open>One for a worker that is busy at a given kind of statement with a given kind of job.\<close>

fun weight :: "(pc \<Rightarrow> bool) \<Rightarrow> (nat \<Rightarrow> bool) \<Rightarrow> worker \<Rightarrow> nat" where
  "weight P J (Busy p i) = (if P p \<and> J i then 1 else 0)"
| "weight P J _ = 0"

abbreviation for_endpoint :: "Job list \<Rightarrow> string \<Rightarrow> nat \<Rightarrow> bool" where
  "for_endpoint jobs k i \<equiv> endpoint_key (jobs ! i) = k"

abbreviation for_target :: "Job list \<Rightarrow> string \<Rightarrow> nat \<Rightarrow> bool" where
  "for_target jobs k i \<equiv> target_key (jobs ! i) = k"

definition tally :: "('a \<Rightarrow> nat) \<Rightarrow> 'a list \<Rightarrow> nat" where
  "tally f xs = sum_list (map f xs)"

lemma tally_ge: "w < length xs \<Longrightarrow> f (xs ! w) \<le> tally f xs"
  unfolding tally_def by (metis elem_le_sum_list length_map nth_map)

lemma tally_update:
  assumes "w < length xs"
  shows "tally f (xs[w := u]) + f (xs ! w) = tally f xs + f u"
  using assms
proof (induction xs arbitrary: w)
  case (Cons x xs)
  then show ?case by (cases w) (auto simp: tally_def)
qed simp

lemma tally_mono: "(\<And>x. f x \<le> g x) \<Longrightarrow> tally f xs \<le> tally g xs"
  unfolding tally_def by (rule sum_list_mono)

lemma tally_length: "(\<And>x. f x \<le> 1) \<Longrightarrow> tally f xs \<le> length xs"
  unfolding tally_def using sum_list_mono [of xs f "\<lambda>_. 1"] by (simp add: sum_list_triv)

lemma tally_pos_iff: "0 < tally f xs \<longleftrightarrow> (\<exists>x\<in>set xs. 0 < f x)"
  unfolding tally_def by (induction xs) auto

lemma weight_le_1: "weight P J u \<le> 1"
  by (cases u) auto

lemma weight_mono: "(\<And>p. P p \<Longrightarrow> Q p) \<Longrightarrow> weight P J u \<le> weight Q J u"
  by (cases u) auto

lemma stage_order:
  "in_target p \<Longrightarrow> in_endpoint p" "in_endpoint p \<Longrightarrow> in_running p" "in_running p \<Longrightarrow> past_target p"
  "past_target p \<Longrightarrow> past_endpoint p"
  by (cases p; simp)+

section \<open>What a worker step changes\<close>

lemma worker_step_endpointLimits:
  assumes "worker_step config jobs runs cancelled u s u' s'"
    "weight past_endpoint (for_endpoint jobs k) u \<le> sh_endpointLimits s k"
  shows "sh_endpointLimits s' k + weight past_endpoint (for_endpoint jobs k) u
    = sh_endpointLimits s k + weight past_endpoint (for_endpoint jobs k) u'"
  using assms by (cases rule: worker_step.cases) auto

lemma worker_step_targetLimits:
  assumes "worker_step config jobs runs cancelled u s u' s'"
    "weight past_target (for_target jobs k) u \<le> sh_targetLimits s k"
  shows "sh_targetLimits s' k + weight past_target (for_target jobs k) u
    = sh_targetLimits s k + weight past_target (for_target jobs k) u'"
  using assms by (cases rule: worker_step.cases) auto

lemma worker_step_running:
  assumes "worker_step config jobs runs cancelled u s u' s'" "weight in_running (\<lambda>_. True) u \<le> sh_running s"
  shows "sh_running s' + weight in_running (\<lambda>_. True) u = sh_running s + weight in_running (\<lambda>_. True) u'"
  using assms by (cases rule: worker_step.cases) auto

lemma worker_step_endpointCurrent:
  assumes "worker_step config jobs runs cancelled u s u' s'"
    "weight in_endpoint (for_endpoint jobs k) u \<le> sh_endpointCurrent s k"
  shows "sh_endpointCurrent s' k + weight in_endpoint (for_endpoint jobs k) u
    = sh_endpointCurrent s k + weight in_endpoint (for_endpoint jobs k) u'"
  using assms by (cases rule: worker_step.cases) auto

lemma worker_step_targetCurrent:
  assumes "worker_step config jobs runs cancelled u s u' s'"
    "weight in_target (for_target jobs k) u \<le> sh_targetCurrent s k"
  shows "sh_targetCurrent s' k + weight in_target (for_target jobs k) u
    = sh_targetCurrent s k + weight in_target (for_target jobs k) u'"
  using assms by (cases rule: worker_step.cases) auto

lemma worker_step_limits:
  assumes "worker_step config jobs runs cancelled u s u' s'"
  shows "int (sh_endpointLimits s k) \<le> sch_PerEndpoint config \<Longrightarrow> int (sh_endpointLimits s' k) \<le> sch_PerEndpoint config"
    and "int (sh_targetLimits s k) \<le> sch_PerTarget config \<Longrightarrow> int (sh_targetLimits s' k) \<le> sch_PerTarget config"
  using assms by (cases rule: worker_step.cases; auto)+


section \<open>The accounting of semaphores and counters\<close>

definition counts_inv :: "ScheduleConfig \<Rightarrow> Job list \<Rightarrow> sched \<Rightarrow> bool" where
  "counts_inv config jobs s \<longleftrightarrow>
     (let sh = sc_shared s; ws = sc_workers s
      in (\<forall>k. sh_endpointLimits sh k = tally (weight past_endpoint (for_endpoint jobs k)) ws
            \<and> int (tally (weight past_endpoint (for_endpoint jobs k)) ws) \<le> sch_PerEndpoint config)
         \<and> (\<forall>k. sh_targetLimits sh k = tally (weight past_target (for_target jobs k)) ws
            \<and> int (tally (weight past_target (for_target jobs k)) ws) \<le> sch_PerTarget config)
         \<and> sh_running sh = tally (weight in_running (\<lambda>_. True)) ws
         \<and> (\<forall>k. sh_endpointCurrent sh k = tally (weight in_endpoint (for_endpoint jobs k)) ws)
         \<and> (\<forall>k. sh_targetCurrent sh k = tally (weight in_target (for_target jobs k)) ws))"

text \<open>A conserved quantity of one worker and the shared state is one of all workers.\<close>

lemma tally_conserved:
  assumes "w < length ws" "g = tally f ws" "f (ws ! w) \<le> g \<Longrightarrow> g' + f (ws ! w) = g + f u"
  shows "g' = tally f (ws[w := u])"
  using tally_update [OF assms(1), of f u] tally_ge [OF assms(1), of f] assms(2,3) by linarith

lemma counts_inv_step:
  assumes "counts_inv config jobs s" "program_step config jobs runs s s'"
  shows "counts_inv config jobs s'"
  using assms(2)
proof (cases rule: program_step.cases)
  case (worker w u sh)
  note inv = assms(1) [unfolded counts_inv_def Let_def]
  note conserved = tally_conserved [OF worker(2)]
  have "sh_endpointLimits sh k = tally (weight past_endpoint (for_endpoint jobs k)) ((sc_workers s)[w := u])" for k
    by (rule conserved [where g = "sh_endpointLimits (sc_shared s) k"]) (use inv worker_step_endpointLimits [OF worker(3)] in blast)+
  moreover have "sh_targetLimits sh k = tally (weight past_target (for_target jobs k)) ((sc_workers s)[w := u])" for k
    by (rule conserved [where g = "sh_targetLimits (sc_shared s) k"]) (use inv worker_step_targetLimits [OF worker(3)] in blast)+
  moreover have "sh_running sh = tally (weight in_running (\<lambda>_. True)) ((sc_workers s)[w := u])"
    by (rule conserved [where g = "sh_running (sc_shared s)"]) (use inv worker_step_running [OF worker(3)] in blast)+
  moreover have "sh_endpointCurrent sh k = tally (weight in_endpoint (for_endpoint jobs k)) ((sc_workers s)[w := u])" for k
    by (rule conserved [where g = "sh_endpointCurrent (sc_shared s) k"]) (use inv worker_step_endpointCurrent [OF worker(3)] in blast)+
  moreover have "sh_targetCurrent sh k = tally (weight in_target (for_target jobs k)) ((sc_workers s)[w := u])" for k
    by (rule conserved [where g = "sh_targetCurrent (sc_shared s) k"]) (use inv worker_step_targetCurrent [OF worker(3)] in blast)+
  moreover have "int (sh_endpointLimits sh k) \<le> sch_PerEndpoint config" "int (sh_targetLimits sh k) \<le> sch_PerTarget config" for k
    using worker_step_limits [OF worker(3), of k] inv by simp_all
  ultimately show ?thesis unfolding counts_inv_def Let_def worker(1) by simp
qed (use assms(1) in \<open>auto simp: counts_inv_def Let_def\<close>)

lemma counts_inv_bounds:
  assumes "counts_inv config jobs s"
  shows "sh_running (sc_shared s) \<le> length (sc_workers s)"
    "int (sh_endpointCurrent (sc_shared s) k) \<le> sch_PerEndpoint config"
    "int (sh_targetCurrent (sc_shared s) k) \<le> sch_PerTarget config"
proof -
  note inv = assms [unfolded counts_inv_def Let_def]
  have "sh_running (sc_shared s) = tally (weight in_running (\<lambda>_. True)) (sc_workers s)" using inv by blast
  then show "sh_running (sc_shared s) \<le> length (sc_workers s)" using tally_length [OF weight_le_1] by simp
  have "sh_endpointCurrent (sc_shared s) k = tally (weight in_endpoint (for_endpoint jobs k)) (sc_workers s)"
    "int (tally (weight past_endpoint (for_endpoint jobs k)) (sc_workers s)) \<le> sch_PerEndpoint config"
    using inv by blast+
  moreover have "tally (weight in_endpoint (for_endpoint jobs k)) (sc_workers s)
      \<le> tally (weight past_endpoint (for_endpoint jobs k)) (sc_workers s)"
    by (intro tally_mono weight_mono) (blast dest: stage_order)
  ultimately show "int (sh_endpointCurrent (sc_shared s) k) \<le> sch_PerEndpoint config"
    by linarith
  have "sh_targetCurrent (sc_shared s) k = tally (weight in_target (for_target jobs k)) (sc_workers s)"
    "int (tally (weight past_target (for_target jobs k)) (sc_workers s)) \<le> sch_PerTarget config"
    using inv by blast+
  moreover have "tally (weight in_target (for_target jobs k)) (sc_workers s)
      \<le> tally (weight past_target (for_target jobs k)) (sc_workers s)"
    by (intro tally_mono weight_mono) (blast dest: stage_order)
  ultimately show "int (sh_targetCurrent (sc_shared s) k) \<le> sch_PerTarget config"
    by linarith
qed

section \<open>Peaks\<close>

text \<open>The counts a worker carries to the next statement.\<close>

fun carried :: "ScheduleConfig \<Rightarrow> nat \<Rightarrow> worker \<Rightarrow> bool" where
  "carried config n (Busy (PeakRunning c) i) \<longleftrightarrow> c \<le> n"
| "carried config n (Busy (AddTarget e) i) \<longleftrightarrow> int e \<le> sch_PerEndpoint config"
| "carried config n (Busy (PeakEndpoint e c) i) \<longleftrightarrow> int e \<le> sch_PerEndpoint config \<and> int c \<le> sch_PerTarget config"
| "carried config n (Busy (PeakTarget c) i) \<longleftrightarrow> int c \<le> sch_PerTarget config"
| "carried config n _ \<longleftrightarrow> True"

definition peaks_inv :: "ScheduleConfig \<Rightarrow> sched \<Rightarrow> bool" where
  "peaks_inv config s \<longleftrightarrow>
     list_all (carried config (length (sc_workers s))) (sc_workers s)
     \<and> sh_peakRunning (sc_shared s) \<le> length (sc_workers s)
     \<and> (\<forall>k. int (sh_endpointPeak (sc_shared s) k) \<le> sch_PerEndpoint config)
     \<and> (\<forall>k. int (sh_targetPeak (sc_shared s) k) \<le> sch_PerTarget config)"

lemma worker_step_carried:
  assumes "worker_step config jobs runs cancelled u s u' s'" "carried config n u"
    "sh_running s' \<le> n" "\<And>k. int (sh_endpointCurrent s' k) \<le> sch_PerEndpoint config"
    "\<And>k. int (sh_targetCurrent s' k) \<le> sch_PerTarget config"
  shows "carried config n u'"
  using assms(1)
proof (cases rule: worker_step.cases)
  case (add_endpoint k i c)
  then show ?thesis using assms(4) [of k] by simp
next
  case (add_target k i c e)
  then show ?thesis using assms(2) assms(5) [of k] by simp
qed (use assms(2,3) in simp_all)

lemma worker_step_peaks:
  assumes "worker_step config jobs runs cancelled u s u' s'" "carried config n u"
  shows "sh_peakRunning s \<le> n \<Longrightarrow> sh_peakRunning s' \<le> n"
    and "int (sh_endpointPeak s k) \<le> sch_PerEndpoint config \<Longrightarrow> int (sh_endpointPeak s' k) \<le> sch_PerEndpoint config"
    and "int (sh_targetPeak s k) \<le> sch_PerTarget config \<Longrightarrow> int (sh_targetPeak s' k) \<le> sch_PerTarget config"
  using assms by (cases rule: worker_step.cases; auto)+

lemma peaks_inv_step:
  assumes "peaks_inv config s" "counts_inv config jobs s" "program_step config jobs runs s s'"
  shows "peaks_inv config s'"
  using assms(3)
proof (cases rule: program_step.cases)
  case (worker w u sh)
  note inv = assms(1) [unfolded peaks_inv_def]
  have carried: "carried config (length (sc_workers s)) (sc_workers s ! w)"
    using inv worker(2) by (simp add: list_all_length)
  have "counts_inv config jobs s'" by (rule counts_inv_step [OF assms(2,3)])
  note bounds = counts_inv_bounds [OF this]
  have "carried config (length (sc_workers s)) u"
    by (rule worker_step_carried [OF worker(3) carried]) (use bounds worker(1) in auto)
  then show ?thesis
    using inv worker(1) worker_step_peaks [OF worker(3) carried]
    by (auto simp: peaks_inv_def list_all_iff dest!: set_update_subset_insert [THEN subsetD])
qed (use assms(1) in \<open>simp_all add: peaks_inv_def\<close>)

section \<open>The accounting of jobs\<close>

abbreviation pending :: "nat \<Rightarrow> worker \<Rightarrow> nat" where
  "pending i \<equiv> weight unanswered (\<lambda>j. j = i)"

definition result_ok :: "(Job \<Rightarrow> run_outcome \<Rightarrow> bool) \<Rightarrow> bool \<Rightarrow> Job \<Rightarrow> job_result \<Rightarrow> bool" where
  "result_ok runs cancelled job r \<longleftrightarrow>
     (case r of Unset \<Rightarrow> True | NotRun e \<Rightarrow> cancelled \<and> e = ScheduleError ''cancelled'' | Returned v \<Rightarrow> runs job v)"

text \<open>
  Every job the producer has passed is in exactly one place: in the queue, in the hands of one
  worker that has not answered it, or answered.
\<close>

definition jobs_inv :: "Job list \<Rightarrow> (Job \<Rightarrow> run_outcome \<Rightarrow> bool) \<Rightarrow> sched \<Rightarrow> bool" where
  "jobs_inv jobs runs s \<longleftrightarrow>
     (let sh = sc_shared s; ws = sc_workers s
      in length (sh_results sh) = length jobs \<and> sc_next s \<le> length jobs
         \<and> (sh_closed sh \<longrightarrow> sc_next s = length jobs)
         \<and> (\<forall>i. count_list (sh_queue sh) i + tally (pending i) ws
              = (if i < sc_next s \<and> sh_results sh ! i = Unset then 1 else 0))
         \<and> (\<not> sh_closed sh \<longrightarrow> (\<forall>i. sc_next s \<le> i \<and> i < length jobs \<longrightarrow> sh_results sh ! i = Unset))
         \<and> (\<forall>i<length jobs. result_ok runs (sc_cancelled s) (jobs ! i) (sh_results sh ! i))
         \<and> (Exited \<in> set ws \<longrightarrow> sh_closed sh \<and> sh_queue sh = [])
         \<and> (\<forall>i. Busy Abandon i \<in> set ws \<longrightarrow> sc_cancelled s)
         \<and> (ws = [] \<longrightarrow> jobs = [] \<and> sh_closed sh)
         \<and> (sc_stats s \<noteq> None \<longrightarrow> sh_closed sh \<and> list_all (\<lambda>u. u = Exited) ws))"

lemma worker_step_keeps:
  assumes "worker_step config jobs runs cancelled u s u' s'"
  shows "sh_closed s' = sh_closed s" "length (sh_results s') = length (sh_results s)"
    "u' = Exited \<Longrightarrow> sh_closed s \<and> sh_queue s = []" "sh_queue s = [] \<Longrightarrow> sh_queue s' = []" "u \<noteq> Exited"
    "u' = Busy Abandon i \<Longrightarrow> cancelled"
  using assms by (cases rule: worker_step.cases; simp)+

text \<open>A step moves one job at most, and writes a result exactly when it gives the job up.\<close>

lemma worker_step_job:
  assumes "worker_step config jobs runs cancelled u s u' s'"
    and "\<And>j. u = Busy Abandon j \<Longrightarrow> cancelled"
    and "pending i u = 1 \<Longrightarrow> i < length (sh_results s) \<and> sh_results s ! i = Unset"
  shows "count_list (sh_queue s') i + pending i u' = count_list (sh_queue s) i + pending i u \<and> sh_results s' ! i = sh_results s ! i
    \<or> count_list (sh_queue s') i = count_list (sh_queue s) i \<and> pending i u = 1 \<and> pending i u' = 0
      \<and> sh_results s' ! i \<noteq> Unset \<and> result_ok runs cancelled (jobs ! i) (sh_results s' ! i)"
  using assms(1)
proof (cases rule: worker_step.cases)
  case (cancel_endpoint j)
  then show ?thesis using assms(2,3) by (cases "j = i") (simp_all add: cancelled_result_def result_ok_def)
next
  case (abandon k j)
  then show ?thesis using assms(2,3) by (cases "j = i") (simp_all add: cancelled_result_def result_ok_def)
next
  case (execute j r)
  then show ?thesis using assms(2,3) by (cases "j = i") (simp_all add: result_ok_def)
qed auto


lemma jobs_inv_worker:
  assumes inv: "jobs_inv jobs runs s" and w: "w < length (sc_workers s)"
    and step: "worker_step config jobs runs (sc_cancelled s) (sc_workers s ! w) (sc_shared s) u sh"
  shows "jobs_inv jobs runs (s\<lparr>sc_workers := (sc_workers s)[w := u], sc_shared := sh\<rparr>)"
proof -
  let ?ws = "sc_workers s" and ?sh = "sc_shared s"
  note inv = inv [unfolded jobs_inv_def Let_def]
  note keeps = worker_step_keeps [OF step]
  have total: "count_list (sh_queue ?sh) i + tally (pending i) ?ws
      = (if i < sc_next s \<and> sh_results ?sh ! i = Unset then 1 else 0)" for i using inv by blast
  have held: "i < length (sh_results ?sh) \<and> sh_results ?sh ! i = Unset \<and> i < sc_next s" if "pending i (?ws ! w) = 1" for i
  proof -
    have "1 \<le> tally (pending i) ?ws" using tally_ge [OF w, of "pending i"] that by simp
    with total [of i] have "i < sc_next s \<and> sh_results ?sh ! i = Unset" by (metis add_is_0 not_one_le_zero)
    then show ?thesis using inv by simp
  qed
  have abandon: "sc_cancelled s" if "?ws ! w = Busy Abandon j" for j
    using inv that w by (metis nth_mem)
  have job: "count_list (sh_queue sh) i + pending i u = count_list (sh_queue ?sh) i + pending i (?ws ! w)
        \<and> sh_results sh ! i = sh_results ?sh ! i
      \<or> count_list (sh_queue sh) i = count_list (sh_queue ?sh) i \<and> pending i (?ws ! w) = 1 \<and> pending i u = 0
        \<and> sh_results sh ! i \<noteq> Unset \<and> result_ok runs (sc_cancelled s) (jobs ! i) (sh_results sh ! i)" for i
    by (rule worker_step_job [OF step]) (use abandon held in blast)+
  have "count_list (sh_queue sh) i + tally (pending i) (?ws[w := u])
      = (if i < sc_next s \<and> sh_results sh ! i = Unset then 1 else 0)" for i
    using job [of i]
  proof
    assume same: "count_list (sh_queue sh) i + pending i u = count_list (sh_queue ?sh) i + pending i (?ws ! w)
        \<and> sh_results sh ! i = sh_results ?sh ! i"
    then have "count_list (sh_queue sh) i + tally (pending i) (?ws[w := u])
        = count_list (sh_queue ?sh) i + tally (pending i) ?ws"
      using tally_update [OF w, of "pending i" u] by linarith
    then show ?thesis using total [of i] same by simp
  next
    assume answered: "count_list (sh_queue sh) i = count_list (sh_queue ?sh) i \<and> pending i (?ws ! w) = 1 \<and> pending i u = 0
        \<and> sh_results sh ! i \<noteq> Unset \<and> result_ok runs (sc_cancelled s) (jobs ! i) (sh_results sh ! i)"
    then have "count_list (sh_queue ?sh) i + tally (pending i) ?ws = 1" using held [of i] total [of i] by simp
    then show ?thesis using tally_update [OF w, of "pending i" u] answered by simp
  qed
  moreover have "result_ok runs (sc_cancelled s) (jobs ! i) (sh_results sh ! i)" if "i < length jobs" for i
    using job [of i] inv that by metis
  moreover have "sh_results sh ! i = Unset" if "\<not> sh_closed sh" "sc_next s \<le> i \<and> i < length jobs" for i
    using job [of i] held [of i] inv keeps(1) that by (metis not_le)
  moreover have members: "x = u \<or> x \<in> set ?ws" if "x \<in> set (?ws[w := u])" for x
    using that set_update_subset_insert by fastforce
  have "sh_closed sh \<and> sh_queue sh = []" if "Exited \<in> set (?ws[w := u])"
    using members [OF that] inv keeps by metis
  moreover have "sc_cancelled s" if "Busy Abandon i \<in> set (?ws[w := u])" for i
    using members [OF that] inv step worker_step_keeps(6) by metis
  moreover have "\<not> list_all (\<lambda>u. u = Exited) ?ws" using w keeps(5) by (auto simp: list_all_length)
  then have "sc_stats s = None" using inv by blast
  moreover have "?ws \<noteq> []" using w by auto
  ultimately show ?thesis
    unfolding jobs_inv_def Let_def using inv keeps(1,2) by simp
qed


lemma count_list_append: "count_list (xs @ ys) x = count_list xs x + count_list ys x"
  by (induction xs) auto

lemma cancel_from_nth:
  assumes "i < length rs"
  shows "cancel_from n rs ! i = (if i < n then rs ! i else cancelled_result)"
proof (cases "n \<le> length rs")
  case True
  then show ?thesis using assms by (simp add: cancel_from_def nth_append)
next
  case False
  then show ?thesis using assms by (simp add: cancel_from_def)
qed

lemma result_ok_cancel: "result_ok runs cancelled job r \<Longrightarrow> result_ok runs True job r"
  by (cases r) (auto simp: result_ok_def)

lemma jobs_inv_step:
  assumes inv: "jobs_inv jobs runs s" and step: "program_step config jobs runs s s'"
  shows "jobs_inv jobs runs s'"
proof -
  let ?sh = "sc_shared s"
  note facts = inv [unfolded jobs_inv_def Let_def]
  have total: "count_list (sh_queue ?sh) i + tally (pending i) (sc_workers s)
      = (if i < sc_next s \<and> sh_results ?sh ! i = Unset then 1 else 0)" for i using facts by blast
  have len: "length (sh_results ?sh) = length jobs" using facts by blast
  have opened: "Exited \<notin> set (sc_workers s)" "sc_workers s \<noteq> []" "sc_stats s = None" if "\<not> sh_closed ?sh"
    using facts that by blast+
  show ?thesis using step
proof (cases rule: program_step.cases)
  case (worker w u sh)
  then show ?thesis using jobs_inv_worker [OF inv] by simp
next
  case enqueue
  have "sh_results ?sh ! sc_next s = Unset" using facts enqueue(2,3) by blast
  then have "count_list (sh_queue ?sh @ [sc_next s]) i + tally (pending i) (sc_workers s)
      = (if i < sc_next s + 1 \<and> sh_results ?sh ! i = Unset then 1 else 0)" for i
    using total [of i] by (cases "i = sc_next s") (auto simp: count_list_append)
  then show ?thesis using facts enqueue opened by (simp add: jobs_inv_def Let_def)
next
  case cancel_rest
  have nth: "cancel_from (sc_next s) (sh_results ?sh) ! i
      = (if i < sc_next s then sh_results ?sh ! i else cancelled_result)" if "i < length jobs" for i
    using that len by (simp add: cancel_from_nth)
  define R where "R = cancel_from (sc_next s) (sh_results ?sh)"
  note nth = nth [folded R_def]
  have counts: "\<forall>i. count_list (sh_queue ?sh) i + tally (pending i) (sc_workers s)
      = (if i < length jobs \<and> R ! i = Unset then 1 else 0)"
  proof
    fix i
    show "count_list (sh_queue ?sh) i + tally (pending i) (sc_workers s)
        = (if i < length jobs \<and> R ! i = Unset then 1 else 0)"
      using total [of i] nth [of i] cancel_rest(3) by (cases "i < length jobs") (auto simp: cancelled_result_def)
  qed
  have results: "\<forall>i<length jobs. result_ok runs True (jobs ! i) (R ! i)"
    using facts nth cancel_rest(4) by (simp add: result_ok_def cancelled_result_def)
  have size: "length R = length jobs" using len cancel_rest(3) by (simp add: R_def cancel_from_def)
  have fields: "sh_results (sc_shared s') = R" "sc_workers s' = sc_workers s" "sc_next s' = length jobs"
    "sh_closed (sc_shared s') = True" "sh_queue (sc_shared s') = sh_queue ?sh" "sc_cancelled s' = True" "sc_stats s' = None"
    using cancel_rest opened by (simp_all add: R_def)
  show ?thesis
    unfolding jobs_inv_def Let_def fields
    by (intro conjI) (use counts results size opened [OF cancel_rest(2)] in \<open>(assumption | simp only: simp_thms order_refl)+\<close>)
next
  case close_queue
  have fields: "sh_results (sc_shared s') = sh_results ?sh" "sc_workers s' = sc_workers s" "sc_next s' = sc_next s"
    "sh_closed (sc_shared s') = True" "sh_queue (sc_shared s') = sh_queue ?sh" "sc_cancelled s' = sc_cancelled s"
    "sc_stats s' = None"
    using close_queue opened by simp_all
  show ?thesis
    unfolding jobs_inv_def Let_def fields using facts close_queue(3) opened [OF close_queue(2)] by blast
next
  case return_results
  have fields: "sc_shared s' = ?sh" "sc_workers s' = sc_workers s" "sc_next s' = sc_next s"
    "sc_cancelled s' = sc_cancelled s"
    using return_results by simp_all
  show ?thesis
    unfolding jobs_inv_def Let_def fields using facts return_results(2,3) by blast
qed
qed

lemma jobs_inv_cancellation:
  "jobs_inv jobs runs s \<Longrightarrow> jobs_inv jobs runs (s\<lparr>sc_cancelled := True\<rparr>)"
  by (auto simp: jobs_inv_def Let_def intro: result_ok_cancel)

section \<open>Reachable states\<close>

lemma tally_replicate_Idle: "tally (weight P J) (replicate n Idle) = 0"
  by (induction n) (simp_all add: tally_def)

lemma Run_start_Inr:
  assumes "Run_start config jobs cancelled = Inr s"
  shows "jobs = [] \<and> sc_workers s = [] \<and> sc_shared s = (empty_shared 0)\<lparr>sh_closed := True\<rparr> \<and> sc_next s = 0
      \<and> sc_stats s = Some \<lparr>st_Jobs = 0, st_PeakRunning = 0, st_PeakEndpointRunning = 0, st_PeakTargetRunning = 0\<rparr>
    \<or> jobs \<noteq> [] \<and> sc_workers s = replicate (min (nat (sch_Concurrency config)) (length jobs)) Idle
      \<and> sc_shared s = empty_shared (length jobs) \<and> sc_next s = 0 \<and> sc_stats s = None"
  using assms by (auto simp: Run_start_def split: if_splits)

lemma Run_start_inv:
  assumes valid: "ScheduleConfig_valid config" and start: "Run_start config jobs cancelled = Inr s"
  shows "counts_inv config jobs s" "peaks_inv config s" "jobs_inv jobs runs s"
proof -
  have bounds: "0 \<le> sch_PerEndpoint config" "0 \<le> sch_PerTarget config" "0 < nat (sch_Concurrency config)"
    using valid by (auto simp: ScheduleConfig_valid_def)
  consider (none) "jobs = []" "sc_workers s = []" "sc_shared s = (empty_shared 0)\<lparr>sh_closed := True\<rparr>" "sc_next s = 0"
    | (some) "jobs \<noteq> []" "sc_workers s = replicate (min (nat (sch_Concurrency config)) (length jobs)) Idle"
        "sc_shared s = empty_shared (length jobs)" "sc_next s = 0" "sc_stats s = None"
    using Run_start_Inr [OF start] by (elim disjE conjE)
  note cases = this
  show "counts_inv config jobs s"
    using cases by cases (use bounds in \<open>simp_all add: counts_inv_def empty_shared_def tally_replicate_Idle, simp_all add: tally_def\<close>)
  show "peaks_inv config s"
    using cases by cases (use bounds in \<open>simp_all add: peaks_inv_def empty_shared_def list_all_iff\<close>)
  show "jobs_inv jobs runs s"
    using cases
  proof cases
    case none
    then show ?thesis by (simp add: jobs_inv_def empty_shared_def tally_def)
  next
    case some
    have "min (nat (sch_Concurrency config)) (length jobs) \<noteq> 0" using bounds(3) some(1) by simp
    with some show ?thesis
      by (simp add: jobs_inv_def empty_shared_def tally_replicate_Idle result_ok_def)
  qed
qed

definition sched_inv ::
  "ScheduleConfig \<Rightarrow> Job list \<Rightarrow> (Job \<Rightarrow> run_outcome \<Rightarrow> bool) \<Rightarrow> sched \<Rightarrow> bool" where
  "sched_inv config jobs runs s \<longleftrightarrow> counts_inv config jobs s \<and> peaks_inv config s \<and> jobs_inv jobs runs s
     \<and> length (sc_workers s) \<le> nat (sch_Concurrency config)"

lemma sched_inv_step:
  assumes "sched_inv config jobs runs s" "sched_step config jobs runs s s'"
  shows "sched_inv config jobs runs s'"
  using assms(2)
proof (cases rule: sched_step.cases)
  case program
  have "length (sc_workers s') = length (sc_workers s)"
    using program by (cases rule: program_step.cases) simp_all
  then show ?thesis
    using assms(1) program counts_inv_step peaks_inv_step jobs_inv_step unfolding sched_inv_def by metis
next
  case cancellation
  then show ?thesis
    using assms(1) by (auto simp: sched_inv_def counts_inv_def peaks_inv_def intro: jobs_inv_cancellation)
qed

lemma sched_run_inv:
  assumes "ScheduleConfig_valid config" "sched_run config jobs runs n s"
  shows "sched_inv config jobs runs s"
  using assms(2)
proof (induction rule: sched_run.induct)
  case (started cancelled s)
  have "length (sc_workers s) \<le> nat (sch_Concurrency config)" using Run_start_Inr [OF started] by auto
  then show ?case using Run_start_inv [OF assms(1) started] by (simp add: sched_inv_def)
next
  case (stepped n s s')
  then show ?case by (blast intro: sched_inv_step)
qed

lemma maxPeak_le: "(\<And>k. int (peaks k) \<le> b) \<Longrightarrow> 0 \<le> b \<Longrightarrow> int (maxPeak keys peaks) \<le> b"
proof -
  assume bound: "\<And>k. int (peaks k) \<le> b" "0 \<le> b"
  have "int m \<le> b \<Longrightarrow> int (foldl (\<lambda>maximum k. if peaks k > maximum then peaks k else maximum) m keys) \<le> b" for m
    by (induction keys arbitrary: m) (simp_all add: bound(1))
  then show ?thesis using bound(2) by (simp add: maxPeak_def)
qed


section \<open>Limits\<close>

text \<open>How many workers are inside the runner, for a choice of jobs.\<close>

definition executing :: "(nat \<Rightarrow> bool) \<Rightarrow> sched \<Rightarrow> nat" where
  "executing J s = length (filter (\<lambda>u. \<exists>i. u = Busy Executing i \<and> J i) (sc_workers s))"

lemma executing_tally: "executing J s = tally (weight (\<lambda>p. p = Executing) J) (sc_workers s)"
proof -
  have "weight (\<lambda>p. p = Executing) J u = (if \<exists>i. u = Busy Executing i \<and> J i then 1 else 0)" for u
    by (cases u) auto
  then have "length (filter (\<lambda>u. \<exists>i. u = Busy Executing i \<and> J i) ws) = tally (weight (\<lambda>p. p = Executing) J) ws" for ws
    by (induction ws) (simp_all add: tally_def)
  then show ?thesis by (simp add: executing_def)
qed

lemma executing_le:
  assumes "P Executing"
  shows "executing J s \<le> tally (weight P J) (sc_workers s)"
  unfolding executing_tally by (intro tally_mono weight_mono) (use assms in simp)

text \<open>
  C29. The scheduler keeps its limits in every reachable state, whatever the interleaving: at
  most \<^verbatim>\<open>Concurrency\<close> probes run at once, at most \<^verbatim>\<open>PerEndpoint\<close> of them for one endpoint and
  at most \<^verbatim>\<open>PerTarget\<close> for one target, and the peaks that \<^verbatim>\<open>Run\<close> reports stay within the same
  limits.
\<close>

theorem Run_respects_limits:
  assumes "ScheduleConfig_valid config" "sched_run config jobs runs n s"
  shows "int (executing (\<lambda>_. True) s) \<le> sch_Concurrency config
    \<and> int (executing (\<lambda>i. endpoint_key (jobs ! i) = k) s) \<le> sch_PerEndpoint config
    \<and> int (executing (\<lambda>i. target_key (jobs ! i) = t) s) \<le> sch_PerTarget config
    \<and> int (st_PeakRunning (run_stats jobs (sc_shared s))) \<le> sch_Concurrency config
    \<and> int (st_PeakEndpointRunning (run_stats jobs (sc_shared s))) \<le> sch_PerEndpoint config
    \<and> int (st_PeakTargetRunning (run_stats jobs (sc_shared s))) \<le> sch_PerTarget config"
proof -
  have inv: "counts_inv config jobs s" "peaks_inv config s" "length (sc_workers s) \<le> nat (sch_Concurrency config)"
    using sched_run_inv [OF assms] by (simp_all add: sched_inv_def)
  have positive: "1 \<le> sch_Concurrency config" "0 \<le> sch_PerEndpoint config" "0 \<le> sch_PerTarget config"
    using assms(1) by (simp_all add: ScheduleConfig_valid_def)
  have "int (tally (weight past_endpoint (for_endpoint jobs k)) (sc_workers s)) \<le> sch_PerEndpoint config"
    "int (tally (weight past_target (for_target jobs t)) (sc_workers s)) \<le> sch_PerTarget config"
    using inv(1) by (simp_all add: counts_inv_def Let_def)
  moreover have "executing (for_endpoint jobs k) s \<le> tally (weight past_endpoint (for_endpoint jobs k)) (sc_workers s)"
    "executing (for_target jobs t) s \<le> tally (weight past_target (for_target jobs t)) (sc_workers s)"
    by (rule executing_le, simp)+
  moreover have "executing (\<lambda>_. True) s \<le> length (sc_workers s)" by (simp add: executing_def)
  moreover have "sh_peakRunning (sc_shared s) \<le> length (sc_workers s)"
    "int (maxPeak (map endpoint_key jobs) (sh_endpointPeak (sc_shared s))) \<le> sch_PerEndpoint config"
    "int (maxPeak (map target_key jobs) (sh_targetPeak (sc_shared s))) \<le> sch_PerTarget config"
    using inv(2) positive by (auto simp: peaks_inv_def intro!: maxPeak_le)
  moreover have "int (length (sc_workers s)) \<le> sch_Concurrency config" using inv(3) positive(1) by linarith
  ultimately show ?thesis by (simp add: run_stats_def)
qed

section \<open>Results\<close>

text \<open>
  C30. When \<^verbatim>\<open>Run\<close> returns, every job has its own result: slot \<open>i\<close> holds what the runner returned
  for job \<open>i\<close>, or, only when the context was done, the scheduling error that says it was
  cancelled. No slot is left unset.
\<close>

theorem Run_answers_every_job:
  assumes "ScheduleConfig_valid config" "sched_run config jobs runs n s" "sc_stats s \<noteq> None"
  shows "length (sh_results (sc_shared s)) = length jobs
    \<and> (\<forall>i<length jobs. (\<exists>r. sh_results (sc_shared s) ! i = Returned r \<and> runs (jobs ! i) r)
        \<or> sc_cancelled s \<and> sh_results (sc_shared s) ! i = NotRun (ScheduleError ''cancelled''))"
proof -
  let ?sh = "sc_shared s"
  have "jobs_inv jobs runs s" using sched_run_inv [OF assms(1,2)] by (simp add: sched_inv_def)
  note inv = this [unfolded jobs_inv_def Let_def]
  have exited: "list_all (\<lambda>u. u = Exited) (sc_workers s)" using inv assms(3) by blast
  have "sc_next s = length jobs" using inv assms(3) by blast
  have idle: "tally (pending i) (sc_workers s) = 0" for i
  proof -
    have "\<forall>u\<in>set (sc_workers s). pending i u = 0" using exited by (auto simp: list_all_iff)
    then show ?thesis by (metis less_irrefl not_gr_zero tally_pos_iff)
  qed
  have "(\<exists>r. sh_results ?sh ! i = Returned r \<and> runs (jobs ! i) r)
      \<or> sc_cancelled s \<and> sh_results ?sh ! i = NotRun (ScheduleError ''cancelled'')" if i: "i < length jobs" for i
  proof -
    have "sh_queue ?sh = []"
    proof (cases "sc_workers s")
      case Nil
      then show ?thesis using inv i by auto
    next
      case (Cons u us)
      then have "Exited \<in> set (sc_workers s)" using exited by simp
      then show ?thesis using inv by blast
    qed
    have "count_list (sh_queue ?sh) i + tally (pending i) (sc_workers s)
        = (if i < sc_next s \<and> sh_results ?sh ! i = Unset then 1 else 0)" using inv by blast
    with \<open>sh_queue ?sh = []\<close> idle [of i] \<open>sc_next s = length jobs\<close> i have "sh_results ?sh ! i \<noteq> Unset"
      by auto
    moreover have "result_ok runs (sc_cancelled s) (jobs ! i) (sh_results ?sh ! i)" using inv i by blast
    ultimately show ?thesis by (auto simp: result_ok_def split: job_result.splits)
  qed
  then show ?thesis using inv by blast
qed

section \<open>Progress\<close>

text \<open>
  A busy worker that is past its acquisitions is never blocked: what it gives back it holds.
\<close>

lemma unblocked:
  assumes "\<exists>r. runs (jobs ! i) r" "p \<noteq> AcquireEndpoint" "p \<noteq> AcquireTarget"
    and "past_endpoint p \<Longrightarrow> 0 < sh_endpointLimits s (endpoint_key (jobs ! i))"
    and "past_target p \<Longrightarrow> 0 < sh_targetLimits s (target_key (jobs ! i))"
  shows "\<exists>u' s'. worker_step config jobs runs cancelled (Busy p i) s u' s'"
proof (cases p)
  case Abandon
  then have "0 < sh_endpointLimits s (endpoint_key (jobs ! i))" using assms(4) by simp
  then show ?thesis using abandon [OF refl] Abandon by blast
next
  case ReleaseTarget
  then have "0 < sh_targetLimits s (target_key (jobs ! i))" using assms(5) by simp
  then show ?thesis using release_target [OF refl] ReleaseTarget by blast
next
  case ReleaseEndpoint
  then have "0 < sh_endpointLimits s (endpoint_key (jobs ! i))" using assms(4) by simp
  then show ?thesis using release_endpoint [OF refl] ReleaseEndpoint by blast
qed (use assms(1-3) in \<open>(blast intro: worker_step.intros)+\<close>)

lemma worker_can_step:
  assumes "u \<in> set (sc_workers s)"
    "\<exists>u' sh. worker_step config jobs runs (sc_cancelled s) u (sc_shared s) u' sh"
  shows "\<exists>s'. program_step config jobs runs s s'"
  using assms by (metis in_set_conv_nth program_step.worker)

text \<open>
  The two semaphores are always taken in the same order, so a worker waiting for a target waits
  for one that holds both, and a worker waiting for an endpoint waits for one that is past it.
\<close>

lemma busy_progress:
  assumes valid: "ScheduleConfig_valid config" and inv: "counts_inv config jobs s"
    and total: "\<And>job. \<exists>r. runs job r" and busy: "Busy p i \<in> set (sc_workers s)"
  shows "\<exists>s'. program_step config jobs runs s s'"
proof -
  note counts = inv [unfolded counts_inv_def Let_def]
  have held: "0 < tally (weight P J) (sc_workers s)" if "Busy q j \<in> set (sc_workers s)" "P q" "J j" for P J q j
    using that by (auto simp: tally_pos_iff intro: bexI [of _ "Busy q j"])
  have past: "\<exists>s'. program_step config jobs runs s s'" if "Busy q j \<in> set (sc_workers s)" "past_target q \<or> q = ReleaseEndpoint \<or> q = Abandon" for q j
  proof (rule worker_can_step [OF that(1)], rule unblocked)
    show "q \<noteq> AcquireEndpoint" "q \<noteq> AcquireTarget" using that(2) by auto
    show "0 < sh_endpointLimits (sc_shared s) (endpoint_key (jobs ! j))" if "past_endpoint q"
      using that held [OF \<open>Busy q j \<in> set (sc_workers s)\<close>, of past_endpoint "for_endpoint jobs (endpoint_key (jobs ! j))"] counts by simp
    show "0 < sh_targetLimits (sc_shared s) (target_key (jobs ! j))" if "past_target q"
      using that held [OF \<open>Busy q j \<in> set (sc_workers s)\<close>, of past_target "for_target jobs (target_key (jobs ! j))"] counts by simp
  qed (rule total)
  have holder: "\<exists>q j. Busy q j \<in> set (sc_workers s) \<and> P q \<and> J j" if "tally (weight P J) (sc_workers s) \<noteq> 0" for P J
  proof -
    obtain u where u: "u \<in> set (sc_workers s)" "0 < weight P J u"
      using \<open>tally (weight P J) (sc_workers s) \<noteq> 0\<close> tally_pos_iff [of "weight P J" "sc_workers s"] by auto
    obtain q j where "u = Busy q j" "P q" "J j" using u(2) by (cases u rule: worker.exhaust) (auto split: if_splits)
    with u(1) show ?thesis by blast
  qed
  have at_target: "\<exists>s'. program_step config jobs runs s s'" if waiting: "Busy AcquireTarget j \<in> set (sc_workers s)" for j
  proof (cases "int (sh_targetLimits (sc_shared s) (target_key (jobs ! j))) < sch_PerTarget config")
    case True
    show ?thesis by (rule worker_can_step [OF waiting]) (use acquire_target [OF refl True] in blast)
  next
    case False
    then have "tally (weight past_target (for_target jobs (target_key (jobs ! j)))) (sc_workers s) \<noteq> 0"
      using counts valid by (auto simp: ScheduleConfig_valid_def)
    then show ?thesis using holder past by blast
  qed
  have at_endpoint: "\<exists>s'. program_step config jobs runs s s'" if waiting: "Busy AcquireEndpoint j \<in> set (sc_workers s)" for j
  proof (cases "int (sh_endpointLimits (sc_shared s) (endpoint_key (jobs ! j))) < sch_PerEndpoint config")
    case True
    show ?thesis by (rule worker_can_step [OF waiting]) (use acquire_endpoint [OF refl True] in blast)
  next
    case False
    then have "tally (weight past_endpoint (for_endpoint jobs (endpoint_key (jobs ! j)))) (sc_workers s) \<noteq> 0"
      using counts valid by (auto simp: ScheduleConfig_valid_def)
    then obtain q h where "Busy q h \<in> set (sc_workers s)" "past_endpoint q" using holder by blast
    then show ?thesis using past at_target by (cases q) auto
  qed
  show ?thesis using past at_target at_endpoint busy by (cases p) auto
qed

lemma progress:
  assumes valid: "ScheduleConfig_valid config" and inv: "sched_inv config jobs runs s"
    and total: "\<And>job. \<exists>r. runs job r" and running: "sc_stats s = None"
  shows "\<exists>s'. program_step config jobs runs s s'"
proof (cases "\<exists>p i. Busy p i \<in> set (sc_workers s)")
  case True
  then show ?thesis using busy_progress [OF valid _ total] inv by (auto simp: sched_inv_def)
next
  case False
  let ?sh = "sc_shared s"
  have "jobs_inv jobs runs s" using inv by (simp add: sched_inv_def)
  note jobs = this [unfolded jobs_inv_def Let_def]
  have kinds: "u = Idle \<or> u = Exited" if "u \<in> set (sc_workers s)" for u using False that by (cases u) auto
  show ?thesis
  proof (cases "Idle \<in> set (sc_workers s) \<and> (sh_queue ?sh \<noteq> [] \<or> sh_closed ?sh)")
    case True
    then have "\<exists>u' sh. worker_step config jobs runs (sc_cancelled s) Idle ?sh u' sh"
      by (cases "sh_queue ?sh") (blast intro: worker_step.intros)+
    then show ?thesis using worker_can_step True by blast
  next
    case blocked: False
    show ?thesis
    proof (cases "sh_closed ?sh")
      case True
      then have "list_all (\<lambda>u. u = Exited) (sc_workers s)" using kinds blocked by (auto simp: list_all_iff)
      then show ?thesis using return_results [OF True _ running] by blast
    next
      case open_queue: False
      then have "sc_workers s \<noteq> []" "Exited \<notin> set (sc_workers s)" using jobs by blast+
      then have "Idle \<in> set (sc_workers s)" using kinds by (metis last_in_set)
      then have "sh_queue ?sh = []" using blocked by blast
      moreover have "0 < sch_Queue config" using valid by (simp add: ScheduleConfig_valid_def)
      ultimately show ?thesis
        using open_queue jobs enqueue [of s jobs config runs] close_queue [of s jobs config runs]
        by (cases "sc_next s < length jobs") auto
    qed
  qed
qed

section \<open>Termination\<close>

text \<open>The number of steps a worker, a queued job and a job still to be sent can take at most.\<close>

fun pc_rank :: "pc \<Rightarrow> nat" where
  "pc_rank AcquireEndpoint = 15"
| "pc_rank AcquireTarget = 14"
| "pc_rank AddRunning = 13"
| "pc_rank (PeakRunning _) = 12"
| "pc_rank AddEndpoint = 11"
| "pc_rank (AddTarget _) = 10"
| "pc_rank (PeakEndpoint _ _) = 9"
| "pc_rank (PeakTarget _) = 8"
| "pc_rank Executing = 7"
| "pc_rank SubTarget = 6"
| "pc_rank SubEndpoint = 5"
| "pc_rank SubRunning = 4"
| "pc_rank ReleaseTarget = 3"
| "pc_rank ReleaseEndpoint = 2"
| "pc_rank Abandon = 2"

fun rank :: "worker \<Rightarrow> nat" where
  "rank Exited = 0"
| "rank Idle = 1"
| "rank (Busy p i) = pc_rank p"

definition work_left :: "Job list \<Rightarrow> sched \<Rightarrow> nat" where
  "work_left jobs s = 16 * (length jobs - sc_next s) + 15 * length (sh_queue (sc_shared s)) + tally rank (sc_workers s)
     + (if sh_closed (sc_shared s) then 0 else 1) + (if sc_stats s = None then 1 else 0)
     + (if sc_cancelled s then 0 else 1)"

lemma worker_step_work:
  assumes "worker_step config jobs runs cancelled u s u' s'"
  shows "15 * length (sh_queue s') + rank u' < 15 * length (sh_queue s) + rank u"
  using assms by (cases rule: worker_step.cases) auto

lemma sched_step_work:
  assumes "sched_step config jobs runs s s'"
  shows "work_left jobs s' < work_left jobs s"
  using assms
proof (cases rule: sched_step.cases)
  case program
  then show ?thesis
  proof (cases rule: program_step.cases)
    case (worker w u sh)
    have "sh_closed sh = sh_closed (sc_shared s)" by (rule worker_step_keeps(1) [OF worker(3)])
    then show ?thesis
      using worker_step_work [OF worker(3)] tally_update [OF worker(2), of rank u]
      by (simp add: work_left_def worker(1))
  qed (auto simp: work_left_def)
qed (simp add: work_left_def)

lemma start_work:
  assumes "Run_start config jobs cancelled = Inr s"
  shows "work_left jobs s \<le> 17 * length jobs + 3"
proof -
  have "tally rank (replicate n Idle) = n" for n by (induction n) (simp_all add: tally_def)
  then show ?thesis
    using Run_start_Inr [OF assms] by (auto simp: work_left_def empty_shared_def tally_def)
qed

lemma sched_run_work:
  assumes "sched_run config jobs runs n s"
  shows "n + work_left jobs s \<le> 17 * length jobs + 3"
  using assms
proof (induction rule: sched_run.induct)
  case (started cancelled s)
  then show ?case using start_work by simp
next
  case (stepped n s s')
  then show ?case using sched_step_work [of config jobs runs s s'] by simp
qed

lemma eventually_returns:
  assumes "ScheduleConfig_valid config" "\<And>job. \<exists>r. runs job r" "sched_run config jobs runs n s"
  shows "\<exists>k s'. sched_run config jobs runs (n + k) s' \<and> sc_stats s' \<noteq> None \<and> (sc_cancelled s' \<longrightarrow> sc_cancelled s)"
  using assms(3)
proof (induction "work_left jobs s" arbitrary: n s rule: less_induct)
  case less
  show ?case
  proof (cases "sc_stats s")
    case None
    from progress [OF assms(1) sched_run_inv [OF assms(1) less.prems] assms(2) None]
    obtain s' where s': "program_step config jobs runs s s'" by blast
    then have step: "sched_step config jobs runs s s'" by (rule program)
    have same: "sc_cancelled s' = sc_cancelled s" using s' by (cases rule: program_step.cases) simp_all
    from less.hyps [OF sched_step_work [OF step] stepped [OF less.prems step]]
    obtain k t where "sched_run config jobs runs (Suc n + k) t" "sc_stats t \<noteq> None" "sc_cancelled t \<longrightarrow> sc_cancelled s'"
      by blast
    then show ?thesis using same by (intro exI [of _ "Suc k"] exI [of _ t]) simp
  next
    case (Some stats)
    then show ?thesis using less.prems by (intro exI [of _ 0] exI [of _ s]) simp
  qed
qed

text \<open>
  C28. \<^verbatim>\<open>Run\<close> always returns, provided the runner does. However the goroutines are scheduled and
  whenever the context is cancelled, an execution has at most seventeen steps for each job and
  three more; as long as it has not returned the program itself can take a step, so it never
  deadlocks on its semaphores; and from every reachable state it can be continued, without
  help from a cancellation, until it has returned.
\<close>

theorem Run_terminates:
  assumes "ScheduleConfig_valid config" "\<And>job. \<exists>r. runs job r" "sched_run config jobs runs n s"
  shows "n \<le> 17 * length jobs + 3
    \<and> (sc_stats s = None \<longrightarrow> (\<exists>s'. program_step config jobs runs s s'))
    \<and> (\<exists>k s'. sched_run config jobs runs (n + k) s' \<and> sc_stats s' \<noteq> None \<and> (sc_cancelled s' \<longrightarrow> sc_cancelled s))"
proof (intro conjI impI)
  show "n \<le> 17 * length jobs + 3" using sched_run_work [OF assms(3)] by simp
  show "\<exists>s'. program_step config jobs runs s s'" if "sc_stats s = None"
    by (rule progress [OF assms(1) sched_run_inv [OF assms(1,3)] assms(2) that])
  show "\<exists>k s'. sched_run config jobs runs (n + k) s' \<and> sc_stats s' \<noteq> None \<and> (sc_cancelled s' \<longrightarrow> sc_cancelled s)"
    by (rule eventually_returns [OF assms])
qed

section \<open>A concrete schedule\<close>

definition example_job :: Job where
  "example_job = \<lparr>job_Record = sample_record ''s1'' [''one''], job_Target = example_target\<rparr>"

definition example_runs :: "Job \<Rightarrow> run_outcome \<Rightarrow> bool" where
  "example_runs job r \<longleftrightarrow> r = Inl (execution_failure ''engine_start'')"

lemma example_total: "\<exists>r. example_runs job r"
  by (simp add: example_runs_def)

lemma DefaultScheduleConfig_valid: "ScheduleConfig_valid DefaultScheduleConfig"
  by (simp add: ScheduleConfig_valid_def DefaultScheduleConfig_def MaxSchedulerConcurrency_def
      MaxSchedulerQueue_def MaxSchedulerJobs_def)

lemma example_started:
  "\<exists>s. Run_start DefaultScheduleConfig [example_job, example_job] False = Inr s \<and> sc_stats s = None \<and> \<not> sc_cancelled s"
proof -
  have "Configuration_valid sample_configuration"
    using built_record_wf [OF sample_record_built(1)] by (simp add: Record_wf_def Configuration_wf_def sample_record_def)
  then have "endpoint_key example_job \<noteq> ''<invalid-endpoint-id>''"
    by (simp add: endpoint_key_def example_job_def Record_ID_def sample_record_def Configuration_ID_def
        Configuration_Identity_valid version_prefix_def ID_String_def)
  moreover have "target_key example_job \<noteq> []" by (simp add: target_key_def example_job_def example_target_def)
  ultimately show ?thesis
    by (simp add: Run_start_def DefaultScheduleConfig_def MaxSchedulerJobs_def)
qed

text \<open>Ten steps bring the first worker of a run into the runner.\<close>

lemma first_worker_step:
  assumes "sched_run config jobs runs n s" "sc_workers s = u # us"
    "worker_step config jobs runs (sc_cancelled s) u (sc_shared s) u' sh"
  shows "sched_run config jobs runs (Suc n) (s\<lparr>sc_workers := u' # us, sc_shared := sh\<rparr>)"
proof -
  have "program_step config jobs runs s (s\<lparr>sc_workers := (sc_workers s)[0 := u'], sc_shared := sh\<rparr>)"
    using assms(2,3) by (intro worker) simp_all
  then show ?thesis using assms(1,2) by (auto intro: stepped program)
qed

lemma reaches_runner:
  assumes "sched_run config jobs runs n s" "sc_workers s = Busy AddRunning i # us"
  shows "\<exists>s'. sched_run config jobs runs (n + 6) s' \<and> sc_workers s' = Busy Executing i # us"
proof -
  have step: "\<exists>s'. sched_run config jobs runs (Suc m) s' \<and> sc_workers s' = u' # us"
    if run: "sched_run config jobs runs m t" "sc_workers t = u # us"
      and one: "\<exists>sh. worker_step config jobs runs (sc_cancelled t) u (sc_shared t) u' sh" for m t u u'
  proof -
    obtain sh where "worker_step config jobs runs (sc_cancelled t) u (sc_shared t) u' sh" using one by blast
    from first_worker_step [OF run this] show ?thesis by (intro exI conjI, assumption) simp
  qed
  obtain s1 c1 where s1: "sched_run config jobs runs (Suc n) s1" "sc_workers s1 = Busy (PeakRunning c1) i # us"
    using step [OF assms] add_running by blast
  obtain s2 where s2: "sched_run config jobs runs (Suc (Suc n)) s2" "sc_workers s2 = Busy AddEndpoint i # us"
    using step [OF s1] peak_running by blast
  obtain s3 c3 where s3: "sched_run config jobs runs (Suc (Suc (Suc n))) s3" "sc_workers s3 = Busy (AddTarget c3) i # us"
    using step [OF s2] add_endpoint [OF refl refl] by blast
  obtain s4 c4 where s4: "sched_run config jobs runs (Suc (Suc (Suc (Suc n)))) s4" "sc_workers s4 = Busy (PeakEndpoint c3 c4) i # us"
    using step [OF s3] add_target [OF refl refl] by blast
  obtain s5 where s5: "sched_run config jobs runs (Suc (Suc (Suc (Suc (Suc n))))) s5" "sc_workers s5 = Busy (PeakTarget c4) i # us"
    using step [OF s4] peak_endpoint [OF refl] by blast
  obtain s6 where "sched_run config jobs runs (Suc (Suc (Suc (Suc (Suc (Suc n)))))) s6" "sc_workers s6 = Busy Executing i # us"
    using step [OF s5] peak_target [OF refl] by blast
  moreover have "n + 6 = Suc (Suc (Suc (Suc (Suc (Suc n)))))" by simp
  ultimately show ?thesis by metis
qed

lemma example_executing:
  "\<exists>s. sched_run DefaultScheduleConfig [example_job, example_job] example_runs 10 s \<and> Busy Executing 0 \<in> set (sc_workers s)"
proof -
  let ?run = "sched_run DefaultScheduleConfig [example_job, example_job] example_runs"
  obtain s where s: "Run_start DefaultScheduleConfig [example_job, example_job] False = Inr s"
    using example_started by blast
  have start: "sc_workers s = [Idle, Idle]" "sc_shared s = empty_shared 2" "sc_next s = 0"
    using Run_start_Inr [OF s] by (simp_all add: DefaultScheduleConfig_def numeral_2_eq_2)
  let ?s1 = "s\<lparr>sc_shared := (sc_shared s)\<lparr>sh_queue := [0]\<rparr>, sc_next := 1\<rparr>"
  have "program_step DefaultScheduleConfig [example_job, example_job] example_runs s
      (s\<lparr>sc_shared := (sc_shared s)\<lparr>sh_queue := sh_queue (sc_shared s) @ [sc_next s]\<rparr>, sc_next := sc_next s + 1\<rparr>)"
    by (rule enqueue) (simp_all add: start empty_shared_def DefaultScheduleConfig_def)
  then have "program_step DefaultScheduleConfig [example_job, example_job] example_runs s ?s1"
    by (simp add: start empty_shared_def)
  then have s1: "?run (Suc 0) ?s1" by (intro stepped [OF started [OF s]] program)
  let ?sh2 = "(sc_shared ?s1)\<lparr>sh_queue := []\<rparr>"
  let ?s2 = "?s1\<lparr>sc_workers := [Busy AcquireEndpoint 0, Idle], sc_shared := ?sh2\<rparr>"
  have "worker_step DefaultScheduleConfig [example_job, example_job] example_runs c Idle (sc_shared ?s1) (Busy AcquireEndpoint 0) ?sh2" for c
    by (rule take_job) simp
  then have s2: "?run (Suc (Suc 0)) ?s2"
    by (intro first_worker_step [OF s1]) (simp_all add: start)
  let ?sh3 = "?sh2\<lparr>sh_endpointLimits := (sh_endpointLimits ?sh2)(endpoint_key example_job := sh_endpointLimits ?sh2 (endpoint_key example_job) + 1)\<rparr>"
  have "worker_step DefaultScheduleConfig [example_job, example_job] example_runs c (Busy AcquireEndpoint 0) ?sh2 (Busy AcquireTarget 0) ?sh3" for c
    by (rule acquire_endpoint) (simp_all add: start empty_shared_def DefaultScheduleConfig_def)
  then have s3: "?run (Suc (Suc (Suc 0))) (?s2\<lparr>sc_workers := [Busy AcquireTarget 0, Idle], sc_shared := ?sh3\<rparr>)"
    by (intro first_worker_step [OF s2]) simp_all
  let ?sh4 = "?sh3\<lparr>sh_targetLimits := (sh_targetLimits ?sh3)(target_key example_job := sh_targetLimits ?sh3 (target_key example_job) + 1)\<rparr>"
  have "worker_step DefaultScheduleConfig [example_job, example_job] example_runs c (Busy AcquireTarget 0) ?sh3 (Busy AddRunning 0) ?sh4" for c
    by (rule acquire_target) (simp_all add: start empty_shared_def DefaultScheduleConfig_def)
  then have s4: "?run (Suc (Suc (Suc (Suc 0)))) (?s2\<lparr>sc_workers := [Busy AddRunning 0, Idle], sc_shared := ?sh4\<rparr>)"
    using first_worker_step [OF s3, of "Busy AcquireTarget 0" "[Idle]" "Busy AddRunning 0" ?sh4] by simp
  from reaches_runner [OF s4, of 0 "[Idle]"] show ?thesis by (auto simp: eval_nat_numeral)
qed

theorem Run_respects_limits_witness:
  "\<exists>s. sched_run DefaultScheduleConfig [example_job, example_job] example_runs 10 s
     \<and> 1 \<le> executing (\<lambda>_. True) s \<and> int (executing (\<lambda>_. True) s) \<le> 4
     \<and> int (executing (\<lambda>i. endpoint_key ([example_job, example_job] ! i) = endpoint_key example_job) s) \<le> 1"
proof -
  obtain s where run: "sched_run DefaultScheduleConfig [example_job, example_job] example_runs 10 s"
    and busy: "Busy Executing 0 \<in> set (sc_workers s)" using example_executing by blast
  have "filter (\<lambda>u. \<exists>i. u = Busy Executing i \<and> True) (sc_workers s) \<noteq> []" using busy by (auto simp: filter_empty_conv)
  then have "1 \<le> executing (\<lambda>_. True) s" by (simp add: executing_def Suc_leI)
  with Run_respects_limits [OF DefaultScheduleConfig_valid run] run show ?thesis
    by (auto simp: DefaultScheduleConfig_def)
qed

theorem Run_answers_every_job_witness:
  "\<exists>n s. sched_run DefaultScheduleConfig [example_job, example_job] example_runs n s
     \<and> sh_results (sc_shared s) ! 1 = Returned (Inl (execution_failure ''engine_start''))"
proof -
  obtain s where s: "Run_start DefaultScheduleConfig [example_job, example_job] False = Inr s" "\<not> sc_cancelled s"
    using example_started by blast
  from eventually_returns [where runs = example_runs, OF DefaultScheduleConfig_valid example_total started [OF s(1)]] s(2)
  obtain k t where t: "sched_run DefaultScheduleConfig [example_job, example_job] example_runs (0 + k) t"
    "sc_stats t \<noteq> None" "\<not> sc_cancelled t" by blast
  from Run_answers_every_job [OF DefaultScheduleConfig_valid t(1,2)] t(3)
  have "\<forall>i<2. \<exists>r. sh_results (sc_shared t) ! i = Returned r \<and> example_runs ([example_job, example_job] ! i) r"
    by (simp add: numeral_2_eq_2)
  then have "\<exists>r. sh_results (sc_shared t) ! 1 = Returned r \<and> example_runs ([example_job, example_job] ! 1) r"
    by (meson one_less_numeral_iff semiring_norm(76))
  then show ?thesis using t(1) unfolding example_runs_def by blast
qed

theorem Run_terminates_witness:
  "\<exists>n s. sched_run DefaultScheduleConfig [example_job, example_job] example_runs n s \<and> sc_stats s \<noteq> None \<and> n \<le> 37"
proof -
  obtain s where s: "Run_start DefaultScheduleConfig [example_job, example_job] False = Inr s"
    using example_started by blast
  from Run_terminates [where runs = example_runs, OF DefaultScheduleConfig_valid example_total started [OF s]]
  obtain k t where t: "sched_run DefaultScheduleConfig [example_job, example_job] example_runs (0 + k) t"
    "sc_stats t \<noteq> None" by blast
  from Run_terminates [where runs = example_runs, OF DefaultScheduleConfig_valid example_total t(1)] t show ?thesis by auto
qed

end
