(* ===== verification/Json.thy ===== *)
theory Json
  imports NetIP
begin

text \<open>
  What the program uses of \<^verbatim>\<open>encoding/json\<close>: the compact encoding of values with the escapes of
  \<^verbatim>\<open>json.Marshal\<close>, and the parser behind \<^verbatim>\<open>json.Unmarshal\<close>. Documents are trees; how a struct
  reads its fields from an object is the business of the theory that models the struct. The
  round-trip lemma covers ASCII strings and integers, which is all the stored records contain.
\<close>

section \<open>Values\<close>

datatype json =
    JNull
  | JBool bool
  | JNumber string \<comment> \<open>the literal\<close>
  | JString string
  | JArray "json list"
  | JObject "(string \<times> json) list"

section \<open>UTF-8 sequences\<close>

text \<open>The size of the well-formed sequence at the head of the text, zero if there is none.\<close>

fun utf8_size :: "string \<Rightarrow> nat" where
  "utf8_size [] = 0"
| "utf8_size (a # s) =
     (if code a < 128 then 1
      else if in_range 194 223 a \<and> 1 \<le> length s \<and> continuation (s ! 0) then 2
      else if in_range 224 239 a \<and> 2 \<le> length s
        \<and> (if code a = 224 then in_range 160 191 (s ! 0)
           else if code a = 237 then in_range 128 159 (s ! 0) else continuation (s ! 0))
        \<and> continuation (s ! 1) then 3
      else if in_range 240 244 a \<and> 3 \<le> length s
        \<and> (if code a = 240 then in_range 144 191 (s ! 0)
           else if code a = 244 then in_range 128 143 (s ! 0) else continuation (s ! 0))
        \<and> continuation (s ! 1) \<and> continuation (s ! 2) then 4
      else 0)"

definition utf8_encode :: "nat \<Rightarrow> string" where
  "utf8_encode r =
     (if r < 128 then [byte r]
      else if r < 2048 then map byte [192 + r div 64, 128 + r mod 64]
      else if r < 65536 then map byte [224 + r div 4096, 128 + r div 64 mod 64, 128 + r mod 64]
      else map byte [240 + r div 262144, 128 + r div 4096 mod 64, 128 + r div 64 mod 64, 128 + r mod 64])"

definition replacement_rune :: nat where "replacement_rune = 65533"

section \<open>Encoding\<close>

abbreviation quote :: char where "quote \<equiv> CHR 0x22"
abbreviation backslash :: char where "backslash \<equiv> CHR 0x5C"

definition unicode_escape :: "nat \<Rightarrow> string" where
  "unicode_escape r = [backslash, CHR ''u'', hex_digit (r div 4096 mod 16), hex_digit (r div 256 mod 16),
     hex_digit (r div 16 mod 16), hex_digit (r mod 16)]"

definition escape_char :: "char \<Rightarrow> string" where
  "escape_char c =
     (if c = quote \<or> c = backslash then [backslash, c]
      else if code c = 8 then [backslash, CHR ''b'']
      else if code c = 12 then [backslash, CHR ''f'']
      else if code c = 10 then [backslash, CHR ''n'']
      else if code c = 13 then [backslash, CHR ''r'']
      else if code c = 9 then [backslash, CHR ''t'']
      else if code c < 32 \<or> c = CHR ''<'' \<or> c = CHR ''>'' \<or> c = CHR ''&'' then unicode_escape (code c)
      else [c])"

text \<open>
  The body of an encoded string. The first argument counts the bytes of the current sequence
  still to be copied; the separators U+2028 and U+2029 are escaped, malformed bytes become the
  escaped replacement character.
\<close>

fun json_escape :: "nat \<Rightarrow> string \<Rightarrow> string" where
  "json_escape k [] = []"
| "json_escape (Suc k) (c # s) = c # json_escape k s"
| "json_escape 0 (c # s) =
     (if code c < 128 then escape_char c @ json_escape 0 s
      else if utf8_size (c # s) = 0 then unicode_escape replacement_rune @ json_escape 0 s
      else if map code (take 3 (c # s)) = [226, 128, 168] then unicode_escape 8232 @ json_escape 0 (drop 2 s)
      else if map code (take 3 (c # s)) = [226, 128, 169] then unicode_escape 8233 @ json_escape 0 (drop 2 s)
      else c # json_escape (utf8_size (c # s) - 1) s)"

definition json_quote :: "string \<Rightarrow> string" where
  "json_quote s = [quote] @ json_escape 0 s @ [quote]"

fun json_print :: "json \<Rightarrow> string"
  and print_elements :: "json list \<Rightarrow> string"
  and print_members :: "(string \<times> json) list \<Rightarrow> string" where
  "json_print JNull = ''null''"
| "json_print (JBool b) = (if b then ''true'' else ''false'')"
| "json_print (JNumber n) = n"
| "json_print (JString s) = json_quote s"
| "json_print (JArray xs) = CHR ''['' # print_elements xs"
| "json_print (JObject ms) = CHR ''{'' # print_members ms"
| "print_elements [] = '']''"
| "print_elements [x] = json_print x @ '']''"
| "print_elements (x # y # xs) = json_print x @ CHR '','' # print_elements (y # xs)"
| "print_members [] = ''}''"
| "print_members [(k, v)] = json_quote k @ CHR '':'' # json_print v @ ''}''"
| "print_members ((k, v) # m # ms) = json_quote k @ CHR '':'' # json_print v @ CHR '','' # print_members (m # ms)"

section \<open>Parsing\<close>

definition json_space :: "char \<Rightarrow> bool" where
  "json_space c \<longleftrightarrow> code c = 32 \<or> code c = 9 \<or> code c = 10 \<or> code c = 13"

definition skip_space :: "string \<Rightarrow> string" where
  "skip_space s = dropWhile json_space s"

fun hex4 :: "string \<Rightarrow> nat option" where
  "hex4 (a # b # c # d # _) =
     (case (hex_value a, hex_value b, hex_value c, hex_value d) of
        (Some w, Some x, Some y, Some z) \<Rightarrow> Some (4096 * w + 256 * x + 16 * y + z)
      | _ \<Rightarrow> None)"
| "hex4 _ = None"

definition surrogate :: "nat \<Rightarrow> bool" where
  "surrogate r \<longleftrightarrow> 55296 \<le> r \<and> r < 57344"

text \<open>The second half of a surrogate pair, when the text goes on with one.\<close>

definition low_surrogate :: "nat \<Rightarrow> string \<Rightarrow> nat option" where
  "low_surrogate r s =
     (if r < 56320 \<and> take 2 s = [backslash, CHR ''u''] then
        (case hex4 (drop 2 s) of
           Some l \<Rightarrow> if 56320 \<le> l \<and> l < 57344 then Some (65536 + (r - 55296) * 1024 + (l - 56320)) else None
         | None \<Rightarrow> None)
      else None)"

definition simple_escape :: "char \<Rightarrow> char option" where
  "simple_escape e =
     (if e = quote \<or> e = backslash \<or> e = CHR ''/'' then Some e
      else if e = CHR ''b'' then Some (byte 8)
      else if e = CHR ''f'' then Some (byte 12)
      else if e = CHR ''n'' then Some (byte 10)
      else if e = CHR ''r'' then Some (byte 13)
      else if e = CHR ''t'' then Some (byte 9)
      else None)"

definition prepend :: "string \<Rightarrow> (string \<times> string) option \<Rightarrow> (string \<times> string) option" where
  "prepend t = map_option (\<lambda>(s, rest). (t @ s, rest))"

text \<open>
  One step through the text of a string: the bytes that a character or an escape stands for, and
  the number of bytes it takes after its first.
\<close>

definition escape_chunk :: "string \<Rightarrow> (string \<times> nat) option" where
  "escape_chunk s =
     (case s of
        [] \<Rightarrow> None
      | e # r \<Rightarrow>
          if e = CHR ''u'' then
            (case hex4 r of
               None \<Rightarrow> None
             | Some u \<Rightarrow>
                 if surrogate u then
                   (case low_surrogate u (drop 4 r) of
                      Some full \<Rightarrow> Some (utf8_encode full, 11)
                    | None \<Rightarrow> Some (utf8_encode replacement_rune, 5))
                 else Some (utf8_encode u, 5))
          else map_option (\<lambda>d. ([d], 1)) (simple_escape e))"

definition string_chunk :: "char \<Rightarrow> string \<Rightarrow> (string \<times> nat) option" where
  "string_chunk c s =
     (if c = backslash then escape_chunk s
      else if code c < 32 then None
      else if code c < 128 then Some ([c], 0)
      else if utf8_size (c # s) = 0 then Some (utf8_encode replacement_rune, 0)
      else Some (c # take (utf8_size (c # s) - 1) s, utf8_size (c # s) - 1))"

text \<open>The text after an opening quote: the decoded string and what follows the closing one.\<close>

fun parse_string :: "string \<Rightarrow> (string \<times> string) option" where
  "parse_string [] = None"
| "parse_string (c # s) =
     (if c = quote then Some ([], s)
      else case string_chunk c s of
        None \<Rightarrow> None
      | Some (t, k) \<Rightarrow> prepend t (parse_string (drop k s)))"

text \<open>The number literals of the grammar: sign, integer part, fraction, exponent.\<close>

definition split_digits :: "string \<Rightarrow> string \<times> string" where
  "split_digits s = (takeWhile is_digit s, dropWhile is_digit s)"

definition parse_fraction :: "string \<Rightarrow> (string \<times> string) option" where
  "parse_fraction s =
     (case s of
        c # r \<Rightarrow>
          if c = CHR ''.'' then
            (let (ds, rest) = split_digits r in if ds = [] then None else Some (c # ds, rest))
          else Some ([], s)
      | [] \<Rightarrow> Some ([], s))"

definition parse_exponent :: "string \<Rightarrow> (string \<times> string) option" where
  "parse_exponent s =
     (case s of
        c # r \<Rightarrow>
          if c = CHR ''e'' \<or> c = CHR ''E'' then
            (let sign = (case r of d # _ \<Rightarrow> if d = CHR ''+'' \<or> d = CHR ''-'' then [d] else [] | [] \<Rightarrow> []);
                 (ds, rest) = split_digits (drop (length sign) r)
             in if ds = [] then None else Some (c # sign @ ds, rest))
          else Some ([], s)
      | [] \<Rightarrow> Some ([], s))"

definition parse_number :: "string \<Rightarrow> (string \<times> string) option" where
  "parse_number s =
     (let sign = (case s of c # _ \<Rightarrow> if c = CHR ''-'' then ''-'' else [] | [] \<Rightarrow> []);
          t = drop (length sign) s;
          ds = takeWhile is_digit t;
          whole = (if ds \<noteq> [] \<and> hd ds = CHR ''0'' then ''0'' else ds)
      in if whole = [] then None
         else case parse_fraction (drop (length whole) t) of
            None \<Rightarrow> None
          | Some (fraction, r) \<Rightarrow>
              (case parse_exponent r of
                 None \<Rightarrow> None
               | Some (exponent, rest) \<Rightarrow> Some (sign @ whole @ fraction @ exponent, rest)))"

text \<open>The first argument bounds the number of nested calls.\<close>

fun parse_value :: "nat \<Rightarrow> string \<Rightarrow> (json \<times> string) option"
  and parse_elements :: "nat \<Rightarrow> string \<Rightarrow> (json list \<times> string) option"
  and parse_members :: "nat \<Rightarrow> string \<Rightarrow> ((string \<times> json) list \<times> string) option" where
  "parse_value 0 s = None"
| "parse_value (Suc f) s =
     (case skip_space s of
        [] \<Rightarrow> None
      | c # r \<Rightarrow>
          if c = CHR ''{'' then
            (case skip_space r of
               [] \<Rightarrow> None
             | d # t \<Rightarrow>
                 if d = CHR ''}'' then Some (JObject [], t)
                 else map_option (\<lambda>(ms, rest). (JObject ms, rest)) (parse_members f (d # t)))
          else if c = CHR ''['' then
            (case skip_space r of
               [] \<Rightarrow> None
             | d # t \<Rightarrow>
                 if d = CHR '']'' then Some (JArray [], t)
                 else map_option (\<lambda>(xs, rest). (JArray xs, rest)) (parse_elements f (d # t)))
          else if c = quote then map_option (\<lambda>(v, rest). (JString v, rest)) (parse_string r)
          else if has_prefix (c # r) ''null'' then Some (JNull, drop 4 (c # r))
          else if has_prefix (c # r) ''true'' then Some (JBool True, drop 4 (c # r))
          else if has_prefix (c # r) ''false'' then Some (JBool False, drop 5 (c # r))
          else map_option (\<lambda>(n, rest). (JNumber n, rest)) (parse_number (c # r)))"
| "parse_elements 0 s = None"
| "parse_elements (Suc f) s =
     (case parse_value f s of
        None \<Rightarrow> None
      | Some (x, r) \<Rightarrow>
          (case skip_space r of
             [] \<Rightarrow> None
           | c # t \<Rightarrow>
               if c = CHR '']'' then Some ([x], t)
               else if c = CHR '','' then map_option (\<lambda>(xs, rest). (x # xs, rest)) (parse_elements f t)
               else None))"
| "parse_members 0 s = None"
| "parse_members (Suc f) s =
     (case skip_space s of
        [] \<Rightarrow> None
      | q # r \<Rightarrow>
          if q \<noteq> quote then None
          else case parse_string r of
            None \<Rightarrow> None
          | Some (k, r2) \<Rightarrow>
              (case skip_space r2 of
                 [] \<Rightarrow> None
               | d # r3 \<Rightarrow>
                   if d \<noteq> CHR '':'' then None
                   else case parse_value f r3 of
                     None \<Rightarrow> None
                   | Some (v, r4) \<Rightarrow>
                       (case skip_space r4 of
                          [] \<Rightarrow> None
                        | c # t \<Rightarrow>
                            if c = CHR ''}'' then Some ([(k, v)], t)
                            else if c = CHR '','' then
                              map_option (\<lambda>(ms, rest). ((k, v) # ms, rest)) (parse_members f t)
                            else None)))"

text \<open>The nesting depth, which the library limits to ten thousand.\<close>

fun json_depth :: "json \<Rightarrow> nat"
  and elements_depth :: "json list \<Rightarrow> nat"
  and members_depth :: "(string \<times> json) list \<Rightarrow> nat" where
  "json_depth (JArray xs) = Suc (elements_depth xs)"
| "json_depth (JObject ms) = Suc (members_depth ms)"
| "json_depth _ = 0"
| "elements_depth [] = 0"
| "elements_depth (x # xs) = max (json_depth x) (elements_depth xs)"
| "members_depth [] = 0"
| "members_depth ((k, v) # ms) = max (json_depth v) (members_depth ms)"

definition json_parse :: "string \<Rightarrow> json option" where
  "json_parse s =
     (case parse_value (2 * length s + 2) s of
        None \<Rightarrow> None
      | Some (v, rest) \<Rightarrow> if skip_space rest = [] \<and> json_depth v \<le> 10000 then Some v else None)"

text \<open>Object keys are matched to struct fields up to the simple case folding of Unicode.\<close>

fun json_fold :: "string \<Rightarrow> string" where
  "json_fold [] = []"
| "json_fold (a # s) =
     (if code a = 226 \<and> map code (take 2 s) = [132, 170] then CHR ''K'' # json_fold (drop 2 s)
      else if code a = 197 \<and> map code (take 1 s) = [191] then CHR ''S'' # json_fold (drop 1 s)
      else to_upper_char a # json_fold s)"

definition field_is :: "string \<Rightarrow> string \<Rightarrow> bool" where
  "field_is name key \<longleftrightarrow> json_fold key = json_fold name"

section \<open>Byte slices\<close>

definition base64_alphabet :: string where
  "base64_alphabet = ''ABCDEFGHIJKLMNOPQRSTUVWXYZabcdefghijklmnopqrstuvwxyz0123456789+/''"

text \<open>\<^verbatim>\<open>base64.StdEncoding\<close>: groups of four digits, the last one filled up with equals signs.\<close>

definition base64_encode :: "bytes \<Rightarrow> string" where
  "base64_encode bs =
     (let digits = radix_encode 6 base64_alphabet bs
      in digits @ replicate ((4 - length digits mod 4) mod 4) CHR ''='')"

definition base64_decode :: "string \<Rightarrow> bytes option" where
  "base64_decode s =
     (let t = strip_newlines s;
          digits = takeWhile (\<lambda>c. c \<noteq> CHR ''='') t;
          padding = drop (length digits) t
      in if length t mod 4 \<noteq> 0 \<or> length padding > 2 \<or> \<not> list_all (\<lambda>c. c = CHR ''='') padding then None
         else case radix_bits 6 base64_alphabet digits of
                None \<Rightarrow> None
              | Some bits \<Rightarrow> Some (whole_bytes (length bits) bits))"

section \<open>Reading struct fields\<close>

text \<open>
  How the fields of a struct read a value: null leaves them as they are, a number must be an
  integer of the field's width, bytes are base64 text or an array of numbers (where a null keeps
  the byte at its place, as the slice is reused). An object is read member by member.
\<close>

definition json_uint8 :: "8 word \<Rightarrow> json \<Rightarrow> 8 word option" where
  "json_uint8 old v =
     (case v of
        JNull \<Rightarrow> Some old
      | JNumber n \<Rightarrow> (case parse_digits n of Some k \<Rightarrow> if k < 256 then Some (of_nat k) else None | None \<Rightarrow> None)
      | _ \<Rightarrow> None)"

definition json_string :: "string \<Rightarrow> json \<Rightarrow> string option" where
  "json_string old v = (case v of JNull \<Rightarrow> Some old | JString s \<Rightarrow> Some s | _ \<Rightarrow> None)"

fun json_byte_array :: "bytes \<Rightarrow> json list \<Rightarrow> bytes option" where
  "json_byte_array old [] = Some []"
| "json_byte_array old (x # xs) =
     (let before = (case old of [] \<Rightarrow> 0 | c # _ \<Rightarrow> of_nat (code c))
      in case (json_uint8 before x, json_byte_array (drop 1 old) xs) of
           (Some w, Some bs) \<Rightarrow> Some (byte (unat w) # bs)
         | _ \<Rightarrow> None)"

definition json_bytes :: "bytes \<Rightarrow> json \<Rightarrow> bytes option" where
  "json_bytes old v =
     (case v of
        JNull \<Rightarrow> Some []
      | JString s \<Rightarrow> base64_decode s
      | JArray xs \<Rightarrow> json_byte_array old xs
      | _ \<Rightarrow> None)"

definition json_int64 :: "int \<Rightarrow> json \<Rightarrow> int option" where
  "json_int64 old v = (case v of JNull \<Rightarrow> Some old | JNumber n \<Rightarrow> atoi n | _ \<Rightarrow> None)"

fun json_elements :: "(json \<Rightarrow> 'a option) \<Rightarrow> json list \<Rightarrow> 'a list option" where
  "json_elements f [] = Some []"
| "json_elements f (x # xs) =
     (case (f x, json_elements f xs) of (Some y, Some ys) \<Rightarrow> Some (y # ys) | _ \<Rightarrow> None)"

definition json_list :: "(json \<Rightarrow> 'a option) \<Rightarrow> json \<Rightarrow> 'a list option" where
  "json_list f v = (case v of JNull \<Rightarrow> Some [] | JArray xs \<Rightarrow> json_elements f xs | _ \<Rightarrow> None)"

fun json_members :: "('r \<Rightarrow> string \<times> json \<Rightarrow> 'r option) \<Rightarrow> 'r \<Rightarrow> (string \<times> json) list \<Rightarrow> 'r option" where
  "json_members step r [] = Some r"
| "json_members step r (m # ms) = (case step r m of None \<Rightarrow> None | Some r' \<Rightarrow> json_members step r' ms)"

definition json_struct :: "('r \<Rightarrow> string \<times> json \<Rightarrow> 'r option) \<Rightarrow> 'r \<Rightarrow> json \<Rightarrow> 'r option" where
  "json_struct step old v = (case v of JNull \<Rightarrow> Some old | JObject ms \<Rightarrow> json_members step old ms | _ \<Rightarrow> None)"

section \<open>Round trip\<close>

definition ascii :: "string \<Rightarrow> bool" where
  "ascii s \<longleftrightarrow> list_all (\<lambda>c. code c < 128) s"

lemma ascii_simps [simp]:
  "ascii []" "ascii (c # s) \<longleftrightarrow> code c < 128 \<and> ascii s" "ascii (s @ t) \<longleftrightarrow> ascii s \<and> ascii t"
  by (simp_all add: ascii_def)

lemma radix16_sum:
  "a = 16 * b + x \<Longrightarrow> b = 16 * c + y \<Longrightarrow> c = 16 * d + z \<Longrightarrow> 4096 * d + 256 * z + 16 * y + x = (a :: nat)"
  by simp

lemma hex4_digits:
  assumes "r < 65536"
  shows "hex4 (hex_digit (r div 4096 mod 16) # hex_digit (r div 256 mod 16) # hex_digit (r div 16 mod 16)
    # hex_digit (r mod 16) # s) = Some r"
proof -
  have "r div 256 = r div 16 div 16" "r div 4096 mod 16 = r div 16 div 16 div 16"
    using assms by (simp_all add: div_mult2_eq [symmetric])
  then have "4096 * (r div 4096 mod 16) + 256 * (r div 256 mod 16) + 16 * (r div 16 mod 16) + r mod 16 = r"
    by (simp only:) (rule radix16_sum [OF mult_div_mod_eq [symmetric] mult_div_mod_eq [symmetric]
        mult_div_mod_eq [symmetric]])
  then show ?thesis
    by (simp only: hex4.simps hex_value_hex_digit mod_less_divisor zero_less_numeral prod.case option.case)
qed

lemma parse_string_escape_char:
  assumes "code c < 128"
  shows "parse_string (escape_char c @ t) = prepend [c] (parse_string t)"
proof -
  have eqs: "code c = 8 \<Longrightarrow> c = byte 8" "code c = 12 \<Longrightarrow> c = byte 12" "code c = 10 \<Longrightarrow> c = byte 10"
    "code c = 13 \<Longrightarrow> c = byte 13" "code c = 9 \<Longrightarrow> c = byte 9"
    by (metis byte_code)+
  have lit: "hex4 (hex_digit (code c div 4096 mod 16) # hex_digit (code c div 256 mod 16)
    # hex_digit (code c div 16 mod 16) # hex_digit (code c mod 16) # t) = Some (code c)"
    using hex4_digits [of "code c" t] assms by simp
  show ?thesis
    using assms eqs lit
    by (auto simp: escape_char_def unicode_escape_def string_chunk_def escape_chunk_def simple_escape_def
        surrogate_def utf8_encode_def split: option.splits)
qed

lemma parse_string_escape:
  "ascii s \<Longrightarrow> parse_string (json_escape 0 s @ quote # rest) = Some (s, rest)"
  by (induction s) (simp_all add: parse_string_escape_char prepend_def)

lemma dec_digits_zero: "dec_digits 0 = ''0''"
  by code_simp

lemma dec_digits_no_leading_zero: "0 < n \<Longrightarrow> hd (dec_digits n) \<noteq> CHR ''0''"
proof (induction n rule: dec_digits.induct)
  case (1 n)
  show ?case
  proof (cases "n < 10")
    case True
    have "code (digit_char n) = 48 + n" using True by simp
    moreover have "code CHR ''0'' = 48" by (simp add: code_def)
    ultimately have "digit_char n \<noteq> CHR ''0''" using 1(2) by fastforce
    then show ?thesis using True by (simp add: dec_digits.simps)
  next
    case False
    then have "hd (dec_digits (n div 10)) \<noteq> CHR ''0''" using 1 by simp
    then show ?thesis using False by (subst dec_digits.simps) simp
  qed
qed

text \<open>What may follow a value inside a document.\<close>

definition delimited :: "string \<Rightarrow> bool" where
  "delimited s \<longleftrightarrow> s = [] \<or> hd s \<in> {CHR '','', CHR '']'', CHR ''}''}"

lemma delimited_simps [simp]:
  "delimited []" "delimited (CHR '','' # s)" "delimited (CHR '']'' # s)" "delimited (CHR ''}'' # s)"
  by (simp_all add: delimited_def)

lemma delimited_rest:
  assumes "delimited s"
  shows "parse_fraction s = Some ([], s)" "parse_exponent s = Some ([], s)" "takeWhile is_digit s = []"
  using assms
  by (cases s; auto simp: delimited_def parse_fraction_def parse_exponent_def is_digit_def code_def)+

lemma parse_digits_number:
  assumes "delimited rest"
  shows "parse_number (dec_digits n @ rest) = Some (dec_digits n, rest)"
    and "parse_number (CHR ''-'' # dec_digits n @ rest) = Some (CHR ''-'' # dec_digits n, rest)"
proof -
  obtain d ds where d: "dec_digits n = d # ds" by (cases "dec_digits n") auto
  have minus: "d \<noteq> CHR ''-''" using hd_dec_digits_not_sign [of n] d by simp
  have taken: "takeWhile is_digit (dec_digits n @ rest) = dec_digits n"
    using dec_digits_is_digit [of n] delimited_rest(3) [OF assms]
    by (subst takeWhile_append2) (simp_all add: list_all_iff)
  have whole: "d = CHR ''0'' \<Longrightarrow> ds = []"
    using dec_digits_no_leading_zero [of n] dec_digits_zero d by (cases "n = 0") auto
  show "parse_number (dec_digits n @ rest) = Some (dec_digits n, rest)"
    unfolding parse_number_def using taken whole d minus delimited_rest [OF assms]
    by (auto simp: Let_def)
  show "parse_number (CHR ''-'' # dec_digits n @ rest) = Some (CHR ''-'' # dec_digits n, rest)"
    unfolding parse_number_def using taken whole d delimited_rest [OF assms]
    by (auto simp: Let_def)
qed

lemma parse_number_itoa: "delimited rest \<Longrightarrow> parse_number (itoa i @ rest) = Some (itoa i, rest)"
  by (simp add: itoa_def parse_digits_number)

text \<open>The documents the round trip covers, and how many nested calls parsing their text takes.\<close>

fun json_plain :: "json \<Rightarrow> bool"
  and elements_plain :: "json list \<Rightarrow> bool"
  and members_plain :: "(string \<times> json) list \<Rightarrow> bool" where
  "json_plain JNull = True"
| "json_plain (JBool b) = True"
| "json_plain (JNumber n) = (case atoi n of Some i \<Rightarrow> n = itoa i | None \<Rightarrow> False)"
| "json_plain (JString s) = ascii s"
| "json_plain (JArray xs) = elements_plain xs"
| "json_plain (JObject ms) = members_plain ms"
| "elements_plain [] = True"
| "elements_plain (x # xs) = (json_plain x \<and> elements_plain xs)"
| "members_plain [] = True"
| "members_plain ((k, v) # ms) = (ascii k \<and> json_plain v \<and> members_plain ms)"

fun json_fuel :: "json \<Rightarrow> nat"
  and elements_fuel :: "json list \<Rightarrow> nat"
  and members_fuel :: "(string \<times> json) list \<Rightarrow> nat" where
  "json_fuel (JArray xs) = Suc (elements_fuel xs)"
| "json_fuel (JObject ms) = Suc (members_fuel ms)"
| "json_fuel _ = 1"
| "elements_fuel [] = 0"
| "elements_fuel (x # xs) = Suc (max (json_fuel x) (elements_fuel xs))"
| "members_fuel [] = 0"
| "members_fuel ((k, v) # ms) = Suc (max (json_fuel v) (members_fuel ms))"

lemma first_char_number:
  assumes "json_plain (JNumber n)"
  shows "\<exists>c r. n = c # r \<and> (is_digit c \<or> c = CHR ''-'')"
proof -
  obtain i where "n = itoa i" using assms by (auto split: option.splits)
  moreover have "\<exists>c r. dec_digits m = c # r \<and> is_digit c" for m
    using dec_digits_is_digit [of m] by (cases "dec_digits m") auto
  ultimately show ?thesis by (cases "i < 0") (simp add: itoa_def, metis itoa_def)
qed

lemma digit_first:
  assumes "is_digit c \<or> c = CHR ''-''"
  shows "\<not> json_space c" "c \<notin> {CHR ''{'', CHR ''['', CHR '']'', CHR ''}'', quote, CHR ''n'', CHR ''t'', CHR ''f''}"
  using assms by (auto simp: is_digit_def json_space_def code_def)

lemma json_space_simps [simp]:
  "\<not> json_space quote" "\<not> json_space CHR ''{''" "\<not> json_space CHR ''['' " "\<not> json_space CHR '']''"
  "\<not> json_space CHR ''}''" "\<not> json_space CHR '',''" "\<not> json_space CHR '':''" "\<not> json_space CHR ''n''"
  "\<not> json_space CHR ''t''" "\<not> json_space CHR ''f''"
  by (simp_all add: json_space_def code_def)

lemma skip_space_simps [simp]:
  "skip_space [] = []" "\<not> json_space c \<Longrightarrow> skip_space (c # s) = c # s"
  by (simp_all add: skip_space_def)

lemma first_char:
  assumes "json_plain v"
  shows "\<exists>c r. json_print v = c # r \<and> \<not> json_space c \<and> c \<noteq> CHR '']''"
proof (cases v)
  case (JNumber n)
  then show ?thesis using first_char_number [of n] digit_first assms by fastforce
qed (simp_all add: json_quote_def)

lemma first_char_elements:
  assumes "elements_plain (x # xs)"
  shows "\<exists>c r. print_elements (x # xs) = c # r \<and> \<not> json_space c \<and> c \<noteq> CHR '']''"
proof -
  obtain c r where "json_print x = c # r" "\<not> json_space c" "c \<noteq> CHR '']''"
    using first_char [of x] assms by auto
  then show ?thesis by (cases xs) auto
qed

lemma first_char_members:
  "\<exists>r. print_members (m # ms) = quote # r"
  by (cases m; cases ms) (simp_all add: json_quote_def)

lemma parse_print_number:
  assumes "json_plain (JNumber n)" "delimited rest" "0 < f"
  shows "parse_value f (n @ rest) = Some (JNumber n, rest)"
proof -
  obtain g where f: "f = Suc g" using assms(3) by (cases f) auto
  obtain c r where n: "n = c # r" "is_digit c \<or> c = CHR ''-''" using first_char_number [OF assms(1)] by blast
  have "parse_number (n @ rest) = Some (n, rest)"
    using assms(1) parse_number_itoa [OF assms(2)] by (auto split: option.splits)
  then show ?thesis
    using n digit_first [OF n(2)] f by (simp add: has_prefix_def)
qed

lemma parse_print:
  "json_plain v \<Longrightarrow> json_fuel v \<le> f \<Longrightarrow> delimited rest \<Longrightarrow> parse_value f (json_print v @ rest) = Some (v, rest)"
  "elements_plain xs \<Longrightarrow> xs \<noteq> [] \<Longrightarrow> elements_fuel xs \<le> f \<Longrightarrow>
     parse_elements f (print_elements xs @ rest) = Some (xs, rest)"
  "members_plain ms \<Longrightarrow> ms \<noteq> [] \<Longrightarrow> members_fuel ms \<le> f \<Longrightarrow>
     parse_members f (print_members ms @ rest) = Some (ms, rest)"
proof (induction v and xs and ms arbitrary: f rest and f rest and f rest rule: json_print_print_elements_print_members.induct)
  case (3 n)
  then show ?case using parse_print_number by simp
next
  case (5 xs)
  obtain g where f: "f = Suc g" using 5(3) by (cases f) auto
  show ?case
  proof (cases xs)
    case Nil
    then show ?thesis using f by simp
  next
    case (Cons x xs')
    then obtain c r where "print_elements xs = c # r" "\<not> json_space c" "c \<noteq> CHR '']''"
      using first_char_elements [of x xs'] 5(2) by auto
    then show ?thesis using 5(1) [of g rest] 5(2,3) Cons f by simp
  qed
next
  case (6 ms)
  obtain g where f: "f = Suc g" using 6(3) by (cases f) auto
  show ?case
  proof (cases ms)
    case Nil
    then show ?thesis using f by simp
  next
    case (Cons m ms')
    then obtain r where "print_members ms = quote # r" using first_char_members by blast
    then show ?thesis using 6(1) [of g rest] 6(2,3) Cons f by simp
  qed
next
  case (8 x)
  then obtain g where "f = Suc g" by (cases f) auto
  then show ?case using 8 by simp
next
  case (9 x y xs)
  then obtain g where "f = Suc g" by (cases f) auto
  then show ?case using 9 by simp
next
  case (11 k v)
  then obtain g where "f = Suc g" by (cases f) auto
  then show ?case using 11 by (simp add: json_quote_def parse_string_escape)
next
  case (12 k v m ms)
  then obtain g where "f = Suc g" by (cases f) auto
  then show ?case using 12 by (simp add: json_quote_def parse_string_escape)
next
  case 1
  then obtain g where "f = Suc g" by (cases f) auto
  then show ?case by (simp add: has_prefix_def)
next
  case (2 b)
  then obtain g where "f = Suc g" by (cases f) auto
  then show ?case by (simp add: has_prefix_def)
next
  case (4 s)
  then obtain g where "f = Suc g" by (cases f) auto
  then show ?case using 4 by (simp add: json_quote_def parse_string_escape)
qed simp_all

lemma json_fuel_length:
  "json_plain v \<Longrightarrow> json_fuel v + 1 \<le> 2 * length (json_print v)"
  "elements_plain xs \<Longrightarrow> elements_fuel xs \<le> 2 * length (print_elements xs)"
  "members_plain ms \<Longrightarrow> members_fuel ms \<le> 2 * length (print_members ms)"
proof (induction v and xs and ms rule: json_print_print_elements_print_members.induct)
  case (3 n)
  then show ?case using first_char_number [of n] by auto
next
  case (9 x y xs)
  then show ?case by simp linarith
qed (simp_all add: json_quote_def)

theorem json_parse_print:
  assumes "json_plain v" "json_depth v \<le> 10000"
  shows "json_parse (json_print v) = Some v"
proof -
  have "parse_value (2 * length (json_print v) + 2) (json_print v) = Some (v, [])"
    using parse_print(1) [OF assms(1), of "2 * length (json_print v) + 2" "[]"] json_fuel_length(1) [OF assms(1)]
    by simp
  then show ?thesis using assms(2) by (simp add: json_parse_def)
qed

section \<open>Byte slices round trip\<close>

lemma base64_alphabet_facts:
  "distinct base64_alphabet" "length base64_alphabet = 2 ^ 6"
  "list_all (\<lambda>c. 32 \<le> code c \<and> code c < 128 \<and> c \<noteq> CHR ''='') base64_alphabet"
  by (simp_all add: base64_alphabet_def code_def)

lemma base64_padding:
  assumes "6 * d = 8 * n + p" "p < (6 :: nat)"
  shows "(4 - d mod 4) mod 4 \<le> 2"
proof -
  have "d mod 4 \<noteq> 1"
  proof
    assume "d mod 4 = 1"
    then have "6 * d = 24 * (d div 4) + 6" using mult_div_mod_eq [of 4 d] by simp
    then have "(24 * (d div 4) + 6) mod 8 = (8 * n + p) mod 8" using assms(1) by simp
    then have "(6 :: nat) mod 8 = p mod 8"
      using mod_mult_self2 [of 6 8 "3 * (d div 4)"] mod_mult_self2 [of p 8 n]
      by (simp add: add.commute mult.assoc [symmetric] del: mod_mult_self1 mod_mult_self2 mod_mult_self3 mod_mult_self4)
    then show False using assms(2) by simp
  qed
  moreover have "d mod 4 < 4" by simp
  ultimately have "d mod 4 \<in> {0, 2, 3}" by auto
  then show ?thesis by auto
qed

lemma base64_chars:
  "c \<in> set (radix_encode 6 base64_alphabet bs) \<Longrightarrow> 32 \<le> code c \<and> code c < 128 \<and> c \<noteq> CHR ''=''"
  using radix_encode_alphabet [OF base64_alphabet_facts(2), of c bs] base64_alphabet_facts(3)
  by (auto simp: list_all_iff)

lemma ascii_base64_encode [simp]: "ascii (base64_encode bs)"
  by (auto simp: base64_encode_def ascii_def Let_def list_all_iff code_def dest: base64_chars)

theorem base64_decode_encode: "base64_decode (base64_encode bs) = Some bs"
proof -
  let ?d = "radix_encode 6 base64_alphabet bs"
  let ?p = "replicate ((4 - length ?d mod 4) mod 4) CHR ''=''"
  obtain pad where pad: "pad < 6" "radix_bits 6 base64_alphabet ?d = Some (byte_bits bs @ replicate pad False)"
    "6 * length ?d = 8 * length bs + pad"
    using radix_bits_encode [OF base64_alphabet_facts(1,2), of bs] by auto
  have strip: "strip_newlines (?d @ ?p) = ?d @ ?p"
    by (rule strip_newlines_id) (auto simp: list_all_iff code_def dest: base64_chars)
  have digits: "takeWhile (\<lambda>c. c \<noteq> CHR ''='') (?d @ ?p) = ?d"
    using base64_chars by (subst takeWhile_append2) (auto simp: takeWhile_replicate)
  have len: "length (?d @ ?p) mod 4 = 0" by (simp add: mod_simps) presburger
  have "whole_bytes (length (byte_bits bs @ replicate pad False)) (byte_bits bs @ replicate pad False) = bs"
    using pad(1) by (intro whole_bytes_byte_bits) simp_all
  then show ?thesis
    using strip digits len pad(2) base64_padding [OF pad(3,1)]
    by (simp add: base64_decode_def base64_encode_def Let_def list_all_iff)
qed

end
