(* ===== verification/Artifact_Receipt.thy ===== *)
theory Artifact_Receipt
  imports Artifact Json
begin

text \<open>
  The receipts of \<^verbatim>\<open>internal/artifact/artifact.go\<close>: the JSON record that binds a published file to
  a profile, a generation and a validator, and how it is read back. The lemmas show that a receipt
  survives its round trip through storage and matches no other content.
\<close>

section \<open>The record\<close>

record receiptData =
  rd_Engine :: Engine
  rd_Version :: string
  rd_RendererSchema :: string
  rd_MediaType :: string
  rd_Generation :: bytes
  rd_ValidatorID :: string

definition receiptData_zero :: receiptData where
  "receiptData_zero = \<lparr>rd_Engine = 0, rd_Version = [], rd_RendererSchema = [], rd_MediaType = [],
     rd_Generation = [], rd_ValidatorID = []\<rparr>"

definition marshal_receiptData :: "receiptData \<Rightarrow> bytes" where
  "marshal_receiptData d = json_print (JObject
     [(''engine'', JNumber (itoa (uint (rd_Engine d)))),
      (''version'', JString (rd_Version d)),
      (''renderer_schema'', JString (rd_RendererSchema d)),
      (''media_type'', JString (rd_MediaType d)),
      (''generation'', JString (base64_encode (rd_Generation d))),
      (''validator_id'', JString (rd_ValidatorID d))])"

text \<open>Each member of the object sets the field its key names; other keys are ignored.\<close>

definition unmarshal_member :: "receiptData \<Rightarrow> string \<times> json \<Rightarrow> receiptData option" where
  "unmarshal_member d m =
     (case m of (k, v) \<Rightarrow>
        if field_is ''engine'' k then map_option (\<lambda>x. d\<lparr>rd_Engine := x\<rparr>) (json_uint8 (rd_Engine d) v)
        else if field_is ''version'' k then map_option (\<lambda>x. d\<lparr>rd_Version := x\<rparr>) (json_string (rd_Version d) v)
        else if field_is ''renderer_schema'' k then
          map_option (\<lambda>x. d\<lparr>rd_RendererSchema := x\<rparr>) (json_string (rd_RendererSchema d) v)
        else if field_is ''media_type'' k then map_option (\<lambda>x. d\<lparr>rd_MediaType := x\<rparr>) (json_string (rd_MediaType d) v)
        else if field_is ''generation'' k then map_option (\<lambda>x. d\<lparr>rd_Generation := x\<rparr>) (json_bytes (rd_Generation d) v)
        else if field_is ''validator_id'' k then
          map_option (\<lambda>x. d\<lparr>rd_ValidatorID := x\<rparr>) (json_string (rd_ValidatorID d) v)
        else Some d)"

definition unmarshal_receiptData :: "bytes \<Rightarrow> receiptData option" where
  "unmarshal_receiptData encoded =
     (case json_parse encoded of None \<Rightarrow> None | Some v \<Rightarrow> json_struct unmarshal_member receiptData_zero v)"

section \<open>Receipts\<close>

record Receipt =
  rcp_encoded :: bytes

definition rd_profile :: "receiptData \<Rightarrow> Profile" where
  "rd_profile d = \<lparr>profile_Engine = rd_Engine d, profile_Version = rd_Version d,
     profile_RendererSchema = rd_RendererSchema d, profile_MediaType = rd_MediaType d\<rparr>"

definition RestoreReceipt :: "bytes \<Rightarrow> string + Receipt" where
  "RestoreReceipt encoded =
     (case unmarshal_receiptData encoded of
        None \<Rightarrow> Inl ''invalid protected artifact receipt''
      | Some d \<Rightarrow>
          if length (rd_Generation d) \<noteq> 32 \<or> \<not> safeValidatorID (rd_ValidatorID d)
          then Inl ''invalid protected artifact receipt''
          else case NewCandidate (rd_profile d) [byte 1] of
             Inl _ \<Rightarrow> Inl ''invalid protected artifact receipt''
           | Inr _ \<Rightarrow> Inr \<lparr>rcp_encoded = marshal_receiptData d\<rparr>)"

definition Receipt_RevealForPersistence :: "Receipt \<Rightarrow> string + bytes" where
  "Receipt_RevealForPersistence receipt =
     (if length (rcp_encoded receipt) = 0 then Inl ''invalid protected artifact receipt''
      else Inr (rcp_encoded receipt))"

definition Receipt_Equal :: "Receipt \<Rightarrow> Receipt \<Rightarrow> bool" where
  "Receipt_Equal receipt other \<longleftrightarrow>
     length (rcp_encoded receipt) > 0 \<and> length (rcp_encoded receipt) = length (rcp_encoded other)
     \<and> rcp_encoded receipt = rcp_encoded other"

definition Validated_data :: "Validated \<Rightarrow> receiptData" where
  "Validated_data a =
     (let p = art_profile (val_candidate a)
      in \<lparr>rd_Engine = profile_Engine p, rd_Version = profile_Version p, rd_RendererSchema = profile_RendererSchema p,
          rd_MediaType = profile_MediaType p, rd_Generation = val_generation a, rd_ValidatorID = val_evidence a\<rparr>)"

definition ProtectedReceipt :: "Validated \<Rightarrow> string + bytes" where
  "ProtectedReceipt a =
     (if length (art_content (val_candidate a)) = 0 \<or> \<not> safeValidatorID (val_evidence a)
      then Inl ''invalid validated artifact''
      else Inr (marshal_receiptData (Validated_data a)))"

definition Validated_Receipt :: "Validated \<Rightarrow> string + Receipt" where
  "Validated_Receipt a = and_then (ProtectedReceipt a) RestoreReceipt"

text \<open>The profile of the receipt when it matches the content; \<^term>\<open>None\<close> is the result false.\<close>

definition MatchesProtectedReceipt :: "bytes \<Rightarrow> bytes \<Rightarrow> Profile option" where
  "MatchesProtectedReceipt content encoded =
     (case unmarshal_receiptData encoded of
        None \<Rightarrow> None
      | Some d \<Rightarrow>
          if length (rd_Generation d) \<noteq> 32 \<or> \<not> safeValidatorID (rd_ValidatorID d) then None
          else case NewCandidate (rd_profile d) content of
             Inl _ \<Rightarrow> None
           | Inr candidate \<Rightarrow>
               if generation candidate = rd_Generation d then Some (rd_profile d) else None)"

section \<open>Round trip\<close>

definition Profile_ascii :: "Profile \<Rightarrow> bool" where
  "Profile_ascii p \<longleftrightarrow> ascii (profile_Version p) \<and> ascii (profile_RendererSchema p) \<and> ascii (profile_MediaType p)"

lemma ascii_validator: "safeValidatorID s \<Longrightarrow> ascii s"
  by (auto simp: safeValidatorID_def ascii_def list_all_iff safe_name_char_def is_lower_def is_upper_def
      is_digit_def code_def split: if_splits)

lemma receipt_fields:
  "field_is ''engine'' ''engine''" "field_is ''version'' ''version''" "\<not> field_is ''engine'' ''version''"
  "field_is ''renderer_schema'' ''renderer_schema''" "\<not> field_is ''engine'' ''renderer_schema''"
  "\<not> field_is ''version'' ''renderer_schema''"
  "field_is ''media_type'' ''media_type''" "\<not> field_is ''engine'' ''media_type''" "\<not> field_is ''version'' ''media_type''"
  "\<not> field_is ''renderer_schema'' ''media_type''"
  "field_is ''generation'' ''generation''" "\<not> field_is ''engine'' ''generation''" "\<not> field_is ''version'' ''generation''"
  "\<not> field_is ''renderer_schema'' ''generation''" "\<not> field_is ''media_type'' ''generation''"
  "field_is ''validator_id'' ''validator_id''" "\<not> field_is ''engine'' ''validator_id''" "\<not> field_is ''version'' ''validator_id''"
  "\<not> field_is ''renderer_schema'' ''validator_id''" "\<not> field_is ''media_type'' ''validator_id''"
  "\<not> field_is ''generation'' ''validator_id''"
  by code_simp+

lemma receipt_names_ascii:
  "ascii ''engine''" "ascii ''version''" "ascii ''renderer_schema''" "ascii ''media_type''" "ascii ''generation''"
  "ascii ''validator_id''"
  by code_simp+

lemma itoa_u8: "parse_digits (itoa (uint (w :: u8))) = Some (unat w)"
proof -
  have "itoa (int (unat w)) = dec_digits (unat w)" unfolding itoa_def by (simp only: nat_int of_nat_less_0_iff if_False)
  then show ?thesis by simp
qed

lemma plain_u8: "json_plain (JNumber (itoa (uint (w :: u8))))"
proof -
  have "in_int64 (int n)" if "n < 256" for n
    using that by (simp add: in_int64_def min_int64_def max_int64_def)
  from this [OF unat_u8] have "in_int64 (uint w)" by simp
  then show ?thesis by (simp add: atoi_itoa)
qed

lemma unmarshal_marshal:
  assumes "ascii (rd_Version d)" "ascii (rd_RendererSchema d)" "ascii (rd_MediaType d)" "ascii (rd_ValidatorID d)"
  shows "unmarshal_receiptData (marshal_receiptData d) = Some d"
proof -
  have "json_parse (marshal_receiptData d) = Some (JObject
     [(''engine'', JNumber (itoa (uint (rd_Engine d)))),
      (''version'', JString (rd_Version d)),
      (''renderer_schema'', JString (rd_RendererSchema d)),
      (''media_type'', JString (rd_MediaType d)),
      (''generation'', JString (base64_encode (rd_Generation d))),
      (''validator_id'', JString (rd_ValidatorID d))])"
    unfolding marshal_receiptData_def
    using plain_u8 [of "rd_Engine d"] assms
    by (intro json_parse_print) (simp_all add: receipt_names_ascii del: ascii_simps)
  then show ?thesis
    by (simp add: unmarshal_receiptData_def unmarshal_member_def receipt_fields json_uint8_def itoa_u8
        json_string_def json_bytes_def json_struct_def base64_decode_encode receiptData_zero_def unat_u8)
qed

text \<open>Validated artifacts as the pipeline produces them, with a profile of ASCII text.\<close>

definition Validated_wf :: "Validated \<Rightarrow> bool" where
  "Validated_wf v \<longleftrightarrow>
     NewCandidate (art_profile (val_candidate v)) (art_content (val_candidate v)) = Inr (val_candidate v)
     \<and> val_generation v = generation (val_candidate v) \<and> safeValidatorID (val_evidence v)
     \<and> Profile_ascii (art_profile (val_candidate v))"

lemma Validated_wf_Validate:
  assumes "NewCandidate profile content = Inr c" "Validate c (Some check) = Inr v" "Profile_ascii profile"
  shows "Validated_wf v"
  using assms by (auto simp: Validated_wf_def Validate_def NewCandidate_def and_then_Inr_iff split: if_splits)

abbreviation validated_receipt :: "Validated \<Rightarrow> bytes" where
  "validated_receipt v \<equiv> marshal_receiptData (Validated_data v)"

lemma unmarshal_validated:
  assumes "Validated_wf v"
  shows "unmarshal_receiptData (validated_receipt v) = Some (Validated_data v)"
  using assms ascii_validator [of "val_evidence v"]
  by (intro unmarshal_marshal) (simp_all add: Validated_wf_def Validated_data_def Profile_ascii_def Let_def)

lemma rd_profile_validated [simp]: "rd_profile (Validated_data v) = art_profile (val_candidate v)"
  by (simp add: rd_profile_def Validated_data_def Let_def)

lemma ProtectedReceipt_wf: "Validated_wf v \<Longrightarrow> ProtectedReceipt v = Inr (validated_receipt v)"
  by (auto simp: Validated_wf_def ProtectedReceipt_def NewCandidate_def split: if_splits)

lemma NewCandidate_Inr_iff:
  "NewCandidate p c = Inr a \<longleftrightarrow> Engine_String (profile_Engine p) \<noteq> ''unknown'' \<and> profile_Version p \<noteq> []
     \<and> profile_RendererSchema p \<noteq> [] \<and> profile_MediaType p \<noteq> [] \<and> c \<noteq> [] \<and> a = \<lparr>art_profile = p, art_content = c\<rparr>"
  by (auto simp: NewCandidate_def)

lemma NewCandidate_content:
  "NewCandidate p c = Inr a \<Longrightarrow> d \<noteq> [] \<Longrightarrow> NewCandidate p d = Inr \<lparr>art_profile = p, art_content = d\<rparr>"
  by (simp add: NewCandidate_Inr_iff)

lemma RestoreReceipt_wf:
  assumes "Validated_wf v"
  shows "RestoreReceipt (validated_receipt v) = Inr \<lparr>rcp_encoded = validated_receipt v\<rparr>"
proof -
  have "NewCandidate (art_profile (val_candidate v)) [byte 1] =
      Inr \<lparr>art_profile = art_profile (val_candidate v), art_content = [byte 1]\<rparr>"
    using assms by (auto simp: Validated_wf_def intro: NewCandidate_content)
  then show ?thesis
    using assms by (simp add: RestoreReceipt_def unmarshal_validated)
      (simp add: Validated_wf_def Validated_data_def generation_def Let_def)
qed

lemma MatchesProtectedReceipt_wf:
  assumes "Validated_wf v"
  shows "MatchesProtectedReceipt content (validated_receipt v) =
    (if content \<noteq> [] \<and> generation \<lparr>art_profile = art_profile (val_candidate v), art_content = content\<rparr> = generation (val_candidate v)
     then Some (art_profile (val_candidate v)) else None)"
proof (cases "content = []")
  case True
  then show ?thesis by (simp add: MatchesProtectedReceipt_def unmarshal_validated [OF assms] NewCandidate_def)
next
  case False
  have "NewCandidate (art_profile (val_candidate v)) content =
      Inr \<lparr>art_profile = art_profile (val_candidate v), art_content = content\<rparr>"
    using assms False by (auto simp: Validated_wf_def intro: NewCandidate_content)
  then show ?thesis
    using assms False by (simp add: MatchesProtectedReceipt_def unmarshal_validated)
      (simp add: Validated_wf_def Validated_data_def generation_def Let_def)
qed

lemma MatchesProtectedReceipt_own:
  assumes "Validated_wf v"
  shows "MatchesProtectedReceipt (art_content (val_candidate v)) (validated_receipt v) = Some (art_profile (val_candidate v))"
  using assms MatchesProtectedReceipt_wf [OF assms]
  by (cases "val_candidate v") (auto simp: Validated_wf_def NewCandidate_Inr_iff)

text \<open>
  C36. A receipt survives storage and binds one artifact: for an artifact that a checker accepted,
  restoring the stored receipt gives back exactly the stored bytes, and the receipt matches a file
  if and only if, short of a SHA-256 collision, the file is the validated content; the profile
  reported for it is the validated one. The profile is ASCII and short enough for its length
  prefix, as those of the program are.
\<close>

theorem receipt_binds_content:
  assumes "NewCandidate profile content = Inr c" "Validate c (Some check) = Inr v"
    and "Profile_ascii profile" "Profile_short profile"
    and "\<not> sha256_collision (generation_input \<lparr>art_profile = profile, art_content = found\<rparr>) (generation_input c)"
  shows "\<exists>e. ProtectedReceipt v = Inr e \<and> Validated_Receipt v = Inr \<lparr>rcp_encoded = e\<rparr>
    \<and> RestoreReceipt e = Inr \<lparr>rcp_encoded = e\<rparr>
    \<and> MatchesProtectedReceipt found e = (if found = content then Some profile else None)"
proof -
  have wf: "Validated_wf v" by (rule Validated_wf_Validate [OF assms(1-3)])
  have v: "val_candidate v = c" and c: "c = \<lparr>art_profile = profile, art_content = content\<rparr>" "content \<noteq> []"
    using assms(1,2) by (auto simp: Validate_def and_then_Inr_iff NewCandidate_Inr_iff split: if_splits)
  have "generation \<lparr>art_profile = profile, art_content = found\<rparr> = generation c \<longleftrightarrow> found = content"
    using generation_input_inj [of "\<lparr>art_profile = profile, art_content = found\<rparr>" c] assms(4,5) c
    by (auto simp: generation_def sha256_collision_def)
  then have "MatchesProtectedReceipt found (validated_receipt v) = (if found = content then Some profile else None)"
    using MatchesProtectedReceipt_wf [OF wf, of found] v c by auto
  then show ?thesis
    using ProtectedReceipt_wf [OF wf] RestoreReceipt_wf [OF wf] by (simp add: Validated_Receipt_def)
qed

lemma example_profile_ok: "Profile_ascii Mihomo11931" "Profile_short Mihomo11931"
  by (simp_all add: Profile_ascii_def Profile_short_def short_def Mihomo11931_def code_def)

lemma example_candidate_ok:
  "NewCandidate Mihomo11931 ''proxies: []'' = Inr \<lparr>art_profile = Mihomo11931, art_content = ''proxies: []''\<rparr>"
  by (simp add: NewCandidate_def Engine_String_def EngineMihomo_def Mihomo11931_def)

theorem receipt_binds_content_witness:
  "\<exists>v e. Validate \<lparr>art_profile = Mihomo11931, art_content = ''proxies: []''\<rparr> (Some (\<lambda>_. Inr ''mihomo/1.19.31'')) = Inr v
     \<and> ProtectedReceipt v = Inr e \<and> RestoreReceipt e = Inr \<lparr>rcp_encoded = e\<rparr>
     \<and> MatchesProtectedReceipt ''proxies: []'' e = Some Mihomo11931"
proof -
  let ?c = "\<lparr>art_profile = Mihomo11931, art_content = ''proxies: []''\<rparr>"
  have "safeValidatorID ''mihomo/1.19.31''" by code_simp
  then obtain v where v: "Validate ?c (Some (\<lambda>_. Inr ''mihomo/1.19.31'')) = Inr v"
    by (auto simp: Validate_def and_then_def)
  have "\<not> sha256_collision (generation_input ?c) (generation_input ?c)" by (simp add: sha256_collision_def)
  from receipt_binds_content [OF example_candidate_ok v example_profile_ok this] v show ?thesis by auto
qed

end
