(* ===== verification/Publish_File.thy ===== *)
theory Publish_File
  imports Artifact_Receipt Runtime "HOL-Library.AList"
begin

text \<open>
  \<^verbatim>\<open>internal/publish/file.go\<close>: the crash-safe publication of a validated artifact as a file with its
  receipt. The operating system is a disk whose calls may succeed, fail or be the last thing the
  process does; every operation is the sequence of calls the code makes. Synchronising a file or
  the directory has no effect on it: a process may die, the machine may not lose what was
  written. The lemmas show that after a single failure or death at any call the next recovery
  finds either the old artifact with its receipt or the new one with its own, never a mixture.
\<close>

section \<open>The directory\<close>

text \<open>
  The target and the three paths derived from it by a suffix, and the temporary files, whose
  names carry a kind and a number that \<^verbatim>\<open>os.CreateTemp\<close> finds unused. Other files of the directory
  are never touched.
\<close>

datatype path = PTarget | PReceipt | PPrevious | PJournal | PTemp string nat

record inode =
  ino_regular :: bool \<comment> \<open>neither a directory nor a symbolic link nor a device\<close>
  ino_private :: bool \<comment> \<open>no permission for group and others\<close>
  ino_content :: bytes

datatype fault = Fine | Fails | Crash

text \<open>The plan says how the following calls go; when it is used up they all succeed.\<close>

record disk =
  files :: "(path \<times> inode) list"
  dir_directory :: bool
  dir_private :: bool
  fault_plan :: "fault list"

definition look :: "disk \<Rightarrow> path \<Rightarrow> inode option" where
  "look d p = map_of (files d) p"

text \<open>A program returns a value, or \<^term>\<open>None\<close> when the process died.\<close>

type_synonym 'a io = "disk \<Rightarrow> 'a option \<times> disk"

definition io_return :: "'a \<Rightarrow> 'a io" where
  "io_return a d = (Some a, d)"

definition io_bind :: "'a io \<Rightarrow> ('a \<Rightarrow> 'b io) \<Rightarrow> 'b io" where
  "io_bind m f d = (case m d of (Some a, d') \<Rightarrow> f a d' | (None, d') \<Rightarrow> (None, d'))"

datatype io_error = ENotExist | EFault | EUnsafePath | ETooLarge

definition syscall :: "(disk \<Rightarrow> (io_error + 'a) \<times> disk) \<Rightarrow> (io_error + 'a) io" where
  "syscall operation d =
     (case fault_plan d of
        [] \<Rightarrow> (Some (fst (operation d)), snd (operation d))
      | Fine # rest \<Rightarrow> (let d' = d\<lparr>fault_plan := rest\<rparr> in (Some (fst (operation d')), snd (operation d')))
      | Fails # rest \<Rightarrow> (Some (Inl EFault), d\<lparr>fault_plan := rest\<rparr>)
      | Crash # rest \<Rightarrow> (None, d\<lparr>fault_plan := rest\<rparr>))"

text \<open>Continue with the value, or return the error, as it is or replaced by another.\<close>

definition io_try :: "('e + 'a) io \<Rightarrow> ('a \<Rightarrow> ('e + 'b) io) \<Rightarrow> ('e + 'b) io" where
  "io_try m f = io_bind m (\<lambda>r. case r of Inl e \<Rightarrow> io_return (Inl e) | Inr a \<Rightarrow> f a)"

definition io_or :: "('e + 'a) io \<Rightarrow> 'd \<Rightarrow> ('a \<Rightarrow> ('d + 'b) io) \<Rightarrow> ('d + 'b) io" where
  "io_or m error f = io_bind m (\<lambda>r. case r of Inl _ \<Rightarrow> io_return (Inl error) | Inr a \<Rightarrow> f a)"

section \<open>System calls\<close>

definition os_Lstat :: "path \<Rightarrow> (io_error + inode) io" where
  "os_Lstat p = syscall (\<lambda>d. (case look d p of None \<Rightarrow> Inl ENotExist | Some f \<Rightarrow> Inr f, d))"

definition os_Lstat_directory :: "(io_error + bool \<times> bool) io" where
  "os_Lstat_directory = syscall (\<lambda>d. (Inr (dir_directory d, dir_private d), d))"

definition os_Open :: "path \<Rightarrow> (io_error + unit) io" where
  "os_Open p = syscall (\<lambda>d. (if look d p = None then Inl ENotExist else Inr (), d))"

definition read_file :: "path \<Rightarrow> (io_error + bytes) io" where
  "read_file p = syscall (\<lambda>d. (case look d p of None \<Rightarrow> Inl ENotExist | Some f \<Rightarrow> Inr (ino_content f), d))"

definition os_Remove :: "path \<Rightarrow> (io_error + unit) io" where
  "os_Remove p = syscall (\<lambda>d.
     if look d p = None then (Inl ENotExist, d) else (Inr (), d\<lparr>files := AList.delete p (files d)\<rparr>))"

definition os_Rename :: "path \<Rightarrow> path \<Rightarrow> (io_error + unit) io" where
  "os_Rename a b = syscall (\<lambda>d.
     case look d a of
       None \<Rightarrow> (Inl ENotExist, d)
     | Some f \<Rightarrow> (Inr (), d\<lparr>files := AList.update b f (AList.delete a (files d))\<rparr>))"

definition syncDirectory :: "(io_error + unit) io" where
  "syncDirectory = io_try (syscall (\<lambda>d. (Inr (), d))) (\<lambda>_. syscall (\<lambda>d. (Inr (), d)))"

fun unused_number :: "(path \<times> inode) list \<Rightarrow> nat" where
  "unused_number [] = 0"
| "unused_number ((p, f) # rest) =
     (case p of PTemp _ n \<Rightarrow> max (Suc n) (unused_number rest) | _ \<Rightarrow> unused_number rest)"

definition os_CreateTemp :: "string \<Rightarrow> (io_error + path) io" where
  "os_CreateTemp kind = syscall (\<lambda>d.
     let p = PTemp kind (unused_number (files d))
     in (Inr p, d\<lparr>files := AList.update p \<lparr>ino_regular = True, ino_private = True, ino_content = []\<rparr> (files d)\<rparr>))"

definition private_file :: "bytes \<Rightarrow> inode" where
  "private_file content = \<lparr>ino_regular = True, ino_private = True, ino_content = content\<rparr>"

definition file_Chmod :: "path \<Rightarrow> (io_error + unit) io" where
  "file_Chmod p = syscall (\<lambda>d. (Inr (),
     d\<lparr>files := (case look d p of None \<Rightarrow> files d | Some f \<Rightarrow> AList.update p (f\<lparr>ino_private := True\<rparr>) (files d))\<rparr>))"

definition file_Write :: "path \<Rightarrow> bytes \<Rightarrow> (io_error + unit) io" where
  "file_Write p content = syscall (\<lambda>d. (Inr (), d\<lparr>files := AList.update p (private_file content) (files d)\<rparr>))"

definition file_Sync :: "(io_error + unit) io" where
  "file_Sync = syscall (\<lambda>d. (Inr (), d))"

definition file_Close :: "(io_error + unit) io" where
  "file_Close = syscall (\<lambda>d. (Inr (), d))"

section \<open>Errors\<close>

datatype publish_kind = ErrTarget | ErrOwnership | ErrPublication

record publish_Failure =
  fail_kind :: publish_kind
  fail_code :: string

definition targetError :: "string \<Rightarrow> publish_Failure" where
  "targetError c = \<lparr>fail_kind = ErrTarget, fail_code = c\<rparr>"

definition ownershipError :: "string \<Rightarrow> publish_Failure" where
  "ownershipError c = \<lparr>fail_kind = ErrOwnership, fail_code = c\<rparr>"

definition publicationError :: "string \<Rightarrow> publish_Failure" where
  "publicationError c = \<lparr>fail_kind = ErrPublication, fail_code = c\<rparr>"

record Publication =
  publication_Profile :: Profile
  publication_Changed :: bool

section \<open>Helpers\<close>

definition readRegular :: "path \<Rightarrow> nat \<Rightarrow> (io_error + bytes) io" where
  "readRegular p limit =
     io_try (os_Lstat p) (\<lambda>info.
       if \<not> ino_regular info then io_return (Inl EUnsafePath)
       else io_try (os_Open p) (\<lambda>_.
         io_try (read_file p) (\<lambda>content.
           if length content > limit then io_return (Inl ETooLarge) else io_return (Inr content))))"

text \<open>The deferred removal of a temporary file; its error is ignored.\<close>

definition with_cleanup :: "path \<Rightarrow> 'a io \<Rightarrow> 'a io" where
  "with_cleanup p m = io_bind m (\<lambda>r. io_bind (os_Remove p) (\<lambda>_. io_return r))"

definition stage_abort :: "path \<Rightarrow> io_error \<Rightarrow> (io_error + path) io" where
  "stage_abort p e = io_bind file_Close (\<lambda>_. io_bind (os_Remove p) (\<lambda>_. io_return (Inl e)))"

definition stage :: "string \<Rightarrow> bytes \<Rightarrow> (io_error + path) io" where
  "stage kind content =
     io_try (os_CreateTemp kind) (\<lambda>name.
       io_bind (io_try (file_Chmod name) (\<lambda>_. io_try (file_Write name content) (\<lambda>_. io_try file_Sync (\<lambda>_. file_Close))))
         (\<lambda>r. case r of Inl e \<Rightarrow> stage_abort name e | Inr _ \<Rightarrow> io_return (Inr name)))"

definition writeAtomic :: "path \<Rightarrow> bytes \<Rightarrow> (io_error + unit) io" where
  "writeAtomic p content =
     io_try (stage ''metadata'' content) (\<lambda>temp.
       with_cleanup temp (io_try (os_Rename temp p) (\<lambda>_. syncDirectory)))"

fun validate_paths :: "path list \<Rightarrow> (publish_Failure + unit) io" where
  "validate_paths [] = io_return (Inr ())"
| "validate_paths (p # ps) =
     io_bind (os_Lstat p) (\<lambda>r.
       case r of
         Inl e \<Rightarrow> if e = ENotExist then validate_paths ps else io_return (Inl (targetError ''unsafe_path''))
       | Inr info \<Rightarrow>
           if \<not> ino_regular info then io_return (Inl (targetError ''unsafe_path''))
           else if \<not> ino_private info then io_return (Inl (targetError ''file_permissions''))
           else validate_paths ps)"

definition validateDirectory :: "(publish_Failure + unit) io" where
  "validateDirectory =
     io_bind os_Lstat_directory (\<lambda>r.
       case r of
         Inl _ \<Rightarrow> io_return (Inl (targetError ''directory''))
       | Inr (isdir, private) \<Rightarrow>
           if \<not> isdir then io_return (Inl (targetError ''directory''))
           else if \<not> private then io_return (Inl (targetError ''directory_permissions''))
           else validate_paths [PTarget, PReceipt, PPrevious, PJournal])"

fun remove_temps :: "(path \<times> inode) list \<Rightarrow> unit io" where
  "remove_temps [] = io_return ()"
| "remove_temps ((p, f) # rest) =
     (case p of
        PTemp _ _ \<Rightarrow> if ino_regular f then io_bind (os_Remove p) (\<lambda>_. remove_temps rest) else remove_temps rest
      | _ \<Rightarrow> remove_temps rest)"

definition cleanupTemps :: "(publish_Failure + unit) io" where
  "cleanupTemps =
     io_or (syscall (\<lambda>d. (Inr (files d), d))) (publicationError ''temp_scan'')
       (\<lambda>entries. io_bind (remove_temps entries) (\<lambda>_. io_return (Inr ())))"

definition max_target :: nat where "max_target = 67108864" \<comment> \<open>\<^verbatim>\<open>64<<20\<close>\<close>
definition max_receipt :: nat where "max_receipt = 65536" \<comment> \<open>\<^verbatim>\<open>64<<10\<close>\<close>

section \<open>Operations\<close>

definition recover_finish :: "(publish_Failure + unit) io" where
  "recover_finish =
     io_or (os_Remove PJournal) (publicationError ''recovery_cleanup'')
       (\<lambda>_. io_or syncDirectory (publicationError ''recovery_sync'') (\<lambda>_. cleanupTemps))"

definition recover_journal :: "bytes \<Rightarrow> (publish_Failure + unit) io" where
  "recover_journal journal =
     io_bind (readRegular PTarget max_target) (\<lambda>r.
       io_try
         (case r of
            Inl _ \<Rightarrow> io_return (Inr ())
          | Inr content \<Rightarrow>
              if MatchesProtectedReceipt content journal \<noteq> None then
                io_or (writeAtomic PReceipt journal) (publicationError ''recovery_receipt'') (\<lambda>_. io_return (Inr ()))
              else io_return (Inr ()))
         (\<lambda>_. recover_finish))"

definition recover :: "(publish_Failure + unit) io" where
  "recover =
     io_bind (readRegular PJournal max_receipt) (\<lambda>r.
       case r of
         Inl e \<Rightarrow> if e = ENotExist then cleanupTemps else io_return (Inl (ownershipError ''journal''))
       | Inr journal \<Rightarrow> recover_journal journal)"

text \<open>The content and the receipt of the artifact that is in place, if there is one.\<close>

definition currentOwned :: "(publish_Failure + (bytes \<times> bytes) option) io" where
  "currentOwned =
     io_bind (readRegular PTarget max_target) (\<lambda>r.
       case r of
         Inl e \<Rightarrow>
           if e = ENotExist then
             io_bind (os_Lstat PReceipt) (\<lambda>s.
               case s of
                 Inr _ \<Rightarrow> io_return (Inl (ownershipError ''orphan_receipt''))
               | Inl _ \<Rightarrow> io_return (Inr None))
           else io_return (Inl (targetError ''target_read''))
       | Inr content \<Rightarrow>
           io_or (readRegular PReceipt max_receipt) (ownershipError ''unmanaged_target'') (\<lambda>receipt.
             if MatchesProtectedReceipt content receipt = None then io_return (Inl (ownershipError ''receipt_mismatch''))
             else io_return (Inr (Some (content, receipt)))))"

definition CurrentReceipt :: "(publish_Failure + Receipt option) io" where
  "CurrentReceipt =
     io_try validateDirectory (\<lambda>_. io_try recover (\<lambda>_. io_try currentOwned (\<lambda>owned.
       case owned of
         None \<Rightarrow> io_return (Inr None)
       | Some (content, encoded) \<Rightarrow>
           (case RestoreReceipt encoded of
              Inl _ \<Rightarrow> io_return (Inl (ownershipError ''receipt_decode''))
            | Inr receipt \<Rightarrow> io_return (Inr (Some receipt))))))"

definition ignore_missing :: "io_error + unit \<Rightarrow> bool" where
  "ignore_missing r = (case r of Inl e \<Rightarrow> e = ENotExist | Inr _ \<Rightarrow> True)"

definition rollback_files :: "(bytes \<times> bytes) option \<Rightarrow> bool io" where
  "rollback_files previous =
     (case previous of
        Some (_, previousReceipt) \<Rightarrow>
          io_bind (os_Rename PPrevious PTarget) (\<lambda>r.
            io_bind (writeAtomic PReceipt previousReceipt) (\<lambda>s. io_return (is_ok r \<and> is_ok s)))
      | None \<Rightarrow>
          io_bind (os_Remove PTarget) (\<lambda>r.
            io_bind (os_Remove PReceipt) (\<lambda>s. io_return (ignore_missing r \<and> ignore_missing s))))"

definition rollback :: "(bytes \<times> bytes) option \<Rightarrow> string \<Rightarrow> (publish_Failure + Publication) io" where
  "rollback previous c =
     io_bind (rollback_files previous) (\<lambda>recovered.
       io_bind (os_Remove PJournal) (\<lambda>_. io_bind syncDirectory (\<lambda>_.
         io_return (Inl (publicationError (if recovered then c else ''rollback_failed''))))))"

definition abandon :: "string \<Rightarrow> (publish_Failure + Publication) io" where
  "abandon c = io_bind (os_Remove PJournal) (\<lambda>_. io_bind syncDirectory (\<lambda>_. io_return (Inl (publicationError c))))"

definition publish_finish :: "Validated \<Rightarrow> (publish_Failure + Publication) io" where
  "publish_finish validated =
     io_bind (os_Remove PJournal) (\<lambda>r. if \<not> ignore_missing r then io_return (Inl (publicationError ''journal_cleanup'')) else
       io_or syncDirectory (publicationError ''receipt_sync'') (\<lambda>_.
         io_return (Inr \<lparr>publication_Profile = art_profile (val_candidate validated), publication_Changed = True\<rparr>)))"

text \<open>The publication after the target has been renamed into place.\<close>

definition publish_confirm :: "Validated \<Rightarrow> (bytes \<times> bytes) option \<Rightarrow> bytes \<Rightarrow> (publish_Failure + Publication) io" where
  "publish_confirm validated owned desiredReceipt =
     (let desired = art_content (val_candidate validated)
      in io_bind syncDirectory (\<lambda>r. if \<not> is_ok r then rollback owned ''target_sync'' else
         io_bind (readRegular PTarget (length desired + 1)) (\<lambda>r. if r \<noteq> Inr desired then rollback owned ''readback'' else
         io_bind (writeAtomic PReceipt desiredReceipt) (\<lambda>r. if \<not> is_ok r then rollback owned ''receipt_commit'' else
         publish_finish validated))))"

text \<open>The argument \<open>later\<close> is the state of the context at the second check.\<close>

definition publish_commit :: "Validated \<Rightarrow> ctx_err \<Rightarrow> (bytes \<times> bytes) option \<Rightarrow> bytes \<Rightarrow> path \<Rightarrow> (publish_Failure + Publication) io" where
  "publish_commit validated later owned desiredReceipt temp =
     io_or (writeAtomic PJournal desiredReceipt) (publicationError ''journal'') (\<lambda>_.
       if ctx_done later then abandon ''cancelled''
       else io_bind (os_Rename temp PTarget) (\<lambda>r.
         if \<not> is_ok r then abandon ''target_commit'' else publish_confirm validated owned desiredReceipt))"

definition publish_backup :: "Validated \<Rightarrow> ctx_err \<Rightarrow> (bytes \<times> bytes) option \<Rightarrow> bytes \<Rightarrow> path \<Rightarrow> path \<Rightarrow> (publish_Failure + Publication) io" where
  "publish_backup validated later owned desiredReceipt temp backup =
     io_or (os_Rename backup PPrevious) (publicationError ''backup_commit'') (\<lambda>_.
       io_or syncDirectory (publicationError ''backup_sync'') (\<lambda>_.
         publish_commit validated later owned desiredReceipt temp))"

definition publish_staged :: "Validated \<Rightarrow> ctx_err \<Rightarrow> (bytes \<times> bytes) option \<Rightarrow> bytes \<Rightarrow> path \<Rightarrow> (publish_Failure + Publication) io" where
  "publish_staged validated later owned desiredReceipt temp =
     (case owned of
        None \<Rightarrow> publish_commit validated later owned desiredReceipt temp
      | Some (current, _) \<Rightarrow>
          io_or (stage ''previous'' current) (publicationError ''backup_stage'') (\<lambda>backup.
            with_cleanup backup (publish_backup validated later owned desiredReceipt temp backup)))"

definition publish_change :: "Validated \<Rightarrow> ctx_err \<Rightarrow> (bytes \<times> bytes) option \<Rightarrow> bytes \<Rightarrow> (publish_Failure + Publication) io" where
  "publish_change validated later owned desiredReceipt =
     io_or (stage ''candidate'' (art_content (val_candidate validated))) (publicationError ''stage'') (\<lambda>temp.
       with_cleanup temp (publish_staged validated later owned desiredReceipt temp))"

definition publish_owned :: "Validated \<Rightarrow> ctx_err \<Rightarrow> (bytes \<times> bytes) option \<Rightarrow> (publish_Failure + Publication) io" where
  "publish_owned validated later owned =
     (case ProtectedReceipt validated of
        Inl _ \<Rightarrow> io_return (Inl (publicationError ''receipt_encode''))
      | Inr desiredReceipt \<Rightarrow>
          (case owned of
             None \<Rightarrow> publish_change validated later owned desiredReceipt
           | Some (current, currentReceipt) \<Rightarrow>
               if current = art_content (val_candidate validated) then
                 (if MatchesProtectedReceipt current currentReceipt = Some (art_profile (val_candidate validated))
                  then io_return (Inr \<lparr>publication_Profile = art_profile (val_candidate validated), publication_Changed = False\<rparr>)
                  else io_return (Inl (ownershipError ''receipt_mismatch'')))
               else publish_change validated later owned desiredReceipt))"

text \<open>The argument \<open>entry\<close> is the state of the context at the first check.\<close>

definition Publish :: "Validated \<Rightarrow> ctx_err \<Rightarrow> ctx_err \<Rightarrow> (publish_Failure + Publication) io" where
  "Publish validated entry later =
     io_try validateDirectory (\<lambda>_. io_try recover (\<lambda>_.
       if ctx_done entry then io_return (Inl (publicationError ''cancelled''))
       else io_try currentOwned (publish_owned validated later)))"

section \<open>Reasoning about programs\<close>

text \<open>
  \<open>wp m Q C d\<close>: run on \<open>d\<close>, the program returns a value with \<open>Q\<close> or dies on a disk with \<open>C\<close>.
  The faults that a plan still holds bound what may go wrong.
\<close>

definition wp :: "'a io \<Rightarrow> ('a \<Rightarrow> disk \<Rightarrow> bool) \<Rightarrow> (disk \<Rightarrow> bool) \<Rightarrow> disk \<Rightarrow> bool" where
  "wp m Q C d = (case m d of (Some a, d') \<Rightarrow> Q a d' | (None, d') \<Rightarrow> C d')"

definition faults :: "disk \<Rightarrow> nat" where
  "faults d = length (filter (\<lambda>f. f \<noteq> Fine) (fault_plan d))"

lemma wp_return [simp]: "wp (io_return a) Q C = Q a"
  by (simp add: wp_def io_return_def fun_eq_iff)

lemma wp_bind [simp]: "wp (io_bind m f) Q C = wp m (\<lambda>a. wp (f a) Q C) C"
  by (simp add: wp_def io_bind_def fun_eq_iff split: option.splits prod.splits)

lemma wp_try [simp]:
  "wp (io_try m f) Q C = wp m (\<lambda>r. case r of Inl e \<Rightarrow> Q (Inl e) | Inr a \<Rightarrow> wp (f a) Q C) C"
  by (rule ext) (auto simp: wp_def io_try_def io_bind_def io_return_def split: option.splits prod.splits sum.splits)

lemma wp_or [simp]:
  "wp (io_or m e f) Q C = wp m (\<lambda>r. case r of Inl _ \<Rightarrow> Q (Inl e) | Inr a \<Rightarrow> wp (f a) Q C) C"
  by (rule ext) (auto simp: wp_def io_or_def io_bind_def io_return_def split: option.splits prod.splits sum.splits)

lemma wp_mono:
  "wp m Q C d \<Longrightarrow> (\<And>a d'. Q a d' \<Longrightarrow> Q' a d') \<Longrightarrow> (\<And>d'. C d' \<Longrightarrow> C' d') \<Longrightarrow> wp m Q' C' d"
  by (auto simp: wp_def split: option.splits prod.splits)

lemma wp_if [simp]: "wp (if b then m else n) Q C d \<longleftrightarrow> (if b then wp m Q C d else wp n Q C d)"
  by simp

lemma wp_run: "wp m Q C d \<Longrightarrow> m d = (Some a, d') \<Longrightarrow> Q a d'" "wp m Q C d \<Longrightarrow> m d = (None, d') \<Longrightarrow> C d'"
  by (simp_all add: wp_def)

text \<open>Disks that differ only in the plan, and in temporary files of one kind.\<close>

definition same_but :: "path set \<Rightarrow> disk \<Rightarrow> disk \<Rightarrow> bool" where
  "same_but ps d d' \<longleftrightarrow> dir_directory d' = dir_directory d \<and> dir_private d' = dir_private d
     \<and> (\<forall>p. p \<notin> ps \<longrightarrow> look d' p = look d p)"

abbreviation temps :: "path set" where
  "temps \<equiv> {PTemp kind n | kind n. True}"

lemma look_plan [simp]: "look (d\<lparr>fault_plan := p\<rparr>) q = look d q"
  by (simp add: look_def)

lemma look_files [simp]:
  "look (d\<lparr>files := AList.update p f fs\<rparr>) q = (if q = p then Some f else map_of fs q)"
  "look (d\<lparr>files := AList.delete p fs\<rparr>) q = (if q = p then None else map_of fs q)"
  by (auto simp: look_def update_conv' delete_conv')

lemma map_of_files [simp]: "map_of (files d) p = look d p"
  by (simp add: look_def)

lemma map_of_delete [simp]: "map_of (AList.delete p fs) q = (if q = p then None else map_of fs q)"
  by (simp add: delete_conv')

lemma wp_syscall:
  assumes "\<And>d'. same_but {} d d' \<Longrightarrow> files d' = files d \<Longrightarrow> faults d' \<le> faults d \<Longrightarrow> Q (fst (operation d')) (snd (operation d'))"
    and "\<And>d'. same_but {} d d' \<Longrightarrow> files d' = files d \<Longrightarrow> faults d' < faults d \<Longrightarrow> Q (Inl EFault) d'"
    and "\<And>d'. same_but {} d d' \<Longrightarrow> files d' = files d \<Longrightarrow> faults d' < faults d \<Longrightarrow> C d'"
  shows "wp (syscall operation) Q C d"
proof -
  have same: "same_but {} d (d\<lparr>fault_plan := p\<rparr>)" "files (d\<lparr>fault_plan := p\<rparr>) = files d" for p
    by (simp_all add: same_but_def)
  show ?thesis
  proof (cases "fault_plan d")
    case Nil
    then show ?thesis using assms(1) [of d] by (simp add: wp_def syscall_def same_but_def)
  next
    case (Cons f rest)
    show ?thesis
    proof (cases f)
      case Fine
      then show ?thesis using Cons assms(1) [OF same, of rest] by (simp add: wp_def syscall_def faults_def Let_def)
    next
      case Fails
      then show ?thesis using Cons assms(2) [OF same, of rest] by (simp add: wp_def syscall_def faults_def)
    next
      case Crash
      then show ?thesis using Cons assms(3) [OF same, of rest] by (simp add: wp_def syscall_def faults_def)
    qed
  qed
qed

text \<open>The call rules, with the three ways a call may go.\<close>

lemma same_but_empty: "same_but {} d d' \<Longrightarrow> look d' p = look d p"
  by (simp add: same_but_def)

lemma wp_Lstat:
  assumes "\<And>d'. same_but {} d d' \<Longrightarrow> faults d' \<le> faults d \<Longrightarrow> Q (case look d p of None \<Rightarrow> Inl ENotExist | Some f \<Rightarrow> Inr f) d'"
    and "\<And>d'. same_but {} d d' \<Longrightarrow> faults d' < faults d \<Longrightarrow> Q (Inl EFault) d'"
    and "\<And>d'. same_but {} d d' \<Longrightarrow> faults d' < faults d \<Longrightarrow> C d'"
  shows "wp (os_Lstat p) Q C d"
  unfolding os_Lstat_def by (rule wp_syscall) (auto simp: same_but_empty intro: assms)

lemma wp_nop:
  assumes "\<And>d'. same_but {} d d' \<Longrightarrow> faults d' \<le> faults d \<Longrightarrow> Q (Inr a) d'"
    and "\<And>d'. same_but {} d d' \<Longrightarrow> faults d' < faults d \<Longrightarrow> Q (Inl EFault) d'"
    and "\<And>d'. same_but {} d d' \<Longrightarrow> faults d' < faults d \<Longrightarrow> C d'"
  shows "wp (syscall (\<lambda>d. (Inr a, d))) Q C d"
  by (rule wp_syscall) (auto intro: assms)

lemma same_but_trans: "same_but ps d d' \<Longrightarrow> same_but qs d' d'' \<Longrightarrow> same_but (ps \<union> qs) d d''"
  by (auto simp: same_but_def)

lemma same_but_trans_empty: "same_but {} d d' \<Longrightarrow> same_but {} d' d'' \<Longrightarrow> same_but {} d d''"
  by (auto simp: same_but_def)

lemma wp_sync:
  assumes "\<And>d'. same_but {} d d' \<Longrightarrow> faults d' \<le> faults d \<Longrightarrow> Q (Inr ()) d'"
    and "\<And>d'. same_but {} d d' \<Longrightarrow> faults d' < faults d \<Longrightarrow> Q (Inl EFault) d'"
    and "\<And>d'. same_but {} d d' \<Longrightarrow> faults d' < faults d \<Longrightarrow> C d'"
  shows "wp syncDirectory Q C d"
  unfolding syncDirectory_def wp_try
proof (rule wp_nop, goal_cases)
  case (1 d')
  show ?case
    by simp (rule wp_nop, insert 1, auto intro: assms same_but_trans_empty elim: order.trans order.strict_trans2)
next
  case (2 d')
  then show ?case using assms(2) by simp
next
  case (3 d')
  then show ?case by (rule assms(3))
qed

definition read_result :: "disk \<Rightarrow> path \<Rightarrow> nat \<Rightarrow> io_error + bytes" where
  "read_result d p limit =
     (case look d p of
        None \<Rightarrow> Inl ENotExist
      | Some f \<Rightarrow>
          if \<not> ino_regular f then Inl EUnsafePath
          else if length (ino_content f) > limit then Inl ETooLarge
          else Inr (ino_content f))"

text \<open>A program that only reads, with the value it returns unless a call goes wrong.\<close>

definition reads :: "(io_error + 'a) io \<Rightarrow> (io_error + 'a) \<Rightarrow> disk \<Rightarrow> bool" where
  "reads m r d \<longleftrightarrow> wp m
     (\<lambda>x d'. same_but {} d d' \<and> (x = r \<and> faults d' \<le> faults d \<or> x = Inl EFault \<and> faults d' < faults d))
     (\<lambda>d'. same_but {} d d' \<and> faults d' < faults d) d"

lemma wp_reads:
  assumes "reads m r d"
    and "\<And>d'. same_but {} d d' \<Longrightarrow> faults d' \<le> faults d \<Longrightarrow> Q r d'"
    and "\<And>d'. same_but {} d d' \<Longrightarrow> faults d' < faults d \<Longrightarrow> Q (Inl EFault) d'"
    and "\<And>d'. same_but {} d d' \<Longrightarrow> faults d' < faults d \<Longrightarrow> C d'"
  shows "wp m Q C d"
  using assms(1) unfolding reads_def by (rule wp_mono) (auto intro: assms(2-))

lemma reads_syscall:
  assumes "\<And>d'. same_but {} d d' \<Longrightarrow> operation d' = (r, d')"
  shows "reads (syscall operation) r d"
  unfolding reads_def by (rule wp_syscall) (simp_all add: assms)

lemma reads_return [simp]: "reads (io_return r) r d"
  by (simp add: reads_def same_but_def)

lemma reads_try_Inl: "reads m (Inl e) d \<Longrightarrow> reads (io_try m f) (Inl e) d"
  by (simp add: reads_def) (erule wp_mono, auto)

lemma reads_try_Inr:
  assumes "reads m (Inr a) d" "\<And>d'. same_but {} d d' \<Longrightarrow> reads (f a) r d'"
  shows "reads (io_try m f) r d"
  unfolding reads_def wp_try
proof (rule wp_reads [OF assms(1)], goal_cases)
  case (1 d1)
  have "reads (f a) r d1" by (rule assms(2) [OF 1(1)])
  then show ?case
    by simp (erule wp_reads, insert 1, auto intro: same_but_trans_empty)
qed simp_all

lemma reads_readRegular: "reads (readRegular p limit) (read_result d p limit) d"
proof -
  have stat: "reads (os_Lstat p) (case look d p of None \<Rightarrow> Inl ENotExist | Some f \<Rightarrow> Inr f) d"
    unfolding os_Lstat_def by (rule reads_syscall) (simp add: same_but_empty)
  show ?thesis
  proof (cases "look d p")
    case None
    then show ?thesis using stat unfolding readRegular_def read_result_def by (auto intro: reads_try_Inl)
  next
    case (Some f)
    have opened: "reads (os_Open p) (Inr ()) d'" "reads (read_file p) (Inr (ino_content f)) d'" if "same_but {} d d'" for d'
      using that Some unfolding os_Open_def read_file_def by (auto intro!: reads_syscall simp: same_but_empty)
    show ?thesis
      unfolding readRegular_def read_result_def
    proof (rule reads_try_Inr)
      show "reads (os_Lstat p) (Inr f) d" using stat Some by simp
    qed (auto simp: Some intro!: reads_try_Inr opened intro: same_but_trans_empty)
  qed
qed

lemmas wp_readRegular = wp_reads [OF reads_readRegular]

lemma wp_Remove:
  assumes "\<And>d'. same_but {p} d d' \<Longrightarrow> look d' p = None \<Longrightarrow> faults d' \<le> faults d \<Longrightarrow>
      Q (if look d p = None then Inl ENotExist else Inr ()) d'"
    and "\<And>d'. same_but {} d d' \<Longrightarrow> faults d' < faults d \<Longrightarrow> Q (Inl EFault) d'"
    and "\<And>d'. same_but {} d d' \<Longrightarrow> faults d' < faults d \<Longrightarrow> C d'"
  shows "wp (os_Remove p) Q C d"
  unfolding os_Remove_def
proof (rule wp_syscall, goal_cases)
  case (1 d')
  then have look: "look d' q = look d q" for q by (simp add: same_but_empty)
  show ?case
  proof (cases "look d p")
    case None
    then show ?thesis using assms(1) [of d'] 1 look by (simp add: same_but_def)
  next
    case (Some f)
    let ?e = "d'\<lparr>files := AList.delete p (files d')\<rparr>"
    have "same_but {p} d ?e" "look ?e p = None" "faults ?e \<le> faults d"
      using 1 look by (simp_all add: same_but_def faults_def)
    then show ?thesis using assms(1) [of ?e] Some look by simp
  qed
qed (auto intro: assms)

lemma wp_Rename:
  assumes "look d a = Some f" "a \<noteq> b"
    and "\<And>d'. same_but {a, b} d d' \<Longrightarrow> look d' a = None \<Longrightarrow> look d' b = Some f \<Longrightarrow> faults d' \<le> faults d \<Longrightarrow> Q (Inr ()) d'"
    and "\<And>d'. same_but {} d d' \<Longrightarrow> faults d' < faults d \<Longrightarrow> Q (Inl EFault) d'"
    and "\<And>d'. same_but {} d d' \<Longrightarrow> faults d' < faults d \<Longrightarrow> C d'"
  shows "wp (os_Rename a b) Q C d"
  unfolding os_Rename_def
proof (rule wp_syscall, goal_cases)
  case (1 d')
  then have look: "look d' q = look d q" for q by (simp add: same_but_empty)
  let ?e = "d'\<lparr>files := AList.update b f (AList.delete a (files d'))\<rparr>"
  have "same_but {a, b} d ?e" "look ?e a = None" "look ?e b = Some f" "faults ?e \<le> faults d"
    using 1 look assms(2) by (simp_all add: same_but_def faults_def)
  then show ?case using assms(3) [of ?e] assms(1) look by simp
qed (auto intro: assms)

text \<open>
  A program that writes only the given paths and whose success establishes \<open>ok\<close>; a failure or a
  crash uses up a fault.
\<close>

definition writes :: "path set \<Rightarrow> ('e + 'a) io \<Rightarrow> ('a \<Rightarrow> disk \<Rightarrow> bool) \<Rightarrow> disk \<Rightarrow> bool" where
  "writes ps m ok d \<longleftrightarrow> wp m
     (\<lambda>r d'. same_but ps d d' \<and> (case r of Inr a \<Rightarrow> ok a d' \<and> faults d' \<le> faults d | Inl _ \<Rightarrow> faults d' < faults d))
     (\<lambda>d'. same_but ps d d' \<and> faults d' < faults d) d"

lemma wp_writes:
  assumes "writes ps m ok d"
    and "\<And>a d'. same_but ps d d' \<Longrightarrow> ok a d' \<Longrightarrow> faults d' \<le> faults d \<Longrightarrow> Q (Inr a) d'"
    and "\<And>e d'. same_but ps d d' \<Longrightarrow> faults d' < faults d \<Longrightarrow> Q (Inl e) d'"
    and "\<And>d'. same_but ps d d' \<Longrightarrow> faults d' < faults d \<Longrightarrow> C d'"
  shows "wp m Q C d"
  using assms(1) unfolding writes_def by (rule wp_mono) (auto intro: assms(2-) split: sum.splits)

lemma same_but_mono: "same_but ps d d' \<Longrightarrow> ps \<subseteq> qs \<Longrightarrow> same_but qs d d'"
  by (auto simp: same_but_def)

lemma same_but_same: "same_but ps d d' \<Longrightarrow> same_but ps d' d'' \<Longrightarrow> same_but ps d d''"
  by (auto simp: same_but_def)

lemma writes_mono:
  assumes "writes ps m ok d" "ps \<subseteq> qs" "\<And>a d'. ok a d' \<Longrightarrow> same_but ps d d' \<Longrightarrow> ok' a d'"
  shows "writes qs m ok' d"
  unfolding writes_def by (rule wp_writes [OF assms(1)]) (auto intro: assms(3) same_but_mono [OF _ assms(2)])

lemma writes_syscall:
  assumes "\<And>d'. same_but {} d d' \<Longrightarrow> files d' = files d \<Longrightarrow>
    (case operation d' of (Inr a, e) \<Rightarrow> ok a e \<and> same_but ps d' e \<and> faults e = faults d' | (Inl _, e) \<Rightarrow> False)"
  shows "writes ps (syscall operation) ok d"
  unfolding writes_def
proof (rule wp_syscall, goal_cases)
  case (1 d')
  have "same_but ps d d'" by (rule same_but_mono [OF 1(1)]) simp
  then show ?case using assms [OF 1(1,2)] 1(3) by (auto intro: same_but_same split: prod.splits sum.splits)
qed (auto intro: same_but_mono)

lemma writes_try:
  assumes "writes ps m ok d" "\<And>a d'. ok a d' \<Longrightarrow> same_but ps d d' \<Longrightarrow> writes ps (f a) ok' d'"
  shows "writes ps (io_try m f) ok' d"
  unfolding writes_def wp_try
proof (rule wp_writes [OF assms(1)], goal_cases)
  case (1 a d1)
  then have "writes ps (f a) ok' d1" by (intro assms(2))
  then show ?case by simp (erule wp_writes, insert 1, auto intro: same_but_same)
qed simp_all

lemma writes_return: "ok a d \<Longrightarrow> writes ps (io_return (Inr a)) ok d"
  by (simp add: writes_def same_but_def)

lemma writes_Remove_after:
  assumes "writes ps m ok d" "p \<in> ps" "\<And>a d1 d2. ok a d1 \<Longrightarrow> same_but {p} d1 d2 \<Longrightarrow> ok a d2"
  shows "writes ps (with_cleanup p m) ok d"
  unfolding writes_def with_cleanup_def wp_bind
proof (rule wp_writes [OF assms(1)], goal_cases)
  case (1 a d1)
  have more: "same_but ps d d2" "ok a d2" if "same_but {p} d1 d2" for d2
    using that assms(2,3) 1 same_but_mono [OF that, of ps] by (auto intro: same_but_same)
  show ?case
    by (rule wp_Remove) (insert 1 more, auto intro: same_but_mono)
next
  case (2 e d1)
  have more: "same_but ps d d2" if "same_but {p} d1 d2" for d2
    using that assms(2) 2 same_but_mono [OF that, of ps] by (auto intro: same_but_same)
  show ?case by (rule wp_Remove) (insert 2 more, auto intro: same_but_mono)
qed simp_all

lemma writes_nop: "writes ps (syscall (\<lambda>d. (Inr (), d))) (\<lambda>_ d'. same_but {} d d') d"
  by (rule writes_syscall) (simp add: same_but_def)

lemma writes_sync: "writes {} syncDirectory (\<lambda>_ d'. same_but {} d d') d"
  unfolding syncDirectory_def
proof (rule writes_try [OF writes_nop])
  fix d1 assume here: "same_but {} d d1"
  show "writes {} (syscall (\<lambda>d. (Inr (), d))) (\<lambda>_ d'. same_but {} d d') d1"
    by (rule writes_mono [OF writes_nop]) (auto intro: same_but_trans_empty [OF here])
qed

lemma look_set: "look (d\<lparr>files := fs\<rparr>) q = map_of fs q"
  by (simp add: look_def del: map_of_files)

lemma writes_fill:
  "writes {p} (io_try (file_Chmod p) (\<lambda>_. io_try (file_Write p content) (\<lambda>_. io_try file_Sync (\<lambda>_. file_Close))))
     (\<lambda>_ d'. look d' p = Some (private_file content)) d"
proof (rule writes_try)
  show "writes {p} (file_Chmod p) (\<lambda>_ _. True) d"
    unfolding file_Chmod_def by (rule writes_syscall) (auto simp: same_but_def faults_def look_set update_conv' split: option.splits)
  fix d1 :: disk
  show "writes {p} (io_try (file_Write p content) (\<lambda>_. io_try file_Sync (\<lambda>_. file_Close)))
     (\<lambda>_ d'. look d' p = Some (private_file content)) d1"
  proof (rule writes_try)
    show "writes {p} (file_Write p content) (\<lambda>_ d'. look d' p = Some (private_file content)) d1"
      unfolding file_Write_def by (rule writes_syscall) (simp add: same_but_def faults_def)
    fix d2 assume "look d2 p = Some (private_file content)"
    then show "writes {p} (io_try file_Sync (\<lambda>_. file_Close)) (\<lambda>_ d'. look d' p = Some (private_file content)) d2"
      unfolding file_Sync_def file_Close_def
      by (intro writes_try [OF writes_nop]) (rule writes_mono [OF writes_nop order.refl], simp add: same_but_empty)
  qed
qed

lemma wp_stage_abort:
  assumes "\<And>d'. same_but {p} d d' \<Longrightarrow> faults d' \<le> faults d \<Longrightarrow> Q (Inl e) d'"
    and "\<And>d'. same_but {p} d d' \<Longrightarrow> faults d' \<le> faults d \<Longrightarrow> C d'"
  shows "wp (stage_abort p e) Q C d"
proof -
  have remove: "wp (os_Remove p) (\<lambda>_. Q (Inl e)) C d'" if "same_but {} d d'" "faults d' \<le> faults d" for d'
    by (rule wp_Remove) (insert that, auto intro!: assms intro: order.trans simp: same_but_def)
  show ?thesis
    unfolding stage_abort_def file_Close_def wp_bind wp_return
    by (rule wp_nop) (auto intro!: remove assms simp: same_but_def)
qed

lemma writes_stage:
  "writes (range (PTemp kind)) (stage kind content)
     (\<lambda>t d'. \<exists>n. t = PTemp kind n \<and> look d' t = Some (private_file content)) d"
  unfolding stage_def
proof (rule writes_try)
  show "writes (range (PTemp kind)) (os_CreateTemp kind) (\<lambda>t _. \<exists>n. t = PTemp kind n) d"
    unfolding os_CreateTemp_def by (rule writes_syscall) (auto simp: same_but_def faults_def Let_def)
  fix t d1 assume "\<exists>n. t = PTemp kind n"
  then have sub: "{t} \<subseteq> range (PTemp kind)" by auto
  note weaken = same_but_mono [OF _ sub]
  show "writes (range (PTemp kind))
      (io_bind (io_try (file_Chmod t) (\<lambda>_. io_try (file_Write t content) (\<lambda>_. io_try file_Sync (\<lambda>_. file_Close))))
         (\<lambda>r. case r of Inl e \<Rightarrow> stage_abort t e | Inr _ \<Rightarrow> io_return (Inr t)))
      (\<lambda>t d'. \<exists>n. t = PTemp kind n \<and> look d' t = Some (private_file content)) d1"
    unfolding writes_def wp_bind
  proof (rule wp_writes [OF writes_fill], goal_cases)
    case (1 a d2)
    then show ?case using \<open>\<exists>n. t = PTemp kind n\<close> by (auto intro: weaken)
  next
    case (2 e d2)
    then show ?case by simp (rule wp_stage_abort, auto intro: weaken same_but_same)
  next
    case (3 d2)
    then show ?case by (auto intro: weaken)
  qed
qed

section \<open>Atomic replacement\<close>

lemma same_but_widen:
  "same_but ps d d' \<Longrightarrow> same_but qs d' d'' \<Longrightarrow> ps \<subseteq> rs \<Longrightarrow> qs \<subseteq> rs \<Longrightarrow> same_but rs d d''"
  by (rule same_but_same [OF same_but_mono same_but_mono])

lemma wp_writeAtomic:
  assumes "p \<notin> temps"
    and "\<And>d'. same_but (insert p (range (PTemp ''metadata''))) d d' \<Longrightarrow> look d' p = Some (private_file content) \<Longrightarrow>
      faults d' \<le> faults d \<Longrightarrow> Q (Inr ()) d'"
    and "\<And>e d'. same_but (insert p (range (PTemp ''metadata''))) d d' \<Longrightarrow>
      look d' p = look d p \<or> look d' p = Some (private_file content) \<Longrightarrow> faults d' < faults d \<Longrightarrow> Q (Inl e) d'"
    and "\<And>d'. same_but (insert p (range (PTemp ''metadata''))) d d' \<Longrightarrow>
      look d' p = look d p \<or> look d' p = Some (private_file content) \<Longrightarrow> faults d' < faults d \<Longrightarrow> C d'"
  shows "wp (writeAtomic p content) Q C d"
proof -
  let ?M = "range (PTemp ''metadata'')"
  let ?Q = "\<lambda>r d'. case r of Inr _ \<Rightarrow> same_but (insert p ?M) d d' \<and> look d' p = Some (private_file content) \<and> faults d' \<le> faults d
    | Inl _ \<Rightarrow> same_but (insert p ?M) d d' \<and> (look d' p = look d p \<or> look d' p = Some (private_file content)) \<and> faults d' < faults d"
  let ?C = "\<lambda>d'. same_but (insert p ?M) d d' \<and> (look d' p = look d p \<or> look d' p = Some (private_file content)) \<and> faults d' < faults d"
  have p: "p \<notin> ?M" using assms(1) by auto
  have "wp (writeAtomic p content) ?Q ?C d"
    unfolding writeAtomic_def wp_try
  proof (rule wp_writes [OF writes_stage], goal_cases)
    case (1 t d1)
    then obtain n where t: "t = PTemp ''metadata'' n" "look d1 t = Some (private_file content)" by blast
    have tp: "t \<noteq> p" using assms(1) t by auto
    have d1: "look d1 p = look d p" using 1(1) p by (simp add: same_but_def)
    have after: "same_but (insert p ?M) d d''" "look d'' p = look d' p"
      if "same_but (insert p ?M) d d'" "same_but {t} d' d''" for d' d''
    proof -
      have "same_but (insert p ?M) d' d''" using t(1) by (intro same_but_mono [OF that(2)]) auto
      with that(1) show "same_but (insert p ?M) d d''" by (rule same_but_same)
      show "look d'' p = look d' p" using that(2) tp by (simp add: same_but_def)
    qed
    have less: "same_but {} e e' \<Longrightarrow> same_but {t} e e'" for e e' by (erule same_but_mono) simp
    have remove: "wp (os_Remove t) (\<lambda>_. ?Q r) ?C d'" if Q: "?Q r d'" for r d'
    proof (cases r)
      case (Inl e)
      have Q: "same_but (insert p ?M) d d'" "look d' p = look d p \<or> look d' p = Some (private_file content)" "faults d' < faults d"
        using Q Inl by simp_all
      show ?thesis unfolding Inl
        by (rule wp_Remove) (use Q in \<open>simp_all add: after [OF Q(1)] after [OF Q(1) less]\<close>)
    next
      case (Inr u)
      have Q: "same_but (insert p ?M) d d'" "look d' p = Some (private_file content)" "faults d' \<le> faults d"
        using Q Inr by simp_all
      show ?thesis unfolding Inr
        by (rule wp_Remove) (use Q in \<open>simp_all add: after [OF Q(1)] after [OF Q(1) less]\<close>)
    qed
    have rename: "wp (os_Rename t p) (\<lambda>r. wp (case r of Inl e \<Rightarrow> io_return (Inl e) | Inr _ \<Rightarrow> syncDirectory)
        (\<lambda>r. wp (os_Remove t) (\<lambda>_. ?Q r) ?C) ?C) ?C d1"
    proof (rule wp_Rename [OF t(2) tp], goal_cases)
      case (1 d2)
      have two: "same_but (insert p ?M) d d2" using t(1) by (intro same_but_widen [OF \<open>same_but ?M d d1\<close> 1(1)]) auto
      have three: "same_but (insert p ?M) d d3" "look d3 p = Some (private_file content)" if "same_but {} d2 d3" for d3
        using after [OF two less [OF that]] 1(3) by simp_all
      show ?case
        by (simp del: wp_bind) (rule wp_sync; (rule remove)?; use three 1(4) \<open>faults d1 \<le> faults d\<close> in simp)
    next
      case (2 d2)
      have "same_but (insert p ?M) d d2" "look d2 p = look d p"
        using 2(1) \<open>same_but ?M d d1\<close> d1 by (auto simp: same_but_def)
      then show ?case using 2(2) \<open>faults d1 \<le> faults d\<close> remove [of d2 "Inl EFault"] by simp
    next
      case (3 d2)
      have "same_but (insert p ?M) d d2" "look d2 p = look d p"
        using 3(1) \<open>same_but ?M d d1\<close> d1 by (auto simp: same_but_def)
      then show ?case using 3(2) \<open>faults d1 \<le> faults d\<close> by simp
    qed
    then show ?case unfolding with_cleanup_def io_try_def by simp
  qed (insert p, auto simp: same_but_def)
  then show ?thesis
    by (rule wp_mono) (auto intro: assms split: sum.splits)
qed

section \<open>States of the directory\<close>

abbreviation artifact_content :: "Validated \<Rightarrow> bytes" where
  "artifact_content v \<equiv> art_content (val_candidate v)"

text \<open>An artifact that fits the limits of the publisher.\<close>

definition publishable :: "Validated \<Rightarrow> bool" where
  "publishable v \<longleftrightarrow> Validated_wf v \<and> length (artifact_content v) \<le> max_target \<and> length (validated_receipt v) \<le> max_receipt"

definition private_or_missing :: "inode option \<Rightarrow> bool" where
  "private_or_missing f \<longleftrightarrow> f = None \<or> (\<exists>c. f = Some (private_file c))"

definition sound :: "disk \<Rightarrow> bool" where
  "sound d \<longleftrightarrow> dir_directory d \<and> dir_private d
     \<and> (\<forall>p \<in> {PTarget, PReceipt, PPrevious, PJournal}. private_or_missing (look d p))"

definition holds :: "disk \<Rightarrow> path \<Rightarrow> bytes \<Rightarrow> bool" where
  "holds d p c \<longleftrightarrow> look d p = Some (private_file c)"

text \<open>
  The artifact is in place with its receipt, and no journal is left; and the weaker state from
  which recovery gets there: a journal that does not belong to the target, or a target whose
  receipt is still in the journal only.
\<close>

definition settled :: "disk \<Rightarrow> Validated option \<Rightarrow> bool" where
  "settled d s \<longleftrightarrow> sound d \<and> look d PJournal = None
     \<and> (case s of
          None \<Rightarrow> look d PTarget = None \<and> look d PReceipt = None
        | Some v \<Rightarrow> publishable v \<and> holds d PTarget (artifact_content v) \<and> holds d PReceipt (validated_receipt v))"

definition stale_journal :: "disk \<Rightarrow> bool" where
  "stale_journal d \<longleftrightarrow> look d PJournal = None
     \<or> (\<exists>j. holds d PJournal j \<and> length j \<le> max_receipt
          \<and> (\<forall>c. holds d PTarget c \<longrightarrow> MatchesProtectedReceipt c j = None))"

definition recoverable :: "disk \<Rightarrow> Validated option \<Rightarrow> bool" where
  "recoverable d s \<longleftrightarrow> sound d
     \<and> (case s of
          None \<Rightarrow> look d PTarget = None \<and> look d PReceipt = None \<and> stale_journal d
        | Some v \<Rightarrow> publishable v \<and> holds d PTarget (artifact_content v)
            \<and> (holds d PReceipt (validated_receipt v) \<and> stale_journal d \<or> holds d PJournal (validated_receipt v)))"

lemma settled_recoverable: "settled d s \<Longrightarrow> recoverable d s"
  by (auto simp: settled_def recoverable_def stale_journal_def split: option.splits)

lemma same_but_temps:
  assumes "same_but ps d d'" "ps \<subseteq> temps"
  shows "sound d' = sound d" "holds d' PTarget c = holds d PTarget c" "holds d' PReceipt c = holds d PReceipt c"
    "holds d' PPrevious c = holds d PPrevious c" "holds d' PJournal c = holds d PJournal c"
    "look d' PTarget = look d PTarget" "look d' PReceipt = look d PReceipt" "look d' PPrevious = look d PPrevious"
    "look d' PJournal = look d PJournal"
    "settled d' s = settled d s" "recoverable d' s = recoverable d s"
proof -
  have dirs: "dir_directory d' = dir_directory d" "dir_private d' = dir_private d"
    using assms(1) by (simp_all add: same_but_def)
  have "PTarget \<notin> ps" "PReceipt \<notin> ps" "PPrevious \<notin> ps" "PJournal \<notin> ps" using assms(2) by auto
  then have looks: "look d' PTarget = look d PTarget" "look d' PReceipt = look d PReceipt"
    "look d' PPrevious = look d PPrevious" "look d' PJournal = look d PJournal"
    using assms(1) by (simp_all add: same_but_def)
  note eqs = dirs looks
  show "sound d' = sound d" "holds d' PTarget c = holds d PTarget c" "holds d' PReceipt c = holds d PReceipt c"
    "holds d' PPrevious c = holds d PPrevious c" "holds d' PJournal c = holds d PJournal c"
    "look d' PTarget = look d PTarget" "look d' PReceipt = look d PReceipt" "look d' PPrevious = look d PPrevious"
    "look d' PJournal = look d PJournal"
    by (simp_all add: sound_def holds_def eqs)
  show "settled d' s = settled d s" "recoverable d' s = recoverable d s"
    by (cases s, simp_all add: settled_def recoverable_def stale_journal_def sound_def holds_def eqs)+
qed

lemmas same_but_unchanged = same_but_temps [OF _ empty_subsetI]

lemma private_file_simps [simp]:
  "ino_regular (private_file c)" "ino_private (private_file c)" "ino_content (private_file c) = c"
  "private_file c = private_file c' \<longleftrightarrow> c = c'"
  by (simp_all add: private_file_def)

lemma holds_unique: "holds d p c \<Longrightarrow> holds d p c' \<Longrightarrow> c = c'"
  by (simp add: holds_def)

lemma read_holds: "holds d p c \<Longrightarrow> length c \<le> limit \<Longrightarrow> read_result d p limit = Inr c"
  by (simp add: read_result_def holds_def)

lemma read_missing: "look d p = None \<Longrightarrow> read_result d p limit = Inl ENotExist"
  by (simp add: read_result_def)

section \<open>The building blocks\<close>

lemma writes_Lstat_ok:
  assumes "private_or_missing (look d p)" "\<And>d'. same_but {} d d' \<Longrightarrow> writes {} (validate_paths ps) (\<lambda>_ _. True) d'"
  shows "writes {} (validate_paths (p # ps)) (\<lambda>_ _. True) d"
  unfolding writes_def validate_paths.simps wp_bind
proof (rule wp_Lstat, goal_cases)
  case (1 d1)
  have "wp (validate_paths ps) (\<lambda>r d'. same_but {} d d' \<and> (case r of Inr a \<Rightarrow> True \<and> faults d' \<le> faults d | Inl _ \<Rightarrow> faults d' < faults d))
      (\<lambda>d'. same_but {} d d' \<and> faults d' < faults d) d1"
    by (rule wp_writes [OF assms(2) [OF 1(1)]]) (insert 1, auto intro: same_but_trans_empty)
  then show ?case using assms(1) by (auto simp: private_or_missing_def)
qed simp_all

lemma writes_validateDirectory:
  assumes "sound d"
  shows "writes {} validateDirectory (\<lambda>_ _. True) d"
proof -
  have paths: "writes {} (validate_paths [PTarget, PReceipt, PPrevious, PJournal]) (\<lambda>_ _. True) d'"
    if "same_but {} d d'" for d'
  proof -
    have "sound d'" using assms same_but_unchanged(1) [OF that] by simp
    then show ?thesis by (intro writes_Lstat_ok) (auto simp: sound_def same_but_empty writes_return)
  qed
  show ?thesis
    unfolding writes_def validateDirectory_def os_Lstat_directory_def wp_bind
  proof (rule wp_syscall, goal_cases)
    case (1 d1)
    have "wp (validate_paths [PTarget, PReceipt, PPrevious, PJournal])
        (\<lambda>r d'. same_but {} d d' \<and> (case r of Inr a \<Rightarrow> True \<and> faults d' \<le> faults d | Inl _ \<Rightarrow> faults d' < faults d))
        (\<lambda>d'. same_but {} d d' \<and> faults d' < faults d) d1"
      by (rule wp_writes [OF paths [OF 1(1)]]) (insert 1, auto intro: same_but_trans_empty)
    then show ?case using 1 assms by (simp add: sound_def same_but_def del: validate_paths.simps)
  qed simp_all
qed

lemma wp_remove_temps:
  "wp (remove_temps es) (\<lambda>_ d'. same_but temps d d' \<and> faults d' \<le> faults d) (\<lambda>d'. same_but temps d d' \<and> faults d' < faults d) d"
proof (induction es arbitrary: d)
  case Nil
  then show ?case by (simp add: same_but_def)
next
  case (Cons e es)
  obtain p f where e: "e = (p, f)" by force
  show ?case
  proof (cases "\<exists>k n. p = PTemp k n \<and> ino_regular f")
    case False
    then show ?thesis using Cons.IH [of d] by (auto simp: e split: path.split)
  next
    case True
    then have sub: "{p} \<subseteq> temps" by auto
    have rest: "wp (remove_temps es) (\<lambda>_ d'. same_but temps d d' \<and> faults d' \<le> faults d)
        (\<lambda>d'. same_but temps d d' \<and> faults d' < faults d) d1"
      if "same_but ps d d1" "ps \<subseteq> temps" "faults d1 \<le> faults d" for d1 ps
      using Cons.IH [of d1] by (rule wp_mono) (use that same_but_widen [OF that(1)] in auto)
    show ?thesis
      using True
    proof (elim exE conjE, simp add: e, intro wp_Remove, goal_cases)
      case (1 k n d1)
      then show ?case using rest [of "{p}" d1] sub by simp
    next
      case (2 k n d1)
      then show ?case using rest [of "{}" d1] by simp
    next
      case (3 k n d1)
      then show ?case by (auto intro: same_but_mono)
    qed
  qed
qed

lemma writes_cleanupTemps: "writes temps cleanupTemps (\<lambda>_ _. True) d"
  unfolding writes_def cleanupTemps_def wp_or
proof (rule wp_syscall, goal_cases)
  case (1 d1)
  show ?case
    by (simp, rule wp_mono [OF wp_remove_temps]) (use 1 same_but_widen [OF 1(1)] in auto)
qed (auto intro: same_but_mono)

section \<open>Recovery\<close>

definition in_place :: "Validated option \<Rightarrow> (bytes \<times> bytes) option" where
  "in_place s = map_option (\<lambda>v. (artifact_content v, validated_receipt v)) s"

lemma publishable_matches: "publishable v \<Longrightarrow> MatchesProtectedReceipt (artifact_content v) (validated_receipt v) \<noteq> None"
  by (simp add: publishable_def MatchesProtectedReceipt_own)

lemma wp_recover_settled:
  assumes "settled d s"
  shows "writes temps recover (\<lambda>_ _. True) d"
  unfolding writes_def recover_def wp_bind
proof (rule wp_readRegular, goal_cases)
  case (1 d1)
  have "look d PJournal = None" using assms by (simp add: settled_def)
  then show ?case
    by (simp add: read_missing) (rule wp_writes [OF writes_cleanupTemps], use 1 same_but_widen [OF 1(1)] in auto)
qed (auto intro: same_but_mono)

lemma writes_currentOwned:
  assumes "settled d s"
  shows "writes {} currentOwned (\<lambda>owned _. owned = in_place s) d"
  unfolding writes_def currentOwned_def wp_bind
proof (rule wp_readRegular, goal_cases)
  case (1 d1)
  show ?case
  proof (cases s)
    case None
    then have missing: "look d PTarget = None" "look d1 PReceipt = None"
      using assms same_but_unchanged(7) [OF 1(1)] by (simp_all add: settled_def)
    show ?thesis
      by (simp add: read_missing missing) (rule wp_Lstat; use 1 missing None in \<open>auto simp: in_place_def intro: same_but_trans_empty\<close>)
  next
    case (Some v)
    then have here: "publishable v" "holds d PTarget (artifact_content v)" "holds d1 PReceipt (validated_receipt v)"
      using assms same_but_unchanged(3) [OF 1(1)] by (simp_all add: settled_def)
    then have reads: "read_result d PTarget max_target = Inr (artifact_content v)"
      "read_result d1 PReceipt max_receipt = Inr (validated_receipt v)"
      by (simp_all add: read_holds publishable_def)
    show ?thesis
      by (simp add: reads) (rule wp_readRegular;
        use 1 reads Some publishable_matches [OF here(1)] in \<open>auto simp: in_place_def intro: same_but_trans_empty\<close>)
  qed
qed simp_all

text \<open>From a recoverable state, recovery without a further fault reaches the settled one.\<close>

lemma faultless: "faults d' \<le> faults d \<Longrightarrow> faults d = 0 \<Longrightarrow> faults d' = 0" "faults d' < faults d \<Longrightarrow> faults d = 0 \<Longrightarrow> False"
  by simp_all

lemma wp_recover_finish:
  assumes "sound d" "faults d = 0" "look d PJournal \<noteq> None" and s: "settled (d\<lparr>files := AList.delete PJournal (files d)\<rparr>) s"
  shows "wp recover_finish (\<lambda>r d'. r = Inr () \<and> settled d' s \<and> faults d' = 0) (\<lambda>_. False) d"
  unfolding recover_finish_def wp_or
proof (rule wp_Remove, goal_cases)
  case (1 d1)
  have "same_but {} (d\<lparr>files := AList.delete PJournal (files d)\<rparr>) d1"
    using 1 by (auto simp: same_but_def)
  then have "settled d1 s" using s same_but_unchanged(10) by blast
  have "faults d1 = 0" using 1 assms(2) by simp
  have "wp cleanupTemps (\<lambda>r d'. r = Inr () \<and> settled d' s \<and> faults d' = 0) (\<lambda>_. False) d2"
    if "same_but {} d1 d2" "faults d2 = 0" for d2
    by (rule wp_writes [OF writes_cleanupTemps])
      (use that \<open>settled d1 s\<close> same_but_temps(10) [OF _ order.refl] same_but_unchanged(10) [OF that(1)] in auto)
  then show ?case
    using assms(3) \<open>faults d1 = 0\<close> by simp (rule wp_sync, simp_all)
qed (use assms(2) in simp_all)

lemma settled_without_journal:
  assumes "sound d" "case s of None \<Rightarrow> look d PTarget = None \<and> look d PReceipt = None
      | Some v \<Rightarrow> publishable v \<and> holds d PTarget (artifact_content v) \<and> holds d PReceipt (validated_receipt v)"
  shows "settled (d\<lparr>files := AList.delete PJournal (files d)\<rparr>) s"
  using assms by (cases s) (simp_all add: settled_def sound_def holds_def private_or_missing_def)

lemma recoverable_journal:
  assumes "recoverable d s" "look d PJournal = Some f"
  shows "\<exists>j. holds d PJournal j \<and> length j \<le> max_receipt
    \<and> (case s of None \<Rightarrow> True
       | Some v \<Rightarrow> j = validated_receipt v
           \<or> MatchesProtectedReceipt (artifact_content v) j = None \<and> holds d PReceipt (validated_receipt v))"
  using assms by (cases s) (auto simp: recoverable_def stale_journal_def publishable_def holds_def)

lemma wp_recover_journal:
  assumes "recoverable d s" "faults d = 0" "holds d PJournal j"
    and js: "case s of None \<Rightarrow> True | Some v \<Rightarrow> j = validated_receipt v
      \<or> MatchesProtectedReceipt (artifact_content v) j = None \<and> holds d PReceipt (validated_receipt v)"
  shows "wp (recover_journal j) (\<lambda>r d'. r = Inr () \<and> settled d' s \<and> faults d' = 0) (\<lambda>_. False) d"
proof -
  have sound: "sound d" and journal: "look d PJournal \<noteq> None" using assms by (simp_all add: recoverable_def holds_def)
  note finish = wp_recover_finish
  show ?thesis
    unfolding recover_journal_def wp_bind wp_try
  proof (rule wp_readRegular, goal_cases)
    case (1 d1)
    have d1: "sound d1" "look d1 PJournal \<noteq> None" "faults d1 = 0"
      using sound journal 1 assms(2) by (simp_all add: same_but_unchanged [OF 1(1)])
    show ?case
    proof (cases s)
      case None
      then have missing: "look d PTarget = None" "look d PReceipt = None" using assms(1) by (simp_all add: recoverable_def)
      have "settled (d1\<lparr>files := AList.delete PJournal (files d1)\<rparr>) s"
        using missing d1(1) None by (intro settled_without_journal) (simp_all add: same_but_unchanged [OF 1(1)])
      from finish [OF d1(1,3,2) this] show ?thesis by (simp add: read_missing missing)
    next
      case (Some v)
      have v: "publishable v" "holds d PTarget (artifact_content v)" using assms(1) Some by (auto simp: recoverable_def)
      then have content: "read_result d PTarget max_target = Inr (artifact_content v)"
        by (simp add: read_holds publishable_def)
      show ?thesis
      proof (cases "j = validated_receipt v")
        case True
        have "wp (writeAtomic PReceipt j) (\<lambda>r d2. is_ok r \<and> wp recover_finish
            (\<lambda>r d'. r = Inr () \<and> settled d' s \<and> faults d' = 0) (\<lambda>_. False) d2) (\<lambda>_. False) d1"
        proof (rule wp_writeAtomic, goal_cases)
          case (2 d2)
          have looks: "look d2 p = look d1 p" if "p \<in> {PTarget, PPrevious, PJournal}" for p
            using 2(1) that unfolding same_but_def by blast
          have "dir_directory d2 = dir_directory d1" "dir_private d2 = dir_private d1" using 2(1) by (simp_all add: same_but_def)
          then have d2: "sound d2" "look d2 PJournal \<noteq> None" "faults d2 = 0"
            using d1 2(2,3) by (simp_all add: sound_def looks private_or_missing_def)
          have "settled (d2\<lparr>files := AList.delete PJournal (files d2)\<rparr>) s"
            using d2(1) 2(2) True v Some
            by (intro settled_without_journal) (simp_all add: holds_def looks same_but_unchanged [OF 1(1)])
          from finish [OF d2(1,3,2) this] show ?case by simp
        qed (use d1(3) in simp_all)
        then show ?thesis using content True publishable_matches [OF v(1)]
          by simp (erule wp_mono, auto simp: is_ok_def split: sum.splits)
      next
        case False
        then have rest: "MatchesProtectedReceipt (artifact_content v) j = None" "holds d PReceipt (validated_receipt v)"
          using js Some by auto
        have "settled (d1\<lparr>files := AList.delete PJournal (files d1)\<rparr>) s"
          using v rest d1(1) Some by (intro settled_without_journal) (simp_all add: same_but_unchanged [OF 1(1)])
        from finish [OF d1(1,3,2) this] show ?thesis using content rest by simp
      qed
    qed
  qed (use assms(2) in simp_all)
qed

lemma wp_recover:
  assumes "recoverable d s" "faults d = 0"
  shows "wp recover (\<lambda>r d'. r = Inr () \<and> settled d' s \<and> faults d' = 0) (\<lambda>_. False) d"
proof (cases "look d PJournal")
  case None
  then have settled: "settled d s" using assms(1) by (auto simp: recoverable_def settled_def holds_def split: option.splits)
  show ?thesis
    by (rule wp_writes [OF wp_recover_settled [OF settled]])
      (use assms(2) settled same_but_temps(10) [OF _ order.refl] in \<open>auto simp: faults_def\<close>)
next
  case (Some f)
  then obtain j where j: "holds d PJournal j" "length j \<le> max_receipt"
    and js: "case s of None \<Rightarrow> True | Some v \<Rightarrow> j = validated_receipt v
      \<or> MatchesProtectedReceipt (artifact_content v) j = None \<and> holds d PReceipt (validated_receipt v)"
    using recoverable_journal [OF assms(1)] by blast
  have "wp (recover_journal j) (\<lambda>r d'. r = Inr () \<and> settled d' s \<and> faults d' = 0) (\<lambda>_. False) d1"
    if "same_but {} d d1" "faults d1 = 0" for d1
    using assms(1) j(1) js that
    by (intro wp_recover_journal) (simp_all add: same_but_unchanged [OF that(1)] split: option.splits)
  then show ?thesis
    unfolding recover_def wp_bind
    by (intro wp_readRegular) (use assms(2) in \<open>simp_all add: read_holds [OF j]\<close>)
qed

lemma wp_CurrentReceipt:
  assumes "recoverable d s" "faults d = 0"
  shows "wp CurrentReceipt
    (\<lambda>r d'. r = Inr (map_option (\<lambda>v. \<lparr>rcp_encoded = validated_receipt v\<rparr>) s) \<and> settled d' s \<and> faults d' = 0) (\<lambda>_. False) d"
proof -
  let ?r = "map_option (\<lambda>v. \<lparr>rcp_encoded = validated_receipt v\<rparr>) s"
  have sound: "sound d" using assms(1) by (simp add: recoverable_def)
  have read: "wp currentOwned (\<lambda>r d'. r = Inr (in_place s) \<and> settled d' s \<and> faults d' = 0) (\<lambda>_. False) d2"
    if "settled d2 s" "faults d2 = 0" for d2
    by (rule wp_writes [OF writes_currentOwned [OF that(1)]]) (use that in \<open>simp_all add: same_but_unchanged\<close>)
  have restore: "RestoreReceipt (validated_receipt v) = Inr \<lparr>rcp_encoded = validated_receipt v\<rparr>" if "s = Some v" for v
    using assms(1) that by (simp add: RestoreReceipt_wf recoverable_def publishable_def)
  have owned: "wp currentOwned (\<lambda>r. case r of Inl e \<Rightarrow> (\<lambda>d'. False) | Inr owned \<Rightarrow> wp (case owned of
       None \<Rightarrow> io_return (Inr None)
     | Some (content, encoded) \<Rightarrow>
         (case RestoreReceipt encoded of
            Inl _ \<Rightarrow> io_return (Inl (ownershipError ''receipt_decode''))
          | Inr receipt \<Rightarrow> io_return (Inr (Some receipt)))) (\<lambda>r d'. r = Inr ?r \<and> settled d' s \<and> faults d' = 0) (\<lambda>_. False)) (\<lambda>_. False) d2"
    if "settled d2 s" "faults d2 = 0" for d2
    using read [OF that] by (rule wp_mono) (use restore in \<open>auto simp: in_place_def split: option.splits\<close>)
  have "wp recover (\<lambda>r d2. r = Inr () \<and> settled d2 s \<and> faults d2 = 0) (\<lambda>_. False) d1"
    if "same_but {} d d1" "faults d1 \<le> faults d" for d1
    using that assms by (intro wp_recover) (simp_all add: same_but_unchanged)
  note recovered = this
  show ?thesis
    unfolding CurrentReceipt_def wp_try
    by (rule wp_writes [OF writes_validateDirectory [OF sound]])
      (use assms(2) in \<open>auto intro!: wp_mono [OF recovered] wp_mono [OF owned] split: sum.splits\<close>)
qed

section \<open>Publication under one fault\<close>

definition owns :: "disk \<Rightarrow> Validated option \<Rightarrow> bool" where
  "owns d s \<longleftrightarrow>
     (case s of
        None \<Rightarrow> look d PTarget = None \<and> look d PReceipt = None
      | Some v \<Rightarrow> publishable v \<and> holds d PTarget (artifact_content v) \<and> holds d PReceipt (validated_receipt v))"

text \<open>The new artifact cannot be mistaken for the old one.\<close>

definition replaces :: "Validated option \<Rightarrow> Validated \<Rightarrow> bool" where
  "replaces s w \<longleftrightarrow> publishable w
     \<and> (\<forall>v. s = Some v \<longrightarrow> MatchesProtectedReceipt (artifact_content v) (validated_receipt w) = None)"

text \<open>The backup of the old artifact, and the state after the rename of the new one into place.\<close>

definition backed_up :: "disk \<Rightarrow> Validated option \<Rightarrow> bool" where
  "backed_up d s \<longleftrightarrow> (\<forall>v. s = Some v \<longrightarrow> publishable v \<and> holds d PPrevious (artifact_content v))"

definition committing :: "disk \<Rightarrow> Validated option \<Rightarrow> Validated \<Rightarrow> bool" where
  "committing d s w \<longleftrightarrow> sound d \<and> publishable w \<and> holds d PTarget (artifact_content w) \<and> holds d PJournal (validated_receipt w)
     \<and> backed_up d s"

lemma committing_recoverable: "committing d s w \<Longrightarrow> recoverable d (Some w)"
  by (simp add: committing_def recoverable_def)

lemma settled_iff: "settled d s \<longleftrightarrow> sound d \<and> look d PJournal = None \<and> owns d s"
  by (auto simp: settled_def owns_def)

lemma recoverable_owns:
  assumes "sound d" "owns d s" "look d PJournal = None \<or> replaces s w \<and> holds d PJournal (validated_receipt w)"
  shows "recoverable d s"
  using assms by (cases s) (auto simp: recoverable_def owns_def stale_journal_def replaces_def publishable_def holds_def)

text \<open>Changing one of the four paths to a private file or removing it keeps the directory sound.\<close>

lemma sound_change:
  assumes "sound d" "same_but (insert p ps) d d'" "ps \<subseteq> temps" "private_or_missing (look d' p)"
  shows "sound d'"
proof -
  have "look d' q = look d q" if "q \<noteq> p" "q \<in> {PTarget, PReceipt, PPrevious, PJournal}" for q
    using assms(2,3) that unfolding same_but_def by blast
  then have "private_or_missing (look d' q)" if "q \<in> {PTarget, PReceipt, PPrevious, PJournal}" for q
    using assms(1,4) that by (cases "q = p") (auto simp: sound_def)
  then show ?thesis using assms(1,2) by (auto simp: sound_def same_but_def)
qed

lemma look_other: "same_but (insert p ps) d d' \<Longrightarrow> ps \<subseteq> temps \<Longrightarrow> q \<noteq> p \<Longrightarrow> q \<notin> temps \<Longrightarrow> look d' q = look d q"
  unfolding same_but_def by blast

lemma metadata_temps: "range (PTemp ''metadata'') \<subseteq> temps"
  by auto

lemma wp_drop_journal:
  assumes "sound d" "owns d s" "faults d = 0"
  shows "wp (io_bind (os_Remove PJournal) (\<lambda>_. io_bind syncDirectory (\<lambda>_. io_return r)))
    (\<lambda>r' d'. r' = r \<and> settled d' s) (\<lambda>_. False) d"
  unfolding wp_bind wp_return
proof (rule wp_Remove, goal_cases)
  case (1 d1)
  note other = look_other [OF 1(1) empty_subsetI]
  have "sound d1" by (rule sound_change [OF assms(1) 1(1) empty_subsetI]) (simp add: 1(2) private_or_missing_def)
  then have "settled d1 s" using 1(2) assms(2) by (cases s) (simp_all add: settled_iff owns_def holds_def other)
  then show ?case
    using 1(3) assms(3) by (intro wp_sync) (auto dest: same_but_unchanged(10))
qed (use assms(3) in simp_all)

lemma wp_rollback_some:
  assumes "sound d" "faults d = 0" "backed_up d (Some v)"
  shows "wp (rollback_files (in_place (Some v))) (\<lambda>_ d'. sound d' \<and> owns d' (Some v) \<and> faults d' = 0) (\<lambda>_. False) d"
proof -
  have v: "publishable v" "look d PPrevious = Some (private_file (artifact_content v))"
    using assms(3) by (simp_all add: backed_up_def holds_def)
  have receipt: "wp (writeAtomic PReceipt (validated_receipt v)) (\<lambda>_ d'. sound d' \<and> owns d' (Some v) \<and> faults d' = 0) (\<lambda>_. False) d1"
    if "sound d1" "holds d1 PTarget (artifact_content v)" "faults d1 = 0" for d1
  proof (rule wp_writeAtomic, goal_cases)
    case (2 d2)
    note other = look_other [OF 2(1) metadata_temps]
    have "sound d2" by (rule sound_change [OF that(1) 2(1) metadata_temps]) (auto simp: 2(2) private_or_missing_def)
    then show ?case using that 2 v(1) by (simp add: owns_def holds_def other)
  qed (use that(3) in simp_all)
  show ?thesis
    unfolding rollback_files_def in_place_def option.map option.case prod.case wp_bind wp_return
  proof (rule wp_Rename [OF v(2)], goal_cases)
    case (2 d1)
    have "look d1 q = look d q" if "q \<in> {PReceipt, PJournal}" for q using 2(1) that unfolding same_but_def by blast
    then have "sound d1" using assms(1) 2 by (auto simp: sound_def same_but_def private_or_missing_def)
    then show ?case using 2 assms(2) by (intro receipt) (simp_all add: holds_def)
  qed (use assms(2) in simp_all)
qed

lemma wp_rollback_none:
  assumes "sound d" "faults d = 0"
  shows "wp (rollback_files (in_place None)) (\<lambda>_ d'. sound d' \<and> owns d' None \<and> faults d' = 0) (\<lambda>_. False) d"
  unfolding rollback_files_def in_place_def option.map option.case wp_bind wp_return
proof (rule wp_Remove, goal_cases)
  case (1 d1)
  have d1: "sound d1" by (rule sound_change [OF assms(1) 1(1) empty_subsetI]) (simp add: 1(2) private_or_missing_def)
  show ?case
  proof (rule wp_Remove, goal_cases)
    case (1 d2)
    have "sound d2" by (rule sound_change [OF d1 1(1) empty_subsetI]) (simp add: 1(2) private_or_missing_def)
    then show ?case
      using 1 \<open>look d1 PTarget = None\<close> \<open>faults d1 \<le> faults d\<close> assms(2) look_other [OF 1(1) empty_subsetI]
      by (simp add: owns_def)
  qed (use 1(3) assms(2) in simp_all)
qed (use assms(2) in simp_all)

lemma wp_rollback:
  assumes "sound d" "faults d = 0" "backed_up d s"
  shows "wp (rollback (in_place s) c) (\<lambda>r d'. \<not> is_ok r \<and> settled d' s) (\<lambda>_. False) d"
proof -
  have files: "wp (rollback_files (in_place s)) (\<lambda>_ d'. sound d' \<and> owns d' s \<and> faults d' = 0) (\<lambda>_. False) d"
    using assms wp_rollback_none wp_rollback_some by (cases s) auto
  show ?thesis
    unfolding rollback_def wp_bind [of "rollback_files _"]
    by (rule wp_mono [OF files]) (elim conjE, rule wp_mono [OF wp_drop_journal], assumption+, simp_all)
qed

definition either :: "Validated option \<Rightarrow> Validated \<Rightarrow> disk \<Rightarrow> bool" where
  "either s w d \<longleftrightarrow> recoverable d s \<or> recoverable d (Some w)"

definition published :: "Validated option \<Rightarrow> Validated \<Rightarrow> (publish_Failure + Publication) \<Rightarrow> disk \<Rightarrow> bool" where
  "published s w r d \<longleftrightarrow>
     (case r of
        Inl _ \<Rightarrow> either s w d
      | Inr p \<Rightarrow> publication_Profile p = art_profile (val_candidate w) \<and> publication_Changed p \<and> recoverable d (Some w))"

lemma committing_owns:
  "committing d s w \<Longrightarrow> holds d PReceipt (validated_receipt w) \<Longrightarrow> owns d (Some w)"
  by (simp add: committing_def owns_def)

lemma committing_same: "same_but {} d d' \<Longrightarrow> committing d' s w = committing d s w"
  by (simp add: committing_def backed_up_def same_but_unchanged [of d d'])

lemma committing_either: "committing d s w \<Longrightarrow> either s w d"
  by (simp add: either_def committing_recoverable)

lemma settled_either: "settled d s \<Longrightarrow> either s w d"
  by (simp add: either_def settled_recoverable)

lemma wp_publish_finish:
  assumes "committing d s w" "holds d PReceipt (validated_receipt w)"
  shows "wp (publish_finish w) (published s w) (either s w) d"
  unfolding publish_finish_def wp_bind
proof (rule wp_Remove, goal_cases)
  case (1 d1)
  note other = look_other [OF 1(1) empty_subsetI]
  have "sound d1" using assms(1) 1(2)
    by (intro sound_change [OF _ 1(1) empty_subsetI]) (simp_all add: committing_def private_or_missing_def)
  moreover have "owns d1 (Some w)" using committing_owns [OF assms] by (simp add: owns_def holds_def other)
  ultimately have "recoverable d1 (Some w)" using 1(2) by (intro recoverable_owns) simp_all
  then have same: "recoverable d2 (Some w)" if "same_but {} d1 d2" for d2 using same_but_unchanged(11) [OF that] by simp
  have "wp syncDirectory (\<lambda>r. case r of Inl _ \<Rightarrow> published s w (Inl (publicationError ''receipt_sync''))
      | Inr _ \<Rightarrow> published s w (Inr \<lparr>publication_Profile = art_profile (val_candidate w), publication_Changed = True\<rparr>)) (either s w) d1"
    by (rule wp_sync) (auto simp: published_def either_def dest: same)
  then show ?case by (simp add: ignore_missing_def cong: sum.case_cong)
next
  case (2 d1)
  then show ?case using assms(1) by (simp add: ignore_missing_def published_def committing_either committing_same)
next
  case (3 d1)
  then show ?case using assms(1) by (simp add: committing_either committing_same)
qed

lemma wp_rollback_published:
  assumes "sound d" "faults d = 0" "backed_up d s"
  shows "wp (rollback (in_place s) c) (published s w) (either s w) d"
  by (rule wp_mono [OF wp_rollback [OF assms]]) (auto simp: published_def settled_either is_ok_def split: sum.splits)

lemma committing_rollback: "committing d s w \<Longrightarrow> faults d = 0 \<Longrightarrow> wp (rollback (in_place s) c) (published s w) (either s w) d"
  by (rule wp_rollback_published) (simp_all add: committing_def)

lemma wp_receipt_commit:
  assumes "committing d s w" "faults d \<le> 1"
  shows "wp (writeAtomic PReceipt (validated_receipt w))
    (\<lambda>r. if \<not> is_ok r then wp (rollback (in_place s) c) (published s w) (either s w)
         else wp (publish_finish w) (published s w) (either s w)) (either s w) d"
proof -
  have keep: "committing d' s w" if "same_but (insert PReceipt (range (PTemp ''metadata''))) d d'" "private_or_missing (look d' PReceipt)" for d'
    using assms(1) sound_change [OF _ that(1) metadata_temps that(2)] look_other [OF that(1) metadata_temps]
    by (simp add: committing_def backed_up_def holds_def)
  have receipt_private: "private_or_missing (look d PReceipt)" using assms(1) by (simp add: committing_def sound_def)
  show ?thesis
  proof (rule wp_writeAtomic, goal_cases)
    case 1
    then show ?case by simp
  next
    case (2 d1)
    then show ?case using wp_publish_finish [OF keep [OF 2(1)]] by (auto simp: holds_def private_or_missing_def)
  next
    case (3 e d1)
    then have "committing d1 s w" using receipt_private by (intro keep) (auto simp: private_or_missing_def)
    then show ?case using 3(3) assms(2) committing_rollback by simp
  next
    case (4 d1)
    then have "committing d1 s w" using receipt_private by (intro keep) (auto simp: private_or_missing_def)
    then show ?case by (rule committing_either)
  qed
qed

lemma wp_publish_confirm:
  assumes "committing d s w" "faults d \<le> 1"
  shows "wp (publish_confirm w (in_place s) (validated_receipt w)) (published s w) (either s w) d"
proof -
  have read: "wp (readRegular PTarget (length (artifact_content w) + 1)) (\<lambda>r. if r \<noteq> Inr (artifact_content w)
      then wp (rollback (in_place s) ''readback'') (published s w) (either s w)
      else wp (writeAtomic PReceipt (validated_receipt w))
        (\<lambda>r. if \<not> is_ok r then wp (rollback (in_place s) ''receipt_commit'') (published s w) (either s w)
             else wp (publish_finish w) (published s w) (either s w)) (either s w)) (either s w) d1"
    if d1: "committing d1 s w" "faults d1 \<le> 1" for d1
  proof (rule wp_readRegular, goal_cases)
    case (1 d2)
    have "read_result d1 PTarget (length (artifact_content w) + 1) = Inr (artifact_content w)"
      using d1(1) by (simp add: committing_def read_holds)
    then show ?case using wp_receipt_commit [of d2 s w] d1 1 by (simp add: committing_same)
  next
    case (2 d2)
    then show ?case using committing_rollback [of d2 s w] d1 by (simp add: committing_same)
  next
    case (3 d2)
    then show ?case using d1 by (simp add: committing_same committing_either)
  qed
  have "wp syncDirectory (\<lambda>r. if \<not> is_ok r then wp (rollback (in_place s) ''target_sync'') (published s w) (either s w)
      else wp (readRegular PTarget (length (artifact_content w) + 1)) (\<lambda>r. if r \<noteq> Inr (artifact_content w)
        then wp (rollback (in_place s) ''readback'') (published s w) (either s w)
        else wp (writeAtomic PReceipt (validated_receipt w))
          (\<lambda>r. if \<not> is_ok r then wp (rollback (in_place s) ''receipt_commit'') (published s w) (either s w)
               else wp (publish_finish w) (published s w) (either s w)) (either s w)) (either s w)) (either s w) d"
    by (rule wp_sync)
      (use assms read committing_rollback in \<open>simp_all add: committing_same committing_either\<close>)
  then show ?thesis by (simp add: publish_confirm_def Let_def if_distrib [where f = "\<lambda>m. wp m (published s w) (either s w)"] cong: if_cong)
qed

lemma either_temps: "same_but ps d d' \<Longrightarrow> ps \<subseteq> temps \<Longrightarrow> either s w d' = either s w d"
  by (simp add: either_def same_but_temps(11) [of ps d d'])

lemma published_temps: "same_but ps d d' \<Longrightarrow> ps \<subseteq> temps \<Longrightarrow> published s w r d' = published s w r d"
  by (cases r) (simp_all add: published_def either_temps [of ps d d'] same_but_temps(11) [of ps d d'])

lemma published_either: "published s w r d \<Longrightarrow> either s w d"
  by (auto simp: published_def either_def split: sum.splits)

lemma wp_with_cleanup:
  assumes "wp m (published s w) (either s w) d" "t \<in> temps"
  shows "wp (with_cleanup t m) (published s w) (either s w) d"
proof -
  have sub: "{t} \<subseteq> temps" using assms(2) by simp
  have "wp (os_Remove t) (\<lambda>_. published s w r) (either s w) d1" if "published s w r d1" for r d1
    by (rule wp_Remove) (use that published_either published_temps [OF _ sub] published_temps [OF _ empty_subsetI] in metis)+
  then show ?thesis
    unfolding with_cleanup_def wp_bind wp_return by (intro wp_mono [OF assms(1)]) simp_all
qed

lemma wp_abandon:
  assumes "sound d" "owns d s" "replaces s w" "holds d PJournal (validated_receipt w)"
  shows "wp (abandon c) (published s w) (either s w) d"
proof -
  have here: "recoverable d s" using assms by (blast intro: recoverable_owns)
  have sync: "wp syncDirectory (\<lambda>_. published s w (Inl (publicationError c))) (either s w) d1" if "recoverable d1 s" for d1
    by (rule wp_sync) (use that in \<open>auto simp: published_def either_def dest: same_but_unchanged(11)\<close>)
  show ?thesis
    unfolding abandon_def wp_bind wp_return
  proof (rule wp_Remove, goal_cases)
    case (1 d1)
    note other = look_other [OF 1(1) empty_subsetI]
    have "sound d1" by (rule sound_change [OF assms(1) 1(1) empty_subsetI]) (simp add: 1(2) private_or_missing_def)
    moreover have "owns d1 s" using assms(2) by (cases s) (simp_all add: owns_def holds_def other)
    ultimately show ?case using 1(2) by (intro sync recoverable_owns) simp_all
  next
    case (2 d1)
    then show ?case using here by (intro sync) (simp add: same_but_unchanged(11) [of d d1])
  next
    case (3 d1)
    then show ?case using here by (simp add: either_def same_but_unchanged(11) [of d d1])
  qed
qed

definition prepared :: "disk \<Rightarrow> Validated option \<Rightarrow> Validated \<Rightarrow> path \<Rightarrow> bool" where
  "prepared d s w t \<longleftrightarrow> sound d \<and> owns d s \<and> backed_up d s \<and> replaces s w
     \<and> (\<exists>n. t = PTemp ''candidate'' n) \<and> holds d t (artifact_content w)"

lemma prepared_same: "same_but {} d d' \<Longrightarrow> prepared d s w t \<Longrightarrow> prepared d' s w t"
  using same_but_empty [of d d'] same_but_unchanged [of d d']
  by (cases s) (auto simp: prepared_def backed_up_def owns_def holds_def)

lemma wp_target_commit:
  assumes "prepared d s w t" "holds d PJournal (validated_receipt w)" "faults d \<le> 1"
  shows "wp (os_Rename t PTarget) (\<lambda>r. if \<not> is_ok r then wp (abandon ''target_commit'') (published s w) (either s w)
      else wp (publish_confirm w (in_place s) (validated_receipt w)) (published s w) (either s w)) (either s w) d"
proof -
  have t: "look d t = Some (private_file (artifact_content w))" "t \<noteq> PTarget" and temp: "t \<in> temps"
    using assms(1) by (auto simp: prepared_def holds_def)
  show ?thesis
  proof (rule wp_Rename [OF t], goal_cases)
    case (1 d1)
    have d1: "same_but (insert PTarget {t}) d d1" using 1(1) by (simp add: insert_commute)
    note other = look_other [OF d1, simplified]
    have "sound d1" using assms(1) temp 1(3)
      by (intro sound_change [OF _ d1]) (auto simp: prepared_def private_or_missing_def)
    then have "committing d1 s w"
      using assms(1,2) 1(3) temp by (auto simp: committing_def prepared_def replaces_def backed_up_def holds_def other)
    then show ?case using 1(4) assms(3) wp_publish_confirm by simp
  next
    case (2 d1)
    have "prepared d1 s w t" by (rule prepared_same [OF 2(1) assms(1)])
    then show ?case
      using wp_abandon [of d1 s w] assms(2) same_but_unchanged(5) [OF 2(1)] by (simp add: prepared_def)
  next
    case (3 d1)
    have "prepared d1 s w t" by (rule prepared_same [OF 3(1) assms(1)])
    then have "recoverable d1 s"
      using assms(2) same_but_unchanged(5) [OF 3(1)] by (intro recoverable_owns) (auto simp: prepared_def)
    then show ?case by (simp add: either_def)
  qed
qed

lemma wp_publish_commit:
  assumes "prepared d s w t" "look d PJournal = None" "faults d \<le> 1"
  shows "wp (publish_commit w later (in_place s) (validated_receipt w) t) (published s w) (either s w) d"
proof -
  have keep: "prepared d1 s w t" if d1: "same_but (insert PJournal (range (PTemp ''metadata''))) d d1"
    "private_or_missing (look d1 PJournal)" for d1
  proof -
    note other = look_other [OF d1(1) metadata_temps]
    have "sound d1" using assms(1) by (intro sound_change [OF _ d1(1) metadata_temps d1(2)]) (simp add: prepared_def)
    moreover have "t \<notin> insert PJournal (range (PTemp ''metadata''))" using assms(1) by (auto simp: prepared_def)
    then have "look d1 t = look d t" using d1(1) unfolding same_but_def by blast
    ultimately show ?thesis using assms(1) by (cases s) (simp_all add: prepared_def owns_def backed_up_def holds_def other)
  qed
  have faulty: "either s w d1" if d1: "same_but (insert PJournal (range (PTemp ''metadata''))) d d1"
    "look d1 PJournal = look d PJournal \<or> look d1 PJournal = Some (private_file (validated_receipt w))" for d1
  proof -
    have "prepared d1 s w t" using d1 assms(2) by (intro keep) (auto simp: private_or_missing_def)
    then have "recoverable d1 s" using d1(2) assms(2) by (intro recoverable_owns [of _ _ w]) (auto simp: prepared_def holds_def)
    then show ?thesis by (simp add: either_def)
  qed
  show ?thesis
    unfolding publish_commit_def wp_or
  proof (rule wp_writeAtomic, goal_cases)
    case (2 d1)
    have d1: "prepared d1 s w t" "holds d1 PJournal (validated_receipt w)" "faults d1 \<le> 1"
      using 2 assms(3) keep by (auto simp: holds_def private_or_missing_def)
    then have "wp (abandon ''cancelled'') (published s w) (either s w) d1"
      by (intro wp_abandon) (simp_all add: prepared_def)
    then show ?case using wp_target_commit [OF d1]
      by (simp add: if_distrib [where f = "\<lambda>m. wp m (published s w) (either s w)"] cong: if_cong)
  qed (use faulty in \<open>simp_all add: published_def\<close>)
qed

lemma kind_temps: "range (PTemp kind) \<subseteq> temps"
  by auto

lemma settled_prepared_none:
  assumes "settled d None" "replaces None w" "t = PTemp ''candidate'' n" "holds d t (artifact_content w)"
  shows "prepared d None w t"
  using assms by (simp add: prepared_def settled_iff backed_up_def)

lemma wp_backup_commit:
  assumes "settled d (Some v)" "replaces (Some v) w" "t = PTemp ''candidate'' n" "holds d t (artifact_content w)"
    and "b = PTemp ''previous'' k" "holds d b (artifact_content v)" "faults d \<le> 1"
  shows "wp (publish_backup w later (in_place (Some v)) (validated_receipt w) t b) (published (Some v) w) (either (Some v) w) d"
proof -
  have faulty: "either (Some v) w d1" if "same_but {} d d1" for d1
    using settled_either [OF assms(1)] either_temps [OF that empty_subsetI] by simp
  have b: "look d b = Some (private_file (artifact_content v))" "b \<noteq> PPrevious" using assms(5,6) by (simp_all add: holds_def)
  show ?thesis
    unfolding publish_backup_def wp_or
  proof (rule wp_Rename [OF b], goal_cases)
    case (1 d1)
    have d1: "same_but (insert PPrevious {b}) d d1" and sub: "{b} \<subseteq> temps" using 1(1) assms(5) by (simp_all add: insert_commute)
    note other = look_other [OF d1 sub]
    have "sound d1" using assms(1) 1(3) by (intro sound_change [OF _ d1 sub]) (auto simp: settled_iff private_or_missing_def)
    moreover have "look d1 t = look d t" using d1 assms(3,5) by (simp add: same_but_def)
    ultimately have prep: "prepared d1 (Some v) w t" "look d1 PJournal = None" "faults d1 \<le> 1"
      using assms 1(3,4) by (simp_all add: prepared_def settled_iff owns_def backed_up_def holds_def other)
    then have recov: "either (Some v) w d1"
      by (auto simp: either_def prepared_def intro!: recoverable_owns)
    have "wp syncDirectory (\<lambda>r. case r of Inl _ \<Rightarrow> published (Some v) w (Inl (publicationError ''backup_sync''))
        | Inr _ \<Rightarrow> wp (publish_commit w later (in_place (Some v)) (validated_receipt w) t) (published (Some v) w) (either (Some v) w))
        (either (Some v) w) d1"
    proof (rule wp_sync, goal_cases)
      case (1 d2)
      then show ?case
        using prep by (auto intro!: wp_publish_commit prepared_same [OF 1(1)] simp: same_but_unchanged(9) [OF 1(1)])
    qed (use recov in \<open>auto simp: published_def dest: either_temps [OF _ empty_subsetI]\<close>)
    then show ?case by simp
  qed (use faulty in \<open>simp_all add: published_def\<close>)
qed

lemma wp_publish_staged:
  assumes "settled d s" "replaces s w" "t = PTemp ''candidate'' n" "holds d t (artifact_content w)" "faults d \<le> 1"
  shows "wp (publish_staged w later (in_place s) (validated_receipt w) t) (published s w) (either s w) d"
proof (cases s)
  case None
  have "prepared d None w t" using None assms by (intro settled_prepared_none) simp_all
  moreover have "look d PJournal = None" using assms(1) by (simp add: settled_def)
  ultimately show ?thesis
    using None assms(5) wp_publish_commit [of d None w t later] by (simp add: publish_staged_def in_place_def)
next
  case (Some v)
  have "wp (io_or (stage ''previous'' (artifact_content v)) (publicationError ''backup_stage'') (\<lambda>backup.
      with_cleanup backup (publish_backup w later (in_place s) (validated_receipt w) t backup))) (published s w) (either s w) d"
    unfolding wp_or
  proof (rule wp_writes [OF writes_stage], goal_cases)
    case (1 b d2)
    then obtain k where b: "b = PTemp ''previous'' k" "holds d2 b (artifact_content v)" by (auto simp: holds_def)
    have d2: "settled d2 (Some v)" using assms(1) Some same_but_temps(10) [OF 1(1) kind_temps] by simp
    have "t \<notin> range (PTemp ''previous'')" using assms(3) by auto
    then have t: "holds d2 t (artifact_content w)" using assms(4) 1(1) unfolding holds_def same_but_def by metis
    have "wp (publish_backup w later (in_place s) (validated_receipt w) t b) (published s w) (either s w) d2"
      using wp_backup_commit [OF d2 _ assms(3) t b] Some assms(2,5) 1(3) by simp
    then show ?case using wp_with_cleanup [of _ s w d2 b] b(1) by simp
  qed (use settled_either [OF assms(1)] either_temps [OF _ kind_temps] in \<open>auto simp: published_def\<close>)
  then show ?thesis unfolding publish_staged_def using Some by (simp only: in_place_def option.map option.case prod.case)
qed

lemma wp_publish_change:
  assumes "settled d s" "replaces s w" "faults d \<le> 1"
  shows "wp (publish_change w later (in_place s) (validated_receipt w)) (published s w) (either s w) d"
  unfolding publish_change_def wp_or
proof (rule wp_writes [OF writes_stage], goal_cases)
  case (1 t d1)
  then obtain n where t: "t = PTemp ''candidate'' n" "holds d1 t (artifact_content w)" by (auto simp: holds_def)
  have d1: "settled d1 s" "faults d1 \<le> 1" using assms(1,3) 1(1,3) same_but_temps(10) [OF 1(1) kind_temps] by simp_all
  show ?case
    using wp_with_cleanup [OF wp_publish_staged [OF d1(1) assms(2) t d1(2)]] t(1) by simp
qed (use settled_either [OF assms(1)] either_temps [OF _ kind_temps] in \<open>auto simp: published_def\<close>)

lemma replaces_different:
  assumes "publishable w" "Profile_short (art_profile (val_candidate w))"
    and "\<And>v. s = Some v \<Longrightarrow> artifact_content v \<noteq> artifact_content w"
    and "\<And>v. s = Some v \<Longrightarrow> \<not> sha256_collision
      (generation_input \<lparr>art_profile = art_profile (val_candidate w), art_content = artifact_content v\<rparr>) (generation_input (val_candidate w))"
  shows "replaces s w"
  unfolding replaces_def
proof (intro conjI allI impI)
  fix v assume s: "s = Some v"
  let ?c = "\<lparr>art_profile = art_profile (val_candidate w), art_content = artifact_content v\<rparr>"
  have "?c \<noteq> val_candidate w" using assms(3) [OF s] by (metis ArtifactCandidate.select_convs(2))
  then have "generation ?c \<noteq> generation (val_candidate w)"
    using generation_input_inj [of ?c "val_candidate w"] assms(2) assms(4) [OF s]
    by (auto simp: generation_def sha256_collision_def)
  then show "MatchesProtectedReceipt (artifact_content v) (validated_receipt w) = None"
    using assms(1) by (simp add: publishable_def MatchesProtectedReceipt_wf)
qed (rule assms(1))

text \<open>Publication of the content that is already in place leaves it alone.\<close>

definition published_or_same :: "Validated option \<Rightarrow> Validated \<Rightarrow> (publish_Failure + Publication) \<Rightarrow> disk \<Rightarrow> bool" where
  "published_or_same s w r d \<longleftrightarrow>
     either s w d
     \<and> (\<forall>p. r = Inr p \<longrightarrow> publication_Profile p = art_profile (val_candidate w)
          \<and> (if publication_Changed p then recoverable d (Some w)
             else \<exists>v. s = Some v \<and> artifact_content v = artifact_content w \<and> recoverable d (Some v)))"

lemma published_weaken: "published s w r d \<Longrightarrow> published_or_same s w r d"
  by (auto simp: published_def published_or_same_def either_def split: sum.splits)

lemma wp_Publish:
  assumes "settled d s" "publishable w" "faults d \<le> 1"
    and "\<And>v. s = Some v \<Longrightarrow> artifact_content v \<noteq> artifact_content w \<Longrightarrow> replaces s w" "s = None \<Longrightarrow> replaces s w"
  shows "wp (Publish w entry later) (published_or_same s w) (either s w) d"
proof -
  have change: "wp (publish_change w later (in_place s) (validated_receipt w)) (published_or_same s w) (either s w) d1"
    if "settled d1 s" "faults d1 \<le> 1" "replaces s w" for d1
    using wp_publish_change [OF that(1,3,2)] by (rule wp_mono) (simp_all add: published_weaken)
  have fail: "published_or_same s w (Inl e) d1" if "settled d1 s" for d1 e
    using settled_either [OF that] by (simp add: published_or_same_def)
  have receipt: "ProtectedReceipt w = Inr (validated_receipt w)"
    using assms(2) by (simp add: publishable_def ProtectedReceipt_wf)
  have owned: "wp (io_try currentOwned (publish_owned w later)) (published_or_same s w) (either s w) d1"
    if d1: "settled d1 s" "faults d1 \<le> 1" for d1
    unfolding wp_try
  proof (rule wp_writes [OF writes_currentOwned [OF d1(1)]], goal_cases)
    case (1 owned d2)
    have d2: "settled d2 s" "faults d2 \<le> 1" using d1 1 same_but_unchanged(10) [OF 1(1)] by simp_all
    show ?case
    proof (cases s)
      case None
      then show ?thesis using change [OF d2] assms(5) 1(2) receipt by (simp add: in_place_def publish_owned_def)
    next
      case (Some v)
      have "either s w d2" "recoverable d2 (Some v)"
        using d2(1) Some by (simp_all add: settled_either settled_recoverable)
      then show ?thesis
        using change [OF d2] assms(4) [OF Some] 1(2) receipt Some fail [OF d2(1)]
        by (auto simp: in_place_def published_or_same_def publish_owned_def)
    qed
  next
    case (2 e d2)
    then show ?case using d1(1) same_but_unchanged(10) [OF 2(1)] by (simp add: fail)
  next
    case (3 d2)
    then show ?case using d1(1) same_but_unchanged(10) [OF 3(1)] by (simp add: settled_either)
  qed
  have recovered: "wp (io_try recover (\<lambda>_. if ctx_done entry then io_return (Inl (publicationError ''cancelled''))
      else io_try currentOwned (publish_owned w later))) (published_or_same s w) (either s w) d1"
    if d1: "same_but {} d d1" "faults d1 \<le> faults d" for d1
  proof -
    have "settled d1 s" using assms(1) same_but_unchanged(10) [OF d1(1)] by simp
    then show ?thesis
      unfolding wp_try [of recover]
      by (intro wp_writes [OF wp_recover_settled], assumption)
        (use d1(2) assms(3) owned fail in \<open>auto simp: same_but_temps(10) [OF _ order.refl] simp del: wp_try intro: settled_either\<close>)
  qed
  have sound: "sound d" using assms(1) by (simp add: settled_def)
  show ?thesis
    unfolding Publish_def wp_try [of validateDirectory]
    by (rule wp_writes [OF writes_validateDirectory [OF sound]])
      (use recovered fail settled_either assms(1) in \<open>auto simp: same_but_unchanged(10) simp del: wp_try\<close>)
qed

section \<open>Publication without faults\<close>

definition installed :: "Validated \<Rightarrow> (publish_Failure + Publication) \<Rightarrow> disk \<Rightarrow> bool" where
  "installed w r d \<longleftrightarrow> r = Inr \<lparr>publication_Profile = art_profile (val_candidate w), publication_Changed = True\<rparr>
     \<and> settled d (Some w) \<and> faults d = 0"

abbreviation never :: "disk \<Rightarrow> bool" where "never \<equiv> \<lambda>_. False"

lemma installed_temps:
  "installed w r d \<Longrightarrow> same_but ps d d' \<Longrightarrow> ps \<subseteq> temps \<Longrightarrow> faults d' \<le> faults d \<Longrightarrow> installed w r d'"
  by (simp add: installed_def same_but_temps(10) [of ps d d'])

lemma install_cleanup:
  assumes "wp m (installed w) never d" "t \<in> temps"
  shows "wp (with_cleanup t m) (installed w) never d"
proof -
  have sub: "{t} \<subseteq> temps" using assms(2) by simp
  have "wp (os_Remove t) (\<lambda>_. installed w r) never d1" if "installed w r d1" for r d1
    by (rule wp_Remove) (use that installed_temps [OF that _ sub] in \<open>auto simp: installed_def\<close>)
  then show ?thesis
    unfolding with_cleanup_def wp_bind wp_return by (intro wp_mono [OF assms(1)]) simp_all
qed

lemma install_finish:
  assumes "committing d s w" "holds d PReceipt (validated_receipt w)" "faults d = 0"
  shows "wp (publish_finish w) (installed w) never d"
  unfolding publish_finish_def wp_bind
proof (rule wp_Remove, goal_cases)
  case (1 d1)
  note other = look_other [OF 1(1) empty_subsetI]
  have "sound d1" using assms(1) 1(2)
    by (intro sound_change [OF _ 1(1) empty_subsetI]) (simp_all add: committing_def private_or_missing_def)
  moreover have "owns d1 (Some w)" using committing_owns [OF assms(1,2)] by (simp add: owns_def holds_def other)
  ultimately have "settled d1 (Some w)" using 1(2) by (simp add: settled_iff)
  then have "wp syncDirectory (\<lambda>r. case r of Inl _ \<Rightarrow> installed w (Inl (publicationError ''receipt_sync''))
      | Inr _ \<Rightarrow> installed w (Inr \<lparr>publication_Profile = art_profile (val_candidate w), publication_Changed = True\<rparr>)) never d1"
    using 1(3) assms(3) by (intro wp_sync) (auto simp: installed_def dest: same_but_unchanged(10))
  then show ?case by (simp add: ignore_missing_def cong: sum.case_cong)
qed (use assms(3) in simp_all)

lemma install_receipt:
  assumes "committing d s w" "faults d = 0"
  shows "wp (writeAtomic PReceipt (validated_receipt w)) (\<lambda>r. if \<not> is_ok r then Q else wp (publish_finish w) (installed w) never) never d"
proof (rule wp_writeAtomic, goal_cases)
  case (2 d1)
  have "committing d1 s w"
    using assms(1) sound_change [OF _ 2(1) metadata_temps] look_other [OF 2(1) metadata_temps] 2(2)
    by (simp add: committing_def backed_up_def holds_def private_or_missing_def)
  then show ?case using 2(2,3) assms(2) install_finish [of d1 s w] by (simp add: holds_def)
qed (use assms(2) in simp_all)

lemma install_confirm:
  assumes "committing d s w" "faults d = 0"
  shows "wp (publish_confirm w (in_place s) (validated_receipt w)) (installed w) never d"
proof -
  have read: "wp (readRegular PTarget (length (artifact_content w) + 1)) (\<lambda>r. if r \<noteq> Inr (artifact_content w)
      then Q else wp (writeAtomic PReceipt (validated_receipt w)) (\<lambda>r. if \<not> is_ok r then Q' else wp (publish_finish w) (installed w) never) never)
      never d1"
    if d1: "committing d1 s w" "faults d1 = 0" for d1 Q Q'
  proof (rule wp_readRegular, goal_cases)
    case (1 d2)
    have "read_result d1 PTarget (length (artifact_content w) + 1) = Inr (artifact_content w)"
      using d1(1) by (simp add: committing_def read_holds)
    then show ?case using install_receipt [of d2 s w] d1 1 by (simp add: committing_same)
  qed (use d1(2) in simp_all)
  have "wp syncDirectory (\<lambda>r. if \<not> is_ok r then Q'' else wp (readRegular PTarget (length (artifact_content w) + 1))
      (\<lambda>r. if r \<noteq> Inr (artifact_content w) then Q else wp (writeAtomic PReceipt (validated_receipt w))
        (\<lambda>r. if \<not> is_ok r then Q' else wp (publish_finish w) (installed w) never) never) never) never d" for Q Q' Q''
    by (rule wp_sync) (use assms read in \<open>simp_all add: committing_same\<close>)
  then show ?thesis by (simp add: publish_confirm_def Let_def if_distrib [where f = "\<lambda>m. wp m (installed w) never"] cong: if_cong)
qed

lemma install_commit:
  assumes "prepared d s w t" "look d PJournal = None" "faults d = 0"
  shows "wp (publish_commit w CtxLive (in_place s) (validated_receipt w) t) (installed w) never d"
  unfolding publish_commit_def wp_or
proof (rule wp_writeAtomic, goal_cases)
  case (2 d1)
  note other = look_other [OF 2(1) metadata_temps]
  have d1: "sound d1" using assms(1) 2(2) by (intro sound_change [OF _ 2(1) metadata_temps]) (auto simp: prepared_def private_or_missing_def)
  have "t \<notin> insert PJournal (range (PTemp ''metadata''))" using assms(1) by (auto simp: prepared_def)
  then have "look d1 t = look d t" using 2(1) unfolding same_but_def by blast
  then have t: "look d1 t = Some (private_file (artifact_content w))" "t \<noteq> PTarget" and sub: "{t} \<subseteq> temps"
    using assms(1) by (auto simp: prepared_def holds_def)
  have "wp (os_Rename t PTarget) (\<lambda>r. if \<not> is_ok r then Q
      else wp (publish_confirm w (in_place s) (validated_receipt w)) (installed w) never) never d1" for Q
  proof (rule wp_Rename [OF t], goal_cases)
    case (1 d2)
    have d2: "same_but (insert PTarget {t}) d1 d2" using 1(1) by (simp add: insert_commute)
    note later = look_other [OF d2 sub]
    have "sound d2" using d1 1(3) by (intro sound_change [OF _ d2 sub]) (auto simp: private_or_missing_def)
    then have "committing d2 s w"
      using assms(1) 1(3) 2(2) by (simp add: committing_def prepared_def replaces_def backed_up_def holds_def other later)
    then show ?case using 1(4) 2(3) assms(3) install_confirm by simp
  qed (use 2(3) assms(3) in simp_all)
  then show ?case by (simp add: ctx_done_def if_distrib [where f = "\<lambda>m. wp m (installed w) never"] cong: if_cong)
qed (use assms(3) in simp_all)

lemma install_backup:
  assumes "settled d (Some v)" "replaces (Some v) w" "t = PTemp ''candidate'' n" "holds d t (artifact_content w)"
    and "b = PTemp ''previous'' k" "holds d b (artifact_content v)" "faults d = 0"
  shows "wp (publish_backup w CtxLive (in_place (Some v)) (validated_receipt w) t b) (installed w) never d"
proof -
  have b: "look d b = Some (private_file (artifact_content v))" "b \<noteq> PPrevious" using assms(5,6) by (simp_all add: holds_def)
  show ?thesis
    unfolding publish_backup_def wp_or
  proof (rule wp_Rename [OF b], goal_cases)
    case (1 d1)
    have d1: "same_but (insert PPrevious {b}) d d1" and sub: "{b} \<subseteq> temps" using 1(1) assms(5) by (simp_all add: insert_commute)
    note other = look_other [OF d1 sub]
    have "sound d1" using assms(1) 1(3) by (intro sound_change [OF _ d1 sub]) (auto simp: settled_iff private_or_missing_def)
    moreover have "look d1 t = look d t" using d1 assms(3,5) by (simp add: same_but_def)
    ultimately have prep: "prepared d1 (Some v) w t" "look d1 PJournal = None" "faults d1 = 0"
      using assms 1(3,4) by (simp_all add: prepared_def settled_iff owns_def backed_up_def holds_def other)
    have "wp (publish_commit w CtxLive (in_place (Some v)) (validated_receipt w) t) (installed w) never d2"
      if "same_but {} d1 d2" "faults d2 \<le> faults d1" for d2
      using install_commit [OF prepared_same [OF that(1) prep(1)]] same_but_unchanged(9) [OF that(1)] prep(2,3) that(2) by simp
    then show ?case using prep(3) by simp (rule wp_sync, simp_all)
  qed (use assms(7) in simp_all)
qed

lemma install_staged:
  assumes "settled d s" "replaces s w" "t = PTemp ''candidate'' n" "holds d t (artifact_content w)" "faults d = 0"
  shows "wp (publish_staged w CtxLive (in_place s) (validated_receipt w) t) (installed w) never d"
proof (cases s)
  case None
  have "prepared d None w t" using None assms by (intro settled_prepared_none) simp_all
  moreover have "look d PJournal = None" using assms(1) by (simp add: settled_def)
  ultimately show ?thesis
    using None assms(5) install_commit [of d None w t] by (simp add: publish_staged_def in_place_def)
next
  case (Some v)
  have "wp (io_or (stage ''previous'' (artifact_content v)) (publicationError ''backup_stage'') (\<lambda>backup.
      with_cleanup backup (publish_backup w CtxLive (in_place s) (validated_receipt w) t backup))) (installed w) never d"
    unfolding wp_or
  proof (rule wp_writes [OF writes_stage], goal_cases)
    case (1 b d2)
    then obtain k where b: "b = PTemp ''previous'' k" "holds d2 b (artifact_content v)" by (auto simp: holds_def)
    have d2: "settled d2 (Some v)" using assms(1) Some same_but_temps(10) [OF 1(1) kind_temps] by simp
    have "t \<notin> range (PTemp ''previous'')" using assms(3) by auto
    then have t: "holds d2 t (artifact_content w)" using assms(4) 1(1) unfolding holds_def same_but_def by metis
    have "wp (publish_backup w CtxLive (in_place s) (validated_receipt w) t b) (installed w) never d2"
      using install_backup [OF d2 _ assms(3) t b] Some assms(2,5) 1(3) by simp
    then show ?case using install_cleanup [of _ w d2 b] b(1) by simp
  qed (use assms(5) in simp_all)
  then show ?thesis unfolding publish_staged_def using Some by (simp only: in_place_def option.map option.case prod.case)
qed

lemma install_change:
  assumes "settled d s" "replaces s w" "faults d = 0"
  shows "wp (publish_change w CtxLive (in_place s) (validated_receipt w)) (installed w) never d"
  unfolding publish_change_def wp_or
proof (rule wp_writes [OF writes_stage], goal_cases)
  case (1 t d1)
  then obtain n where t: "t = PTemp ''candidate'' n" "holds d1 t (artifact_content w)" by (auto simp: holds_def)
  have d1: "settled d1 s" "faults d1 = 0" using assms(1,3) 1(1,3) same_but_temps(10) [OF 1(1) kind_temps] by simp_all
  show ?case
    using install_cleanup [OF install_staged [OF d1(1) assms(2) t d1(2)]] t(1) by simp
qed (use assms(3) in simp_all)

lemma install_Publish:
  assumes "recoverable d s" "replaces s w" "faults d = 0" "\<And>v. s = Some v \<Longrightarrow> artifact_content v \<noteq> artifact_content w"
  shows "wp (Publish w CtxLive CtxLive) (installed w) never d"
proof -
  have receipt: "ProtectedReceipt w = Inr (validated_receipt w)"
    using assms(2) by (simp add: replaces_def publishable_def ProtectedReceipt_wf)
  have "wp (io_try currentOwned (publish_owned w CtxLive)) (installed w) never d1"
    if d1: "settled d1 s" "faults d1 = 0" for d1
    unfolding wp_try
  proof (rule wp_writes [OF writes_currentOwned [OF d1(1)]], goal_cases)
    case (1 owned d2)
    have d2: "settled d2 s" "faults d2 = 0" using d1 1 same_but_unchanged(10) [OF 1(1)] by simp_all
    then have "wp (publish_change w CtxLive (in_place s) (validated_receipt w)) (installed w) never d2"
      using assms(2) by (intro install_change)
    then show ?case using 1(2) receipt assms(4) by (cases s) (simp_all add: in_place_def publish_owned_def)
  qed (use d1(2) in simp_all)
  then have owned: "wp recover (\<lambda>r. case r of Inl e \<Rightarrow> installed w (Inl e) | Inr _ \<Rightarrow>
      wp (io_try currentOwned (publish_owned w CtxLive)) (installed w) never) never d1"
    if "same_but {} d d1" "faults d1 = 0" for d1
    using that assms(1) wp_recover [of d1 s] by (intro wp_mono [OF wp_recover [of d1 s]]) (auto simp: same_but_unchanged(11) [OF that(1)])
  have sound: "sound d" using assms(1) by (simp add: recoverable_def)
  show ?thesis
    unfolding Publish_def wp_try [of validateDirectory] wp_try [of recover]
    by (rule wp_writes [OF writes_validateDirectory [OF sound]])
      (use owned assms(3) in \<open>simp_all add: ctx_done_def del: wp_try\<close>)
qed

section \<open>The contract of the publisher\<close>

lemma wp_never: "wp m Q never d \<Longrightarrow> \<exists>a d'. m d = (Some a, d') \<and> Q a d'"
  by (auto simp: wp_def split: prod.splits option.splits)

lemma wp_final: "wp m Q C d \<Longrightarrow> (\<And>r d'. Q r d' \<Longrightarrow> C d') \<Longrightarrow> C (snd (m d))"
  by (auto simp: wp_def split: prod.splits option.splits)

abbreviation restarted :: "disk \<Rightarrow> disk" where
  "restarted d \<equiv> d\<lparr>fault_plan := []\<rparr>"

abbreviation receipt_of :: "Validated option \<Rightarrow> Receipt option" where
  "receipt_of s \<equiv> map_option (\<lambda>v. \<lparr>rcp_encoded = validated_receipt v\<rparr>) s"

lemma same_but_restarted: "same_but {} d (restarted d)"
  by (simp add: same_but_def)

lemma CurrentReceipt_restarted:
  assumes "recoverable d s"
  shows "\<exists>d'. CurrentReceipt (restarted d) = (Some (Inr (receipt_of s)), d') \<and> settled d' s"
proof -
  have "recoverable (restarted d) s" using assms same_but_unchanged(11) [OF same_but_restarted] by simp
  then have "wp CurrentReceipt (\<lambda>r d'. r = Inr (receipt_of s) \<and> settled d' s \<and> faults d' = 0) never (restarted d)"
    by (rule wp_CurrentReceipt) (simp add: faults_def)
  from wp_never [OF this] show ?thesis by auto
qed

text \<open>
  C37. Publication survives the death of the process: from a settled directory, if at most one system
  call of a publication fails, or the process dies at any one call, the next start, if nothing
  goes wrong in it, finds the old artifact with its receipt or the new one with its own; it reads
  that receipt and the directory is settled again. If publication reported a change, what it
  finds is the new artifact. The artifacts fit the size limits of the publisher, the profile of
  the new one is short enough for its length prefix, and old and new content do not collide
  under SHA-256. A call that fails has no effect, and what a call wrote stays: the loss of data
  that was not synchronised, as after a power failure, is not covered.
\<close>

theorem Publish_crash_safe:
  assumes "settled d s" "publishable w" "Profile_short (art_profile (val_candidate w))" "faults d \<le> 1"
    and "\<And>v. s = Some v \<Longrightarrow> \<not> sha256_collision
      (generation_input \<lparr>art_profile = art_profile (val_candidate w), art_content = artifact_content v\<rparr>) (generation_input (val_candidate w))"
  shows "\<exists>s' d'. (s' = s \<or> s' = Some w)
    \<and> (\<forall>p. fst (Publish w entry later d) = Some (Inr p) \<and> publication_Changed p \<longrightarrow> s' = Some w)
    \<and> CurrentReceipt (restarted (snd (Publish w entry later d))) = (Some (Inr (receipt_of s')), d')
    \<and> settled d' s'"
proof -
  have wp: "wp (Publish w entry later) (published_or_same s w) (either s w) d"
    using replaces_different [OF assms(2,3) _ assms(5), of s] by (intro wp_Publish [OF assms(1,2,4)]) auto
  obtain s' where s': "s' = s \<or> s' = Some w" "recoverable (snd (Publish w entry later d)) s'"
    "\<forall>p. fst (Publish w entry later d) = Some (Inr p) \<and> publication_Changed p \<longrightarrow> s' = Some w"
  proof (cases "\<exists>p. fst (Publish w entry later d) = Some (Inr p) \<and> publication_Changed p")
    case True
    then obtain p where p: "Publish w entry later d = (Some (Inr p), snd (Publish w entry later d))" "publication_Changed p"
      by (metis prod.collapse)
    show thesis
      using wp_run(1) [OF wp p(1)] p(2) that [of "Some w"] by (auto simp: published_or_same_def)
  next
    case False
    have "either s w (snd (Publish w entry later d))"
      by (rule wp_final [OF wp]) (simp add: published_or_same_def)
    then show thesis using False that by (auto simp: either_def)
  qed
  then show ?thesis using CurrentReceipt_restarted [OF s'(2)] by blast
qed

text \<open>
  C38. Publication installs the artifact: from any state that recovery can deal with, if no call fails
  and the context stays live, publishing content that differs from what is in place (and does
  not collide with it under SHA-256) returns success, and the directory then holds exactly the
  new artifact with its receipt, which is what the publisher reports afterwards. The artifact
  fits the size limits of the publisher and its profile is short enough for its length prefix.
\<close>

theorem Publish_installs:
  assumes "recoverable d s" "publishable w" "Profile_short (art_profile (val_candidate w))" "faults d = 0"
    and "\<And>v. s = Some v \<Longrightarrow> artifact_content v \<noteq> artifact_content w \<and> \<not> sha256_collision
      (generation_input \<lparr>art_profile = art_profile (val_candidate w), art_content = artifact_content v\<rparr>) (generation_input (val_candidate w))"
  shows "\<exists>d' d''. Publish w CtxLive CtxLive d
      = (Some (Inr \<lparr>publication_Profile = art_profile (val_candidate w), publication_Changed = True\<rparr>), d')
    \<and> settled d' (Some w) \<and> CurrentReceipt d' = (Some (Inr (receipt_of (Some w))), d'') \<and> settled d'' (Some w)"
proof -
  have "replaces s w" using assms by (intro replaces_different) auto
  then have "wp (Publish w CtxLive CtxLive) (installed w) never d" using assms by (intro install_Publish) auto
  from wp_never [OF this] obtain d' where d': "Publish w CtxLive CtxLive d
      = (Some (Inr \<lparr>publication_Profile = art_profile (val_candidate w), publication_Changed = True\<rparr>), d')"
    "settled d' (Some w)" "faults d' = 0"
    by (auto simp: installed_def)
  from wp_never [OF wp_CurrentReceipt [OF settled_recoverable [OF d'(2)] d'(3)]] d' show ?thesis by auto
qed

section \<open>An example\<close>

lemma length_escape_char: "length (escape_char c) \<le> 6"
  by (simp add: escape_char_def unicode_escape_def)

lemma length_json_quote:
  assumes "ascii s"
  shows "length (json_quote s) \<le> 6 * length s + 2"
proof -
  have "length (json_escape 0 s) \<le> 6 * length s"
    using assms
  proof (induction s)
    case (Cons c s)
    then show ?case using length_escape_char [of c] by simp
  qed simp
  then show ?thesis by (simp add: json_quote_def)
qed

lemma length_base64_digest: "length (base64_encode (sha256 m)) \<le> 46"
proof -
  obtain pad where "pad < 6" "6 * length (radix_encode 6 base64_alphabet (sha256 m)) = 8 * 32 + pad"
    using radix_bits_encode [OF base64_alphabet_facts(1,2), of "sha256 m"] by auto
  moreover have "(4 - length (radix_encode 6 base64_alphabet (sha256 m)) mod 4) mod 4 \<le> 3"
    using mod_less_divisor [of 4 "4 - length (radix_encode 6 base64_alphabet (sha256 m)) mod 4"] by linarith
  ultimately show ?thesis by (simp add: base64_encode_def Let_def)
qed

definition example_artifact :: Validated where
  "example_artifact = \<lparr>val_candidate = \<lparr>art_profile = Mihomo11931, art_content = ''proxies: []''\<rparr>,
     val_generation = generation \<lparr>art_profile = Mihomo11931, art_content = ''proxies: []''\<rparr>, val_evidence = ''mihomo/1.19.31''\<rparr>"

lemma example_artifact_wf: "Validated_wf example_artifact"
proof -
  have "safeValidatorID ''mihomo/1.19.31''" by code_simp
  then show ?thesis
    using example_candidate_ok example_profile_ok by (simp add: Validated_wf_def example_artifact_def)
qed

lemma example_publishable: "publishable example_artifact"
proof -
  have ascii: "ascii ''1.19.31''" "ascii ''egressfox.mihomo/v1''" "ascii ''application/yaml''" "ascii ''mihomo/1.19.31''"
    by code_simp+
  note bounds = this [THEN length_json_quote] receipt_names_ascii [THEN length_json_quote]
  have digest: "length (json_quote (base64_encode (val_generation example_artifact))) \<le> 278"
    using length_json_quote [OF ascii_base64_encode, of "val_generation example_artifact"]
      length_base64_digest [of "generation_input \<lparr>art_profile = Mihomo11931, art_content = ''proxies: []''\<rparr>"]
    by (simp add: example_artifact_def generation_def)
  have engine: "itoa (uint (profile_Engine Mihomo11931)) = ''1''" by code_simp
  have data: "rd_Engine (Validated_data example_artifact) = profile_Engine Mihomo11931"
    "rd_Version (Validated_data example_artifact) = ''1.19.31''"
    "rd_RendererSchema (Validated_data example_artifact) = ''egressfox.mihomo/v1''"
    "rd_MediaType (Validated_data example_artifact) = ''application/yaml''"
    "rd_ValidatorID (Validated_data example_artifact) = ''mihomo/1.19.31''"
    "rd_Generation (Validated_data example_artifact) = val_generation example_artifact"
    by (simp_all add: Validated_data_def example_artifact_def Mihomo11931_def Let_def)
  have "length (validated_receipt example_artifact) \<le> max_receipt"
    unfolding marshal_receiptData_def data max_receipt_def engine
    using bounds digest by simp
  then show ?thesis using example_artifact_wf by (simp add: publishable_def example_artifact_def max_target_def)
qed

definition example_disk :: "fault list \<Rightarrow> disk" where
  "example_disk plan = \<lparr>files = [], dir_directory = True, dir_private = True, fault_plan = plan\<rparr>"

lemma example_disk_settled: "settled (example_disk plan) None"
  by (simp add: settled_def sound_def example_disk_def look_def private_or_missing_def del: map_of_files)

lemma example_short: "Profile_short (art_profile (val_candidate example_artifact))"
  using example_profile_ok(2) by (simp add: example_artifact_def)

theorem Publish_crash_safe_witness:
  "\<exists>s' d'. (s' = None \<or> s' = Some example_artifact)
    \<and> CurrentReceipt (restarted (snd (Publish example_artifact CtxLive CtxLive (example_disk (replicate 20 Fine @ [Crash])))))
      = (Some (Inr (receipt_of s')), d') \<and> settled d' s'"
proof -
  have "faults (example_disk (replicate 20 Fine @ [Crash])) \<le> 1" by (simp add: faults_def example_disk_def)
  from Publish_crash_safe [OF example_disk_settled example_publishable example_short this, of CtxLive CtxLive]
  show ?thesis by auto
qed

theorem Publish_installs_witness:
  "\<exists>d' d''. Publish example_artifact CtxLive CtxLive (example_disk [])
      = (Some (Inr \<lparr>publication_Profile = Mihomo11931, publication_Changed = True\<rparr>), d')
    \<and> CurrentReceipt d' = (Some (Inr (receipt_of (Some example_artifact))), d'')"
proof -
  have "faults (example_disk []) = 0" by (simp add: faults_def example_disk_def)
  from Publish_installs [OF settled_recoverable [OF example_disk_settled] example_publishable example_short this]
  show ?thesis by (auto simp: example_artifact_def)
qed

section \<open>A failed read during recovery\<close>

text \<open>
  Recovery takes every error of reading the target for its absence. The first state is the one a
  crash leaves after the first artifact was renamed into place and before its receipt was
  written; the second has lost the journal.
\<close>

definition interrupted :: "Validated \<Rightarrow> disk \<Rightarrow> bool" where
  "interrupted w d \<longleftrightarrow> sound d \<and> publishable w \<and> holds d PTarget (artifact_content w)
     \<and> holds d PJournal (validated_receipt w) \<and> look d PReceipt = None"

definition stranded :: "Validated \<Rightarrow> disk \<Rightarrow> bool" where
  "stranded w d \<longleftrightarrow> sound d \<and> publishable w \<and> holds d PTarget (artifact_content w)
     \<and> look d PJournal = None \<and> look d PReceipt = None"

text \<open>Later calls of the publisher, each with faults of its own, and whether they succeeded.\<close>

datatype publisher_call = AskReceipt | PublishAgain Validated ctx_err ctx_err

definition succeeded :: "('e + 'a) option \<Rightarrow> bool" where
  "succeeded r = (case r of Some (Inr _) \<Rightarrow> True | _ \<Rightarrow> False)"

fun publisher_run :: "publisher_call \<Rightarrow> disk \<Rightarrow> bool \<times> disk" where
  "publisher_run AskReceipt d = (succeeded (fst (CurrentReceipt d)), snd (CurrentReceipt d))"
| "publisher_run (PublishAgain v entry later) d =
     (succeeded (fst (Publish v entry later d)), snd (Publish v entry later d))"

fun attempts :: "(fault list \<times> publisher_call) list \<Rightarrow> disk \<Rightarrow> bool list \<times> disk" where
  "attempts [] d = ([], d)"
| "attempts ((plan, c) # rest) d =
     (let (ok, d') = publisher_run c (d\<lparr>fault_plan := plan\<rparr>); (oks, d'') = attempts rest d' in (ok # oks, d''))"

lemma stranded_temps: "same_but ps d d' \<Longrightarrow> ps \<subseteq> temps \<Longrightarrow> stranded w d' = stranded w d"
  unfolding stranded_def by (simp add: same_but_temps)

lemma stranded_same: "same_but {} d d' \<Longrightarrow> stranded w d' = stranded w d"
  by (erule stranded_temps) simp

abbreviation fails_stranded :: "Validated \<Rightarrow> ('e + 'a) \<Rightarrow> disk \<Rightarrow> bool" where
  "fails_stranded w r d \<equiv> \<not> is_ok r \<and> stranded w d"

lemma stranded_currentOwned:
  assumes "stranded w d"
  shows "wp currentOwned (\<lambda>r d'. fails_stranded w r d' \<and> (faults d = 0 \<longrightarrow> r = Inl (ownershipError ''unmanaged_target'')))
    (\<lambda>d'. stranded w d' \<and> 0 < faults d) d"
  unfolding currentOwned_def wp_bind
proof (rule wp_readRegular, goal_cases)
  case (1 d1)
  have d1: "stranded w d1" using assms stranded_same [OF 1(1)] by simp
  have here: "read_result d PTarget max_target = Inr (artifact_content w)" "read_result d1 PReceipt max_receipt = Inl ENotExist"
    using assms d1 by (simp_all add: stranded_def read_holds publishable_def read_missing)
  show ?case
    by (simp add: here) (rule wp_readRegular; use here d1 1 in \<open>simp add: stranded_same\<close>)
qed (use assms in \<open>simp_all add: stranded_same\<close>)

lemma stranded_recover:
  assumes "stranded w d"
  shows "wp recover (\<lambda>r d'. stranded w d' \<and> faults d' \<le> faults d \<and> (faults d = 0 \<longrightarrow> r = Inr ())) (stranded w) d"
  unfolding recover_def wp_bind
proof (rule wp_readRegular, goal_cases)
  case (1 d1)
  have "stranded w d1" using assms stranded_same [OF 1(1)] by simp
  moreover have "look d PJournal = None" using assms by (simp add: stranded_def)
  ultimately show ?case
    by (simp add: read_missing) (rule wp_writes [OF writes_cleanupTemps]; use 1 in \<open>auto simp: stranded_temps\<close>)
qed (use assms in \<open>simp_all add: stranded_same\<close>)

text \<open>No call gets out of the second state, whatever the faults.\<close>

lemma stranded_start:
  fixes m :: "(publish_Failure + 'a) io"
  assumes "stranded w d"
    and "\<And>d'. stranded w d' \<Longrightarrow> faults d' \<le> faults d \<Longrightarrow>
      wp m (\<lambda>r d'. fails_stranded w r d' \<and> (faults d = 0 \<longrightarrow> P r)) (stranded w) d'"
  shows "wp (io_try validateDirectory (\<lambda>_. io_try recover (\<lambda>_. m)))
    (\<lambda>r d'. fails_stranded w r d' \<and> (faults d = 0 \<longrightarrow> P r)) (stranded w) d"
proof -
  have sound: "sound d" using assms(1) by (simp add: stranded_def)
  have next_step: "wp (io_try recover (\<lambda>_. m)) (\<lambda>r d'. fails_stranded w r d' \<and> (faults d = 0 \<longrightarrow> P r)) (stranded w) d1"
    if "same_but {} d d1" "faults d1 \<le> faults d" for d1
  proof -
    have "stranded w d1" using assms(1) that(1) by (simp add: stranded_same)
    then show ?thesis unfolding wp_try
      by (rule wp_mono [OF stranded_recover])
        (use that(2) assms(2) in \<open>auto split: sum.splits\<close>)
  qed
  show ?thesis
    unfolding wp_try [of validateDirectory]
    by (rule wp_writes [OF writes_validateDirectory [OF sound]])
      (use next_step assms(1) in \<open>auto simp: stranded_same simp del: wp_try\<close>)
qed

lemma stranded_CurrentReceipt:
  assumes "stranded w d"
  shows "wp CurrentReceipt (\<lambda>r d'. fails_stranded w r d' \<and> (faults d = 0 \<longrightarrow> r = Inl (ownershipError ''unmanaged_target'')))
    (stranded w) d"
  unfolding CurrentReceipt_def
proof (rule stranded_start [OF assms], goal_cases)
  case (1 d1)
  show ?case unfolding wp_try
    by (rule wp_mono [OF stranded_currentOwned [OF 1(1)]]) (use 1(2) in \<open>auto simp: is_ok_def split: sum.splits\<close>)
qed

lemma stranded_Publish:
  assumes "stranded w d"
  shows "wp (Publish v entry later) (fails_stranded w) (stranded w) d"
proof -
  have "wp (Publish v entry later) (\<lambda>r d'. fails_stranded w r d' \<and> (faults d = 0 \<longrightarrow> True)) (stranded w) d"
    unfolding Publish_def
  proof (rule stranded_start [OF assms], goal_cases)
    case (1 d1)
    have "wp (io_try currentOwned (publish_owned v later)) (\<lambda>r d'. fails_stranded w r d' \<and> (faults d = 0 \<longrightarrow> True)) (stranded w) d1"
      unfolding wp_try by (rule wp_mono [OF stranded_currentOwned [OF 1(1)]]) (auto simp: is_ok_def split: sum.splits)
    then show ?case using 1(1) by (simp add: is_ok_def del: wp_try)
  qed
  then show ?thesis by simp
qed

lemma wp_fails: "wp m (fails_stranded w) (stranded w) d \<Longrightarrow> \<not> succeeded (fst (m d)) \<and> stranded w (snd (m d))"
  by (auto simp: wp_def succeeded_def is_ok_def split: option.splits prod.splits sum.splits)

lemma publisher_run_stranded:
  assumes "stranded w d"
  shows "\<not> fst (publisher_run c d) \<and> stranded w (snd (publisher_run c d))"
proof (cases c)
  case AskReceipt
  have "wp CurrentReceipt (fails_stranded w) (stranded w) d" by (rule wp_mono [OF stranded_CurrentReceipt [OF assms]]) simp_all
  from wp_fails [OF this] show ?thesis by (simp add: AskReceipt)
next
  case (PublishAgain v entry later)
  from wp_fails [OF stranded_Publish [OF assms]] show ?thesis by (simp add: PublishAgain)
qed

lemma stranded_plan [simp]: "stranded w (d\<lparr>fault_plan := plan\<rparr>) = stranded w d"
  by (rule stranded_same) (simp add: same_but_def)

lemma attempts_stranded:
  "stranded w d \<Longrightarrow> fst (attempts calls d) = replicate (length calls) False \<and> stranded w (snd (attempts calls d))"
proof (induction calls arbitrary: d)
  case (Cons call rest)
  obtain plan c where call: "call = (plan, c)" by force
  obtain d' where d': "publisher_run c (d\<lparr>fault_plan := plan\<rparr>) = (False, d')" "stranded w d'"
    using publisher_run_stranded [of w "d\<lparr>fault_plan := plan\<rparr>" c] Cons.prems
    by (cases "publisher_run c (d\<lparr>fault_plan := plan\<rparr>)") auto
  from Cons.IH [OF d'(2)] show ?case by (auto simp: call d'(1) split: prod.splits)
qed simp

text \<open>The failing call: the eight before it succeed, the journal is read, and the target is not.\<close>

lemma Fine_3: "replicate 3 Fine = [Fine, Fine, Fine]" and Fine_5: "replicate 5 Fine = [Fine, Fine, Fine, Fine, Fine]"
  by (simp_all add: numeral_eq_Suc)

lemma run_validateDirectory:
  assumes "sound d"
  shows "validateDirectory (d\<lparr>fault_plan := replicate 5 Fine @ plan\<rparr>) = (Some (Inr ()), d\<lparr>fault_plan := plan\<rparr>)"
  using assms unfolding Fine_5 sound_def private_or_missing_def
  by (auto simp: validateDirectory_def os_Lstat_directory_def os_Lstat_def syscall_def io_bind_def io_return_def Let_def)

lemma run_readRegular:
  assumes "holds d p c" "length c \<le> limit"
  shows "readRegular p limit (d\<lparr>fault_plan := replicate 3 Fine @ plan\<rparr>) = (Some (Inr c), d\<lparr>fault_plan := plan\<rparr>)"
    "k < 3 \<Longrightarrow> readRegular p limit (d\<lparr>fault_plan := replicate k Fine @ Fails # plan\<rparr>) = (Some (Inl EFault), d\<lparr>fault_plan := plan\<rparr>)"
proof -
  note defs = readRegular_def io_try_def io_bind_def io_return_def os_Lstat_def os_Open_def read_file_def syscall_def holds_def Let_def
  show "readRegular p limit (d\<lparr>fault_plan := replicate 3 Fine @ plan\<rparr>) = (Some (Inr c), d\<lparr>fault_plan := plan\<rparr>)"
    using assms unfolding Fine_3 by (simp add: defs)
  assume "k < 3"
  then consider "k = 0" | "k = 1" | "k = 2" by linarith
  then show "readRegular p limit (d\<lparr>fault_plan := replicate k Fine @ Fails # plan\<rparr>) = (Some (Inl EFault), d\<lparr>fault_plan := plan\<rparr>)"
    using assms by cases (simp_all add: defs numeral_2_eq_2)
qed

lemma interrupted_finish:
  assumes "interrupted w d" "faults d = 0"
  shows "wp recover_finish (\<lambda>r d'. r = Inr () \<and> stranded w d' \<and> faults d' = 0) never d"
  unfolding recover_finish_def wp_or
proof (rule wp_Remove, goal_cases)
  case (1 d1)
  have d1: "stranded w d1" "faults d1 = 0"
    using 1 assms by (auto simp: interrupted_def stranded_def sound_def same_but_def holds_def private_or_missing_def)
  have "wp cleanupTemps (\<lambda>r d'. r = Inr () \<and> stranded w d' \<and> faults d' = 0) never d2"
    if "same_but {} d1 d2" "faults d2 = 0" for d2
    by (rule wp_writes [OF writes_cleanupTemps]) (use that d1 stranded_same [OF that(1)] in \<open>auto simp: stranded_temps\<close>)
  moreover have "look d PJournal \<noteq> None" using assms(1) by (simp add: interrupted_def holds_def)
  ultimately show ?case using d1(2) by simp (rule wp_sync, simp_all)
qed (use assms(2) in simp_all)

lemma interrupted_plan: "interrupted w (d\<lparr>fault_plan := plan\<rparr>) = interrupted w d"
  by (simp add: interrupted_def sound_def holds_def)

lemma run_recover_loses:
  assumes "interrupted w d" "k < 3" "list_all (\<lambda>f. f = Fine) plan"
  shows "\<exists>d'. recover (d\<lparr>fault_plan := replicate 3 Fine @ replicate k Fine @ Fails # plan\<rparr>) = (Some (Inr ()), d')
    \<and> stranded w d' \<and> faults d' = 0"
proof -
  have here: "holds d PTarget (artifact_content w)" "length (artifact_content w) \<le> max_target"
    "holds d PJournal (validated_receipt w)" "length (validated_receipt w) \<le> max_receipt"
    using assms(1) by (simp_all add: interrupted_def publishable_def)
  have "faults (d\<lparr>fault_plan := plan\<rparr>) = 0" using assms(3) by (simp add: faults_def list_all_iff filter_empty_conv)
  from wp_never [OF interrupted_finish [OF _ this]] assms(1) obtain d' where
    d': "recover_finish (d\<lparr>fault_plan := plan\<rparr>) = (Some (Inr ()), d')" "stranded w d'" "faults d' = 0"
    by (auto simp: interrupted_plan)
  have "recover_journal (validated_receipt w) (d\<lparr>fault_plan := replicate k Fine @ Fails # plan\<rparr>) = (Some (Inr ()), d')"
    unfolding recover_journal_def io_bind_def [of "readRegular PTarget max_target"] run_readRegular(2) [OF here(1,2) assms(2)]
    by (simp add: io_try_def io_bind_def io_return_def d'(1))
  then have "recover (d\<lparr>fault_plan := replicate 3 Fine @ replicate k Fine @ Fails # plan\<rparr>) = (Some (Inr ()), d')"
    unfolding recover_def io_bind_def run_readRegular(1) [OF here(3,4)] by simp
  then show ?thesis using d'(2,3) by blast
qed

lemma run_CurrentReceipt_loses:
  assumes "interrupted w d" "k < 3" "list_all (\<lambda>f. f = Fine) plan" "fault_plan d = replicate (8 + k) Fine @ Fails # plan"
  shows "\<exists>d'. CurrentReceipt d = (Some (Inl (ownershipError ''unmanaged_target'')), d') \<and> stranded w d'"
proof -
  have split: "replicate (8 + k) Fine @ Fails # plan = replicate 5 Fine @ replicate 3 Fine @ replicate k Fine @ Fails # plan"
    by (simp add: replicate_add [symmetric] append_assoc [symmetric] del: append_assoc)
  have d: "d = d\<lparr>fault_plan := replicate 5 Fine @ replicate 3 Fine @ replicate k Fine @ Fails # plan\<rparr>"
    unfolding split [symmetric] assms(4) [symmetric] by simp
  obtain d1 where d1: "recover (d\<lparr>fault_plan := replicate 3 Fine @ replicate k Fine @ Fails # plan\<rparr>) = (Some (Inr ()), d1)"
    "stranded w d1" "faults d1 = 0"
    using run_recover_loses [OF assms(1-3)] by blast
  obtain d2 where d2: "currentOwned d1 = (Some (Inl (ownershipError ''unmanaged_target'')), d2)" "stranded w d2"
    using stranded_currentOwned [OF d1(2)] d1(3)
    by (cases "currentOwned d1") (auto simp: wp_def split: option.splits)
  have "sound d" using assms(1) by (simp add: interrupted_def)
  have "CurrentReceipt d = (Some (Inl (ownershipError ''unmanaged_target'')), d2)"
    by (subst d, unfold CurrentReceipt_def io_try_def io_bind_def run_validateDirectory [OF \<open>sound d\<close>])
      (simp add: d1(1) d2(1) io_return_def)
  then show ?thesis using d2(2) by blast
qed

text \<open>
  C39. One failed read makes recovery lose an artifact for good. The process has died between the
  rename of the first artifact and the write of its receipt. If no further call fails, the
  next start recovers: it returns the receipt and settles the directory. If one of the three
  calls by which recovery reads the target fails, and nothing else does, recovery removes the
  journal and the publisher reports an unmanaged target. From then on no call succeeds: neither
  the question for the receipt nor the publication of any artifact, in any sequence of calls, whatever
  goes wrong during them, although the target and the journal matched.
\<close>

theorem recover_loses_journal:
  assumes "interrupted w d"
  shows "(faults d = 0 \<longrightarrow> (\<exists>d'. CurrentReceipt d = (Some (Inr (receipt_of (Some w))), d') \<and> settled d' (Some w)))
    \<and> (k < 3 \<and> list_all (\<lambda>f. f = Fine) plan \<and> fault_plan d = replicate (8 + k) Fine @ Fails # plan \<longrightarrow>
        (\<exists>d'. CurrentReceipt d = (Some (Inl (ownershipError ''unmanaged_target'')), d')
          \<and> fst (attempts calls d') = replicate (length calls) False
          \<and> holds (snd (attempts calls d')) PTarget (artifact_content w)))"
proof (intro conjI impI)
  assume none: "faults d = 0"
  have "recoverable d (Some w)" using assms by (auto simp: interrupted_def recoverable_def)
  from wp_never [OF wp_CurrentReceipt [OF this none]]
  show "\<exists>d'. CurrentReceipt d = (Some (Inr (receipt_of (Some w))), d') \<and> settled d' (Some w)" by auto
next
  assume "k < 3 \<and> list_all (\<lambda>f. f = Fine) plan \<and> fault_plan d = replicate (8 + k) Fine @ Fails # plan"
  then obtain d' where d': "CurrentReceipt d = (Some (Inl (ownershipError ''unmanaged_target'')), d')" "stranded w d'"
    using run_CurrentReceipt_loses [OF assms] by blast
  from attempts_stranded [OF d'(2), of calls] d'(1)
  show "\<exists>d'. CurrentReceipt d = (Some (Inl (ownershipError ''unmanaged_target'')), d')
      \<and> fst (attempts calls d') = replicate (length calls) False
      \<and> holds (snd (attempts calls d')) PTarget (artifact_content w)"
    by (auto simp: stranded_def)
qed

definition interrupted_example :: "fault list \<Rightarrow> disk" where
  "interrupted_example plan = \<lparr>files = [(PTarget, private_file (artifact_content example_artifact)),
     (PJournal, private_file (validated_receipt example_artifact))], dir_directory = True, dir_private = True, fault_plan = plan\<rparr>"

theorem recover_loses_journal_witness:
  "\<exists>d' d''. CurrentReceipt (interrupted_example []) = (Some (Inr (receipt_of (Some example_artifact))), d')
    \<and> CurrentReceipt (interrupted_example (replicate 8 Fine @ [Fails])) = (Some (Inl (ownershipError ''unmanaged_target'')), d'')
    \<and> fst (attempts [([], AskReceipt), ([], PublishAgain example_artifact CtxLive CtxLive)] d'') = [False, False]"
proof -
  have d: "interrupted example_artifact (interrupted_example plan)" for plan
    using example_publishable
    by (simp add: interrupted_def sound_def interrupted_example_def look_def holds_def private_or_missing_def del: map_of_files)
  let ?calls = "[([], AskReceipt), ([], PublishAgain example_artifact CtxLive CtxLive)]"
  have "faults (interrupted_example []) = 0" by (simp add: faults_def interrupted_example_def)
  then obtain d' where d': "CurrentReceipt (interrupted_example []) = (Some (Inr (receipt_of (Some example_artifact))), d')"
    using recover_loses_journal [OF d, of "[]" 0 "[]" ?calls] by blast
  have "fault_plan (interrupted_example (replicate 8 Fine @ [Fails])) = replicate (8 + 0) Fine @ Fails # []"
    by (simp add: interrupted_example_def)
  then obtain d'' where d'': "CurrentReceipt (interrupted_example (replicate 8 Fine @ [Fails])) = (Some (Inl (ownershipError ''unmanaged_target'')), d'')"
    "fst (attempts ?calls d'') = replicate (length ?calls) False"
    using recover_loses_journal [OF d, of "replicate 8 Fine @ [Fails]" 0 "[]" ?calls] by auto
  show ?thesis using d' d'' by (auto simp: numeral_2_eq_2)
qed

end
