(* ===== verification/State_Checkpoint.thy ===== *)
theory State_Checkpoint
  imports Selection Artifact_Receipt
begin

text \<open>
  The decision checkpoints of \<^verbatim>\<open>internal/state/sqlite.go\<close>: the JSON payload a selection state and its
  artifact receipt are stored as, and how it is read back with every check of the constructors.
  The lemmas show that a storable state survives the round trip unchanged.
\<close>

section \<open>The payload\<close>

record checkpointMember =
  cm_EndpointID :: string
  cm_Revision :: bytes
  cm_SelectedAt :: int

record checkpointCooldown =
  cc_EndpointID :: string
  cc_Revision :: bytes
  cc_Until :: int

record checkpointPayload =
  cp_Scope :: string
  cp_TargetID :: string
  cp_TargetRevision :: bytes
  cp_Vantage :: string
  cp_Kind :: Kind
  cp_Profile :: Profile
  cp_PolicyFingerprint :: bytes
  cp_EvaluatedAt :: int
  cp_Members :: "checkpointMember list"
  cp_Cooldowns :: "checkpointCooldown list"
  cp_Receipt :: bytes

record storedCheckpoint =
  chk_state :: SelectionState
  chk_receipt :: Receipt

subsection \<open>Encoding\<close>

text \<open>A nil slice is encoded as null; the lists of a payload are nil when they are empty.\<close>

definition marshal_list :: "('a \<Rightarrow> json) \<Rightarrow> 'a list \<Rightarrow> json" where
  "marshal_list f xs = (if xs = [] then JNull else JArray (map f xs))"

definition marshal_member :: "checkpointMember \<Rightarrow> json" where
  "marshal_member m = JObject
     [(''endpoint_id'', JString (cm_EndpointID m)),
      (''connection_revision'', JString (base64_encode (cm_Revision m))),
      (''selected_at_ns'', JNumber (itoa (cm_SelectedAt m)))]"

definition marshal_cooldown :: "checkpointCooldown \<Rightarrow> json" where
  "marshal_cooldown c = JObject
     [(''endpoint_id'', JString (cc_EndpointID c)),
      (''connection_revision'', JString (base64_encode (cc_Revision c))),
      (''until_ns'', JNumber (itoa (cc_Until c)))]"

definition marshal_profile :: "Profile \<Rightarrow> json" where
  "marshal_profile p = JObject
     [(''Engine'', JNumber (itoa (uint (profile_Engine p)))),
      (''Version'', JString (profile_Version p)),
      (''RendererSchema'', JString (profile_RendererSchema p)),
      (''MediaType'', JString (profile_MediaType p))]"

definition marshal_payload :: "checkpointPayload \<Rightarrow> json" where
  "marshal_payload p = JObject
     [(''scope'', JString (cp_Scope p)),
      (''target_id'', JString (cp_TargetID p)),
      (''target_revision'', JString (base64_encode (cp_TargetRevision p))),
      (''vantage'', JString (cp_Vantage p)),
      (''kind'', JNumber (itoa (uint (cp_Kind p)))),
      (''profile'', marshal_profile (cp_Profile p)),
      (''policy_fingerprint'', JString (base64_encode (cp_PolicyFingerprint p))),
      (''evaluated_at_ns'', JNumber (itoa (cp_EvaluatedAt p))),
      (''members'', marshal_list marshal_member (cp_Members p)),
      (''cooldowns'', marshal_list marshal_cooldown (cp_Cooldowns p)),
      (''receipt'', JString (base64_encode (cp_Receipt p)))]"

fun encode_members :: "Member list \<Rightarrow> string + checkpointMember list" where
  "encode_members [] = Inr []"
| "encode_members (m # ms) =
     and_then (RevealForPersistence (cref_revision (mem_Connection m))) (\<lambda>revision.
       and_then (encode_members ms) (\<lambda>rest.
         Inr (\<lparr>cm_EndpointID = ID_String (cref_id (mem_Connection m)), cm_Revision = revision,
               cm_SelectedAt = time_UnixNano (mem_SelectedAt m)\<rparr> # rest)))"

fun encode_cooldowns :: "Cooldown list \<Rightarrow> string + checkpointCooldown list" where
  "encode_cooldowns [] = Inr []"
| "encode_cooldowns (c # cs) =
     and_then (RevealForPersistence (cref_revision (cool_Connection c))) (\<lambda>revision.
       and_then (encode_cooldowns cs) (\<lambda>rest.
         Inr (\<lparr>cc_EndpointID = ID_String (cref_id (cool_Connection c)), cc_Revision = revision,
               cc_Until = time_UnixNano (cool_Until c)\<rparr> # rest)))"

definition encodeCheckpoint :: "SelectionState \<Rightarrow> Receipt \<Rightarrow> string + bytes" where
  "encodeCheckpoint value receipt =
     and_then (TargetRevision_Reveal (tref_revision (ctx_Target (st_Context value)))) (\<lambda>targetRevision.
     and_then (Receipt_RevealForPersistence receipt) (\<lambda>receiptBytes.
     and_then (encode_members (st_Members value)) (\<lambda>members.
     and_then (encode_cooldowns (st_Cooldowns value)) (\<lambda>cooldowns.
       Inr (json_print (marshal_payload \<lparr>cp_Scope = st_Scope value, cp_TargetID = tref_id (ctx_Target (st_Context value)),
         cp_TargetRevision = targetRevision, cp_Vantage = ctx_Vantage (st_Context value), cp_Kind = ctx_Kind (st_Context value),
         cp_Profile = ctx_Profile (st_Context value), cp_PolicyFingerprint = st_PolicyFingerprint value,
         cp_EvaluatedAt = time_UnixNano (st_EvaluatedAt value), cp_Members = members, cp_Cooldowns = cooldowns,
         cp_Receipt = receiptBytes\<rparr>))))))"

subsection \<open>Decoding\<close>

definition read_member :: "checkpointMember \<Rightarrow> string \<times> json \<Rightarrow> checkpointMember option" where
  "read_member m e =
     (case e of (k, v) \<Rightarrow>
        if field_is ''endpoint_id'' k then map_option (\<lambda>x. m\<lparr>cm_EndpointID := x\<rparr>) (json_string (cm_EndpointID m) v)
        else if field_is ''connection_revision'' k then map_option (\<lambda>x. m\<lparr>cm_Revision := x\<rparr>) (json_bytes (cm_Revision m) v)
        else if field_is ''selected_at_ns'' k then map_option (\<lambda>x. m\<lparr>cm_SelectedAt := x\<rparr>) (json_int64 (cm_SelectedAt m) v)
        else Some m)"

definition read_cooldown :: "checkpointCooldown \<Rightarrow> string \<times> json \<Rightarrow> checkpointCooldown option" where
  "read_cooldown c e =
     (case e of (k, v) \<Rightarrow>
        if field_is ''endpoint_id'' k then map_option (\<lambda>x. c\<lparr>cc_EndpointID := x\<rparr>) (json_string (cc_EndpointID c) v)
        else if field_is ''connection_revision'' k then map_option (\<lambda>x. c\<lparr>cc_Revision := x\<rparr>) (json_bytes (cc_Revision c) v)
        else if field_is ''until_ns'' k then map_option (\<lambda>x. c\<lparr>cc_Until := x\<rparr>) (json_int64 (cc_Until c) v)
        else Some c)"

definition read_profile :: "Profile \<Rightarrow> string \<times> json \<Rightarrow> Profile option" where
  "read_profile p e =
     (case e of (k, v) \<Rightarrow>
        if field_is ''Engine'' k then map_option (\<lambda>x. p\<lparr>profile_Engine := x\<rparr>) (json_uint8 (profile_Engine p) v)
        else if field_is ''Version'' k then map_option (\<lambda>x. p\<lparr>profile_Version := x\<rparr>) (json_string (profile_Version p) v)
        else if field_is ''RendererSchema'' k then
          map_option (\<lambda>x. p\<lparr>profile_RendererSchema := x\<rparr>) (json_string (profile_RendererSchema p) v)
        else if field_is ''MediaType'' k then map_option (\<lambda>x. p\<lparr>profile_MediaType := x\<rparr>) (json_string (profile_MediaType p) v)
        else Some p)"

text \<open>
  The elements of an array are read into fresh structs; that a second array under the same key
  would be merged into the first one is not modelled.
\<close>

definition zero_member :: checkpointMember where
  "zero_member = \<lparr>cm_EndpointID = [], cm_Revision = [], cm_SelectedAt = 0\<rparr>"

definition zero_cooldown :: checkpointCooldown where
  "zero_cooldown = \<lparr>cc_EndpointID = [], cc_Revision = [], cc_Until = 0\<rparr>"

definition read_payload :: "checkpointPayload \<Rightarrow> string \<times> json \<Rightarrow> checkpointPayload option" where
  "read_payload p e =
     (case e of (k, v) \<Rightarrow>
        if field_is ''scope'' k then map_option (\<lambda>x. p\<lparr>cp_Scope := x\<rparr>) (json_string (cp_Scope p) v)
        else if field_is ''target_id'' k then map_option (\<lambda>x. p\<lparr>cp_TargetID := x\<rparr>) (json_string (cp_TargetID p) v)
        else if field_is ''target_revision'' k then
          map_option (\<lambda>x. p\<lparr>cp_TargetRevision := x\<rparr>) (json_bytes (cp_TargetRevision p) v)
        else if field_is ''vantage'' k then map_option (\<lambda>x. p\<lparr>cp_Vantage := x\<rparr>) (json_string (cp_Vantage p) v)
        else if field_is ''kind'' k then map_option (\<lambda>x. p\<lparr>cp_Kind := x\<rparr>) (json_uint8 (cp_Kind p) v)
        else if field_is ''profile'' k then map_option (\<lambda>x. p\<lparr>cp_Profile := x\<rparr>) (json_struct read_profile (cp_Profile p) v)
        else if field_is ''policy_fingerprint'' k then
          map_option (\<lambda>x. p\<lparr>cp_PolicyFingerprint := x\<rparr>) (json_bytes (cp_PolicyFingerprint p) v)
        else if field_is ''evaluated_at_ns'' k then map_option (\<lambda>x. p\<lparr>cp_EvaluatedAt := x\<rparr>) (json_int64 (cp_EvaluatedAt p) v)
        else if field_is ''members'' k then
          map_option (\<lambda>x. p\<lparr>cp_Members := x\<rparr>) (json_list (json_struct read_member zero_member) v)
        else if field_is ''cooldowns'' k then
          map_option (\<lambda>x. p\<lparr>cp_Cooldowns := x\<rparr>) (json_list (json_struct read_cooldown zero_cooldown) v)
        else if field_is ''receipt'' k then map_option (\<lambda>x. p\<lparr>cp_Receipt := x\<rparr>) (json_bytes (cp_Receipt p) v)
        else Some p)"

definition zero_payload :: checkpointPayload where
  "zero_payload = \<lparr>cp_Scope = [], cp_TargetID = [], cp_TargetRevision = [], cp_Vantage = [], cp_Kind = 0,
     cp_Profile = \<lparr>profile_Engine = 0, profile_Version = [], profile_RendererSchema = [], profile_MediaType = []\<rparr>,
     cp_PolicyFingerprint = [], cp_EvaluatedAt = 0, cp_Members = [], cp_Cooldowns = [], cp_Receipt = []\<rparr>"

definition unmarshal_payload :: "bytes \<Rightarrow> checkpointPayload option" where
  "unmarshal_payload encoded =
     (case json_parse encoded of None \<Rightarrow> None | Some v \<Rightarrow> json_struct read_payload zero_payload v)"

definition restoreConnection :: "string \<Rightarrow> bytes \<Rightarrow> string + ConnectionRef" where
  "restoreConnection rawID rawRevision =
     and_then (on_error (\<lambda>_. ''endpoint.id'') (ParseID rawID)) (\<lambda>i.
       and_then (RestoreRevision rawRevision) (\<lambda>revision. RestoreConnectionRef i revision))"

fun decode_members :: "checkpointMember list \<Rightarrow> string + Member list" where
  "decode_members [] = Inr []"
| "decode_members (m # ms) =
     (case restoreConnection (cm_EndpointID m) (cm_Revision m) of
        Inl _ \<Rightarrow> Inl ''invalid decision member''
      | Inr connection \<Rightarrow>
          if cm_SelectedAt m = 0 then Inl ''invalid decision member''
          else and_then (decode_members ms) (\<lambda>rest.
            Inr (\<lparr>mem_Connection = connection, mem_SelectedAt = time_Unix (cm_SelectedAt m)\<rparr> # rest)))"

fun decode_cooldowns :: "checkpointCooldown list \<Rightarrow> string + Cooldown list" where
  "decode_cooldowns [] = Inr []"
| "decode_cooldowns (c # cs) =
     (case restoreConnection (cc_EndpointID c) (cc_Revision c) of
        Inl _ \<Rightarrow> Inl ''invalid decision cooldown''
      | Inr connection \<Rightarrow>
          if cc_Until c = 0 then Inl ''invalid decision cooldown''
          else and_then (decode_cooldowns cs) (\<lambda>rest.
            Inr (\<lparr>cool_Connection = connection, cool_Until = time_Unix (cc_Until c)\<rparr> # rest)))"

definition decode_payload :: "checkpointPayload \<Rightarrow> string + storedCheckpoint" where
  "decode_payload payload =
     and_then (NewTargetID (cp_TargetID payload)) (\<lambda>targetID.
     and_then (RestoreTargetRef targetID (cp_TargetRevision payload)) (\<lambda>target.
     and_then (NewVantageID (cp_Vantage payload)) (\<lambda>vantage.
     and_then (NewContext target vantage (cp_Kind payload) (cp_Profile payload)) (\<lambda>selectionContext.
       if cp_EvaluatedAt payload = 0 then Inl ''invalid decision evaluation time''
       else
         and_then (decode_members (cp_Members payload)) (\<lambda>members.
         and_then (decode_cooldowns (cp_Cooldowns payload)) (\<lambda>cooldowns.
           let value = \<lparr>st_Scope = cp_Scope payload, st_Context = selectionContext,
             st_PolicyFingerprint = cp_PolicyFingerprint payload, st_EvaluatedAt = time_Unix (cp_EvaluatedAt payload),
             st_Members = members, st_Cooldowns = cooldowns\<rparr>
           in and_then (State_Validate value) (\<lambda>_.
              and_then (RestoreReceipt (cp_Receipt payload)) (\<lambda>receipt.
                Inr \<lparr>chk_state = value, chk_receipt = receipt\<rparr>))))))))"

definition max_payload :: nat where "max_payload = 4194304" \<comment> \<open>\<^verbatim>\<open>4<<20\<close>\<close>

definition decodeCheckpoint :: "bytes \<Rightarrow> string + storedCheckpoint" where
  "decodeCheckpoint encoded =
     (if length encoded = 0 \<or> length encoded > max_payload then Inl ''invalid decision checkpoint''
      else case unmarshal_payload encoded of
        None \<Rightarrow> Inl ''invalid decision checkpoint''
      | Some payload \<Rightarrow>
          if length (cp_PolicyFingerprint payload) \<noteq> 32 \<or> length (cp_Members payload) > 10000
             \<or> length (cp_Cooldowns payload) > 10000
          then Inl ''invalid decision checkpoint''
          else decode_payload payload)"

section \<open>Round trip\<close>

lemma json_fold_names:
  "json_fold ''scope'' = ''SCOPE''" "json_fold ''target_id'' = ''TARGET_ID''" "json_fold ''target_revision'' = ''TARGET_REVISION''"
  "json_fold ''vantage'' = ''VANTAGE''" "json_fold ''kind'' = ''KIND''" "json_fold ''profile'' = ''PROFILE''"
  "json_fold ''policy_fingerprint'' = ''POLICY_FINGERPRINT''" "json_fold ''evaluated_at_ns'' = ''EVALUATED_AT_NS''"
  "json_fold ''members'' = ''MEMBERS''" "json_fold ''cooldowns'' = ''COOLDOWNS''" "json_fold ''receipt'' = ''RECEIPT''"
  "json_fold ''endpoint_id'' = ''ENDPOINT_ID''" "json_fold ''connection_revision'' = ''CONNECTION_REVISION''"
  "json_fold ''selected_at_ns'' = ''SELECTED_AT_NS''" "json_fold ''until_ns'' = ''UNTIL_NS''"
  "json_fold ''Engine'' = ''ENGINE''" "json_fold ''Version'' = ''VERSION''" "json_fold ''RendererSchema'' = ''RENDERERSCHEMA''"
  "json_fold ''MediaType'' = ''MEDIATYPE''"
  by code_simp+

lemma payload_names_ascii:
  "ascii ''scope''" "ascii ''target_id''" "ascii ''target_revision''" "ascii ''vantage''" "ascii ''kind''" "ascii ''profile''"
  "ascii ''policy_fingerprint''" "ascii ''evaluated_at_ns''" "ascii ''members''" "ascii ''cooldowns''" "ascii ''receipt''"
  "ascii ''endpoint_id''" "ascii ''connection_revision''" "ascii ''selected_at_ns''" "ascii ''until_ns''"
  "ascii ''Engine''" "ascii ''Version''" "ascii ''RendererSchema''" "ascii ''MediaType''"
  by code_simp+

lemma json_int64_itoa: "in_int64 i \<Longrightarrow> json_int64 old (JNumber (itoa i)) = Some i"
  by (simp add: json_int64_def atoi_itoa)

lemma plain_int64: "in_int64 i \<Longrightarrow> json_plain (JNumber (itoa i))"
  by (simp add: atoi_itoa)

lemma json_uint8_itoa: "json_uint8 old (JNumber (itoa (uint w))) = Some w"
  by (simp add: json_uint8_def itoa_u8 unat_u8)

lemma json_scalars:
  "json_string old (JString s) = Some s" "json_bytes old2 (JString (base64_encode bs)) = Some bs"
  by (simp_all add: json_string_def json_bytes_def base64_decode_encode)

lemmas payload_reads = json_scalars json_int64_itoa json_uint8_itoa field_is_def json_fold_names

definition member_plain :: "checkpointMember \<Rightarrow> bool" where
  "member_plain m \<longleftrightarrow> ascii (cm_EndpointID m) \<and> in_int64 (cm_SelectedAt m)"

definition cooldown_plain :: "checkpointCooldown \<Rightarrow> bool" where
  "cooldown_plain c \<longleftrightarrow> ascii (cc_EndpointID c) \<and> in_int64 (cc_Until c)"

definition payload_plain :: "checkpointPayload \<Rightarrow> bool" where
  "payload_plain p \<longleftrightarrow> ascii (cp_Scope p) \<and> ascii (cp_TargetID p) \<and> ascii (cp_Vantage p) \<and> Profile_ascii (cp_Profile p)
     \<and> in_int64 (cp_EvaluatedAt p) \<and> list_all member_plain (cp_Members p) \<and> list_all cooldown_plain (cp_Cooldowns p)"

lemma read_marshal_member:
  "member_plain m \<Longrightarrow> json_struct read_member zero_member (marshal_member m) = Some m"
  by (simp add: json_struct_def marshal_member_def read_member_def zero_member_def payload_reads member_plain_def del: json_fold.simps)

lemma read_marshal_cooldown:
  "cooldown_plain c \<Longrightarrow> json_struct read_cooldown zero_cooldown (marshal_cooldown c) = Some c"
  by (simp add: json_struct_def marshal_cooldown_def read_cooldown_def zero_cooldown_def payload_reads cooldown_plain_def del: json_fold.simps)

lemma read_marshal_profile:
  "json_struct read_profile old (marshal_profile p) = Some p"
  by (simp add: json_struct_def marshal_profile_def read_profile_def payload_reads del: json_fold.simps)

lemma json_elements_map:
  "list_all P xs \<Longrightarrow> (\<And>x. P x \<Longrightarrow> f (g x) = Some x) \<Longrightarrow> json_elements f (map g xs) = Some xs"
  by (induction xs) simp_all

lemma json_list_marshal:
  "list_all P xs \<Longrightarrow> (\<And>x. P x \<Longrightarrow> f (g x) = Some x) \<Longrightarrow> json_list f (marshal_list g xs) = Some xs"
  using json_elements_map [of P xs f g] by (simp add: json_list_def marshal_list_def)

lemma elements_plain_map: "list_all P xs \<Longrightarrow> (\<And>x. P x \<Longrightarrow> json_plain (g x)) \<Longrightarrow> elements_plain (map g xs)"
  by (induction xs) simp_all

lemma elements_depth_map: "(\<And>x. json_depth (g x) \<le> n) \<Longrightarrow> elements_depth (map g xs) \<le> n"
  by (induction xs) simp_all

lemma marshal_list_plain:
  "list_all P xs \<Longrightarrow> (\<And>x. P x \<Longrightarrow> json_plain (g x)) \<Longrightarrow> json_plain (marshal_list g xs)"
  by (simp add: marshal_list_def elements_plain_map)

lemma marshal_list_depth: "(\<And>x. json_depth (g x) \<le> n) \<Longrightarrow> json_depth (marshal_list g xs) \<le> Suc n"
  by (simp add: marshal_list_def elements_depth_map)

lemma marshal_parts_plain:
  "member_plain m \<Longrightarrow> json_plain (marshal_member m)" "cooldown_plain c \<Longrightarrow> json_plain (marshal_cooldown c)"
  "Profile_ascii p \<Longrightarrow> json_plain (marshal_profile p)"
  using plain_u8 [of "profile_Engine p"]
  by (simp_all add: marshal_member_def marshal_cooldown_def marshal_profile_def member_plain_def cooldown_plain_def
      Profile_ascii_def payload_names_ascii atoi_itoa del: ascii_simps)

lemma marshal_payload_plain:
  assumes "payload_plain p"
  shows "json_plain (marshal_payload p)"
proof -
  have lists: "json_plain (marshal_list marshal_member (cp_Members p))" "json_plain (marshal_list marshal_cooldown (cp_Cooldowns p))"
    using assms by (auto simp: payload_plain_def intro!: marshal_list_plain marshal_parts_plain)
  show ?thesis
    using assms lists marshal_parts_plain(3) plain_u8 [of "cp_Kind p"] plain_int64 [of "cp_EvaluatedAt p"]
    by (simp add: marshal_payload_def payload_plain_def payload_names_ascii del: ascii_simps)
qed

lemma marshal_payload_depth: "json_depth (marshal_payload p) \<le> 10000"
proof -
  have "json_depth (marshal_list marshal_member (cp_Members p)) \<le> Suc 1" "json_depth (marshal_list marshal_cooldown (cp_Cooldowns p)) \<le> Suc 1"
    by (rule marshal_list_depth, simp add: marshal_member_def, rule marshal_list_depth, simp add: marshal_cooldown_def)
  then show ?thesis by (simp add: marshal_payload_def marshal_profile_def)
qed

lemma unmarshal_marshal_payload:
  assumes "payload_plain p"
  shows "unmarshal_payload (json_print (marshal_payload p)) = Some p"
proof -
  have parsed: "json_parse (json_print (marshal_payload p)) = Some (marshal_payload p)"
    using assms by (intro json_parse_print marshal_payload_plain marshal_payload_depth)
  have lists: "json_list (json_struct read_member zero_member) (marshal_list marshal_member (cp_Members p)) = Some (cp_Members p)"
    "json_list (json_struct read_cooldown zero_cooldown) (marshal_list marshal_cooldown (cp_Cooldowns p)) = Some (cp_Cooldowns p)"
    using assms by (auto simp: payload_plain_def intro!: json_list_marshal read_marshal_member read_marshal_cooldown)
  have "json_struct read_payload zero_payload (marshal_payload p) = Some p"
    using assms lists
    by (simp add: json_struct_def [of read_payload] marshal_payload_def read_payload_def zero_payload_def payload_reads
        read_marshal_profile payload_plain_def del: json_fold.simps)
  then show ?thesis using parsed by (simp add: unmarshal_payload_def)
qed

text \<open>
  The states the store can hold: valid, with identifiers as the parser of identifiers prints
  them, digests of their proper size and instants other than the epoch that fit 64 bits.
\<close>

definition storable_time :: "instant \<Rightarrow> bool" where
  "storable_time t \<longleftrightarrow> in_int64 (t - unix_epoch) \<and> t \<noteq> unix_epoch"

definition storable_ref :: "ConnectionRef \<Rightarrow> bool" where
  "storable_ref r \<longleftrightarrow> stored_ref r \<and> ParseID (cref_id r) = Inr (cref_id r) \<and> ascii (cref_id r)"

text \<open>The contexts of the program: the identifiers have passed their constructors.\<close>

definition storable_context :: "Context \<Rightarrow> bool" where
  "storable_context ctx \<longleftrightarrow>
     NewContext (ctx_Target ctx) (ctx_Vantage ctx) (ctx_Kind ctx) (ctx_Profile ctx) = Inr ctx
     \<and> safeID (tref_id (ctx_Target ctx)) \<and> safeID (ctx_Vantage ctx)
     \<and> (\<exists>v. tref_revision (ctx_Target ctx) = Some v \<and> length v = 32)"

definition storable :: "SelectionState \<Rightarrow> bool" where
  "storable s \<longleftrightarrow> safeScope (st_Scope s) \<and> storable_context (st_Context s)
     \<and> length (st_PolicyFingerprint s) = 32 \<and> storable_time (st_EvaluatedAt s)
     \<and> (\<forall>m\<in>set (st_Members s). storable_ref (mem_Connection m) \<and> storable_time (mem_SelectedAt m))
     \<and> (\<forall>c\<in>set (st_Cooldowns s). storable_ref (cool_Connection c) \<and> storable_time (cool_Until c))"

lemma ascii_safeID: "safeID s \<Longrightarrow> ascii s"
  by (auto simp: safeID_def ascii_def list_all_iff safe_name_char_def is_lower_def is_upper_def
      is_digit_def code_def split: if_splits)

lemma ascii_safeScope: "safeScope s \<Longrightarrow> ascii s"
  by (auto simp: safeScope_def ascii_def list_all_iff safe_name_char_def is_lower_def is_upper_def
      is_digit_def code_def split: if_splits)

lemma supported_profile_ascii: "p = Mihomo11931 \<or> p = SingBox1141 \<Longrightarrow> Profile_ascii p"
  by (auto simp: Profile_ascii_def Mihomo11931_def SingBox1141_def code_def)

lemma storable_time_nano:
  assumes "storable_time t"
  shows "in_int64 (time_UnixNano t)" "time_UnixNano t \<noteq> 0" "time_Unix (time_UnixNano t) = t"
  using assms by (simp_all add: storable_time_def time_UnixNano_def time_Unix_def wrap64_id)

lemma storable_ref_id:
  assumes "storable_ref r"
  shows "ID_String (cref_id r) \<noteq> ''<invalid-endpoint-id>''" "ID_String (cref_id r) = cref_id r" "ascii (cref_id r)"
proof -
  show "ID_String (cref_id r) \<noteq> ''<invalid-endpoint-id>''" "ascii (cref_id r)"
    using assms by (simp_all add: storable_ref_def stored_ref_def ref_ok_def)
  then show "ID_String (cref_id r) = cref_id r" by (intro ID_String_ok)
qed

lemma restoreConnection_ref:
  assumes "storable_ref r" "cref_revision r = Some v"
  shows "restoreConnection (ID_String (cref_id r)) v = Inr r"
proof -
  note i = storable_ref_id [OF assms(1)]
  have "length v = 32" using assms by (simp add: storable_ref_def stored_ref_def)
  then show ?thesis
    using assms i by (simp add: restoreConnection_def storable_ref_def RestoreRevision_def RestoreConnectionRef_def RevealForPersistence_def)
qed

lemma encode_decode_members:
  assumes "\<forall>m\<in>set ms. storable_ref (mem_Connection m) \<and> storable_time (mem_SelectedAt m)"
  shows "\<exists>es. encode_members ms = Inr es \<and> decode_members es = Inr ms \<and> list_all member_plain es \<and> length es = length ms"
  using assms
proof (induction ms)
  case (Cons m ms)
  obtain es where es: "encode_members ms = Inr es" "decode_members es = Inr ms" "list_all member_plain es" "length es = length ms"
    using Cons by auto
  have m: "storable_ref (mem_Connection m)" "storable_time (mem_SelectedAt m)" using Cons.prems by auto
  obtain v where v: "cref_revision (mem_Connection m) = Some v" using m(1) by (auto simp: storable_ref_def stored_ref_def)
  note i = storable_ref_id [OF m(1)]
  have "member_plain \<lparr>cm_EndpointID = cref_id (mem_Connection m), cm_Revision = v, cm_SelectedAt = time_UnixNano (mem_SelectedAt m)\<rparr>"
    using i storable_time_nano [OF m(2)] by (simp add: member_plain_def)
  then show ?case
    using es v i restoreConnection_ref [OF m(1) v] storable_time_nano [OF m(2)]
    by (simp add: RevealForPersistence_def)
qed simp

lemma encode_decode_cooldowns:
  assumes "\<forall>c\<in>set cs. storable_ref (cool_Connection c) \<and> storable_time (cool_Until c)"
  shows "\<exists>es. encode_cooldowns cs = Inr es \<and> decode_cooldowns es = Inr cs \<and> list_all cooldown_plain es \<and> length es = length cs"
  using assms
proof (induction cs)
  case (Cons c cs)
  obtain es where es: "encode_cooldowns cs = Inr es" "decode_cooldowns es = Inr cs" "list_all cooldown_plain es" "length es = length cs"
    using Cons by auto
  have c: "storable_ref (cool_Connection c)" "storable_time (cool_Until c)" using Cons.prems by auto
  obtain v where v: "cref_revision (cool_Connection c) = Some v" using c(1) by (auto simp: storable_ref_def stored_ref_def)
  note i = storable_ref_id [OF c(1)]
  have "cooldown_plain \<lparr>cc_EndpointID = cref_id (cool_Connection c), cc_Revision = v, cc_Until = time_UnixNano (cool_Until c)\<rparr>"
    using i storable_time_nano [OF c(2)] by (simp add: cooldown_plain_def)
  then show ?case
    using es v i restoreConnection_ref [OF c(1) v] storable_time_nano [OF c(2)]
    by (simp add: RevealForPersistence_def)
qed simp

lemma json_print_object: "json_print (JObject ms) \<noteq> []"
  by simp

theorem checkpoint_roundtrip:
  assumes s: "storable s" and r: "RestoreReceipt (rcp_encoded r) = Inr r" "rcp_encoded r \<noteq> []"
  shows "\<exists>payload. encodeCheckpoint s r = Inr payload
    \<and> decodeCheckpoint payload =
        (if length payload > max_payload \<or> length (st_Members s) > 10000 \<or> length (st_Cooldowns s) > 10000
         then Inl ''invalid decision checkpoint''
         else and_then (State_Validate s) (\<lambda>_. Inr \<lparr>chk_state = s, chk_receipt = r\<rparr>))"
proof -
  obtain ms where ms: "encode_members (st_Members s) = Inr ms" "decode_members ms = Inr (st_Members s)"
    "list_all member_plain ms" "length ms = length (st_Members s)"
    using encode_decode_members [of "st_Members s"] s by (auto simp: storable_def)
  obtain cs where cs: "encode_cooldowns (st_Cooldowns s) = Inr cs" "decode_cooldowns cs = Inr (st_Cooldowns s)"
    "list_all cooldown_plain cs" "length cs = length (st_Cooldowns s)"
    using encode_decode_cooldowns [of "st_Cooldowns s"] s by (auto simp: storable_def)
  obtain v where v: "tref_revision (ctx_Target (st_Context s)) = Some v" "length v = 32"
    using s by (auto simp: storable_def storable_context_def)
  let ?p = "\<lparr>cp_Scope = st_Scope s, cp_TargetID = tref_id (ctx_Target (st_Context s)),
         cp_TargetRevision = v, cp_Vantage = ctx_Vantage (st_Context s), cp_Kind = ctx_Kind (st_Context s),
         cp_Profile = ctx_Profile (st_Context s), cp_PolicyFingerprint = st_PolicyFingerprint s,
         cp_EvaluatedAt = time_UnixNano (st_EvaluatedAt s), cp_Members = ms, cp_Cooldowns = cs, cp_Receipt = rcp_encoded r\<rparr>"
  have time: "storable_time (st_EvaluatedAt s)" and scope: "safeScope (st_Scope s)"
    and ctx: "NewContext (ctx_Target (st_Context s)) (ctx_Vantage (st_Context s)) (ctx_Kind (st_Context s)) (ctx_Profile (st_Context s))
      = Inr (st_Context s)"
    and ids: "safeID (tref_id (ctx_Target (st_Context s)))" "safeID (ctx_Vantage (st_Context s))"
    and print: "length (st_PolicyFingerprint s) = 32"
    using s by (simp_all add: storable_def storable_context_def)
  have target: "ctx_Target (st_Context s) = \<lparr>tref_id = tref_id (ctx_Target (st_Context s)), tref_revision = Some v\<rparr>"
    using v(1) by (intro TargetRef.equality) simp_all
  have profile: "Profile_ascii (ctx_Profile (st_Context s))"
    using ctx by (intro supported_profile_ascii) (auto simp: NewContext_def split: if_splits)
  have plain: "payload_plain ?p"
    using scope ids profile ms(3) cs(3) storable_time_nano [OF time]
    by (simp add: payload_plain_def ascii_safeID ascii_safeScope)
  have encoded: "encodeCheckpoint s r = Inr (json_print (marshal_payload ?p))"
    using ms(1) cs(1) v r(2) by (simp add: encodeCheckpoint_def TargetRevision_Reveal_def Receipt_RevealForPersistence_def)
  have state: "\<lparr>st_Scope = st_Scope s, st_Context = st_Context s, st_PolicyFingerprint = st_PolicyFingerprint s,
      st_EvaluatedAt = st_EvaluatedAt s, st_Members = st_Members s, st_Cooldowns = st_Cooldowns s\<rparr> = s" by simp
  have "tref_id (ctx_Target (st_Context s)) \<noteq> []" using ids(1) by (auto simp: safeID_def)
  then have "decode_payload ?p = (let value = \<lparr>st_Scope = st_Scope s, st_Context = st_Context s,
      st_PolicyFingerprint = st_PolicyFingerprint s, st_EvaluatedAt = st_EvaluatedAt s, st_Members = st_Members s,
      st_Cooldowns = st_Cooldowns s\<rparr> in and_then (State_Validate value) (\<lambda>_. Inr \<lparr>chk_state = value, chk_receipt = r\<rparr>))"
    using ids ms(2) cs(2) v(2) r(1) ctx storable_time_nano [OF time] target
    by (simp add: decode_payload_def NewTargetID_def NewVantageID_def RestoreTargetRef_def restoreTargetRevision_def)
  then have "decode_payload ?p = and_then (State_Validate s) (\<lambda>_. Inr \<lparr>chk_state = s, chk_receipt = r\<rparr>)"
    by (simp only: state Let_def)
  moreover have "json_print (marshal_payload ?p) \<noteq> []" by (simp add: marshal_payload_def)
  ultimately show ?thesis
    using encoded unmarshal_marshal_payload [OF plain] print ms(4) cs(4) by (simp add: decodeCheckpoint_def)
qed

end
