(* ===== verification/Spec2Isabelle.thy ===== *)
theory Spec2Isabelle
  imports Endpoint_Inventory Float64 Artifact Observation Selection Selection_Examples Selection_Replay
    Gateway_Policy Engine_Capability Probe_Authorize Probe_Executor Probe_Scheduler Json Artifact_Receipt Publish_File State_Checkpoint
begin

text \<open>
  HEADER
\<close>

section \<open>Decisions that survive storage\<close>

text \<open>
  A selection state that \<^verbatim>\<open>Select\<close> commits is stored by the state store as a checkpoint together
  with the receipt of the artifact that was published for it.
\<close>

lemma cand_ref_storable:
  assumes "ref_ok (cand_ref c)"
  shows "storable_ref (cand_ref c)"
proof -
  let ?c = "rec_configuration (cand_Record c)" let ?e = "base32_encode (sha256 (canonicalConfiguration ?c False))"
  have valid: "Configuration_valid ?c"
    using assms by (cases "Configuration_valid ?c")
      (auto simp: ref_ok_def ref_of_def Record_Identity_def Configuration_Identity_def)
  have i: "cref_id (cand_ref c) = version_prefix ?c @ to_lower ?e"
    using valid by (simp add: ref_of_def Record_Identity_def Configuration_Identity_valid)
  have digits: "\<forall>x\<in>set ?e. code x < 128 \<and> code (to_lower_char x) < 128"
    using base32_encode_digits base32_digit_cases by blast
  then have lower: "to_lower ?e = map to_lower_char ?e" by (intro to_lower_ascii) (simp add: list_all_iff)
  have "ascii (version_prefix ?c)" by (simp add: version_prefix_def ascii_def code_def)
  moreover have "ascii (to_lower ?e)" using digits by (simp add: lower ascii_def list_all_iff)
  ultimately have "ascii (cref_id (cand_ref c))" unfolding i by (simp add: ascii_def)
  moreover have "ParseID (cref_id (cand_ref c)) = Inr (cref_id (cand_ref c))"
  proof -
    have "list_ex (has_prefix (version_prefix ?c @ s)) id_prefixes" for s
      by (simp add: version_prefix_def id_prefixes_def has_prefix_def)
    moreover have "to_upper (to_lower ?e) = ?e \<and> to_lower (to_lower ?e) = to_lower ?e"
      by (rule base32_case [OF base32_encode_digits])
    moreover have "base32_decode ?e = Some (sha256 (canonicalConfiguration ?c False))"
      by (rule base32_decode_encode) simp
    moreover have "length (version_prefix ?c) = 4" by (simp add: version_prefix_def)
    ultimately show ?thesis unfolding i by (simp add: ParseID_def Let_def)
  qed
  ultimately show ?thesis using cand_ref_stored [OF assms] by (simp add: storable_ref_def)
qed

lemma storable_time_pos: "storable_time t \<Longrightarrow> 0 < t"
  by (simp add: storable_time_def in_int64_def min_int64_def max_int64_def unix_epoch_def)

lemma storable_previous:
  assumes "case previous of None \<Rightarrow> True | Some p \<Rightarrow> State_Validate p = Inr () \<and> storable p"
  shows "previous_ok previous" "case previous of None \<Rightarrow> True | Some p \<Rightarrow> state_stored p"
    "\<forall>m\<in>set (prev_members scope ctx policy previous). storable_ref (mem_Connection m) \<and> storable_time (mem_SelectedAt m)"
    "\<forall>k\<in>set (prev_cooldowns scope ctx policy previous). storable_ref (cool_Connection k) \<and> storable_time (cool_Until k)"
  using assms
  by (auto simp: previous_ok_def refs_valid_def State_Validate_def and_then_Inr_iff state_stored_def storable_def storable_ref_def
      prev_members_def prev_cooldowns_def usable_previous_def split: option.splits if_splits)

lemma findMember_time: "snd (findMember ms r) = 0 \<or> (\<exists>m\<in>set ms. snd (findMember ms r) = mem_SelectedAt m)"
  by (induction ms) (auto simp: findMember_def)

lemma Select_storable_members:
  assumes "Select scope ctx policy candidates previous now = Inr d" "previous_ok previous" "storable_time now"
    and "\<forall>m\<in>set (prev_members scope ctx policy previous). storable_ref (mem_Connection m) \<and> storable_time (mem_SelectedAt m)"
  shows "\<forall>m\<in>set (st_Members (dec_Next d)). storable_ref (mem_Connection m) \<and> storable_time (mem_SelectedAt m)"
proof
  fix m assume "m \<in> set (st_Members (dec_Next d))"
  then obtain v where v: "v \<in> set (rt_selected (chosen_in scope ctx policy previous now candidates))"
    "m = next_member (prev_members scope ctx policy previous) now v"
    by (auto simp: Select_fields(3) [OF assms(1)])
  have ready: "Select_ready scope ctx policy candidates previous now" using assms(1) by (simp add: Select_Inr_iff)
  have ranked: "v \<in> set (ranking_in scope ctx policy previous now candidates)"
    using chosen_in_spec(2) [OF ready assms(2)] v(1) by blast
  note entry = ranking_in_entry [OF ranked]
  have "ref_ok (cand_ref (rk_candidate v))" using ready entry(1) by (simp add: Select_ready_def)
  then have "storable_ref (rk_ref v)" unfolding entry(2) by (rule cand_ref_storable)
  moreover have "storable_time (mem_SelectedAt m)"
    using assms(3,4) findMember_time [of "prev_members scope ctx policy previous" "rk_ref v"]
    by (auto simp: v(2) next_member_def Let_def time_IsZero_def)
  ultimately show "storable_ref (mem_Connection m) \<and> storable_time (mem_SelectedAt m)" by (simp add: v(2))
qed

lemma Select_storable_cooldowns:
  assumes "Select scope ctx policy candidates previous now = Inr d" "storable_time (now + pol_Cooldown policy)"
    and "\<forall>m\<in>set (prev_members scope ctx policy previous). storable_ref (mem_Connection m)"
    and "\<forall>k\<in>set (prev_cooldowns scope ctx policy previous). storable_ref (cool_Connection k) \<and> storable_time (cool_Until k)"
  shows "\<forall>k\<in>set (st_Cooldowns (dec_Next d)). storable_ref (cool_Connection k) \<and> storable_time (cool_Until k)"
proof -
  let ?ms = "prev_members scope ctx policy previous" and ?cs = "prev_cooldowns scope ctx policy previous"
  let ?R = "ranking_in scope ctx policy previous now candidates"
  let ?reasons = "rg_reasons (ranking_of (explain_in scope ctx policy previous now) (ordered_candidates candidates))"
  define kept where "kept = filter (keep_cooldown ?reasons ?R policy now) ?cs"
  define fresh where "fresh = map (cooled policy now) (filter (failing ?R ?reasons) ?ms)"
  have "st_Cooldowns (dec_Next d) = kept \<or> st_Cooldowns (dec_Next d) = foldl upsertCooldown kept fresh"
    unfolding Select_fields(4) [OF assms(1)] chosen_in_def Let_def choose_ranked_cooldowns kept_def fresh_def by simp
  then have sub: "set (st_Cooldowns (dec_Next d)) \<subseteq> set kept \<union> set fresh" using upsert_fold_subset [of kept fresh] by auto
  have "\<forall>k\<in>set kept. storable_ref (cool_Connection k) \<and> storable_time (cool_Until k)" using assms(4) by (simp add: kept_def)
  moreover have "\<forall>k\<in>set fresh. storable_ref (cool_Connection k) \<and> storable_time (cool_Until k)"
    using assms(2,3) by (auto simp: fresh_def cooled_def time_Add_def)
  ultimately show ?thesis using sub by blast
qed

lemma Select_storable:
  assumes "Select scope ctx policy candidates previous now = Inr d"
    and previous: "case previous of None \<Rightarrow> True | Some p \<Rightarrow> State_Validate p = Inr () \<and> storable p"
    and "storable_context ctx" "storable_time now" "storable_time (now + pol_Cooldown policy)"
  shows "storable (dec_Next d)" "length (st_Members (dec_Next d)) \<le> 10000"
    "State_Validate (dec_Next d) = (if list_all (\<lambda>c. c = byte 0) (policyFingerprint policy)
       then Inl ''invalid selection policy fingerprint'' else Inr ())"
proof -
  note f = Select_fields [OF assms(1)] and prev = storable_previous [OF previous]
  have ready: "Select_ready scope ctx policy candidates previous now" using assms(1) by (simp add: Select_Inr_iff)
  then have scope: "safeScope scope" and top: "pol_TopN policy \<le> 10000"
    using Policy_ok_bounds(4) by (auto simp: Select_ready_def)
  have now: "0 < now" by (rule storable_time_pos [OF assms(4)])
  note members = Select_next_members [OF assms(1) prev(1)] and cooldowns = Select_next_cooldowns [OF assms(1) prev(1) now prev(2)]
  have "storable_ref (mem_Connection m)" if "m \<in> set (prev_members scope ctx policy previous)" for m
    using prev(3) that by blast
  then show "storable (dec_Next d)"
    using Select_storable_members [OF assms(1) prev(1) assms(4) prev(3)] Select_storable_cooldowns [OF assms(1,5) _ prev(4)] scope assms(3,4)
    by (simp add: storable_def f(8-11) policyFingerprint_def)
  show "length (st_Members (dec_Next d)) \<le> 10000" using members(3) top by linarith
  have "committed_inv (dec_Next d)"
    using members cooldowns scope now assms(3)
    by (simp add: committed_inv_def refs_valid_def state_stored_def f(8-11) storable_context_def is_ok_def)
  from State_Validate_committed [OF this] show "State_Validate (dec_Next d) = (if list_all (\<lambda>c. c = byte 0) (policyFingerprint policy)
       then Inl ''invalid selection policy fingerprint'' else Inr ())" by (simp add: f(10))
qed

text \<open>
  C40. A decision survives storage. Whatever \<^verbatim>\<open>Select\<close> decides, from no previous state or from
  one that can itself be stored, the state it commits is encoded with the receipt of any
  validated artifact, and the encoded checkpoint is read back as exactly that state and that
  receipt. It is refused only when it is over four mebibytes or has over ten thousand cooldowns,
  or if the policy's fingerprint were all zero. The context comes from its constructors, and the
  time of the decision and the end of a new cooldown lie in the years that nanoseconds since
  1970 can count and are not that instant itself.
\<close>

theorem decision_survives_storage:
  assumes "Select scope ctx policy candidates previous now = Inr d"
    and "case previous of None \<Rightarrow> True | Some p \<Rightarrow> State_Validate p = Inr () \<and> storable p"
    and "storable_context ctx" "storable_time now" "storable_time (now + pol_Cooldown policy)"
    and "Validated_wf v"
  shows "storable (dec_Next d) \<and> (\<exists>payload r. Validated_Receipt v = Inr r \<and> encodeCheckpoint (dec_Next d) r = Inr payload
    \<and> decodeCheckpoint payload =
        (if length payload > max_payload \<or> length (st_Cooldowns (dec_Next d)) > 10000 then Inl ''invalid decision checkpoint''
         else if list_all (\<lambda>c. c = byte 0) (policyFingerprint policy) then Inl ''invalid selection policy fingerprint''
         else Inr \<lparr>chk_state = dec_Next d, chk_receipt = r\<rparr>))"
proof -
  let ?r = "\<lparr>rcp_encoded = validated_receipt v\<rparr>"
  note s = Select_storable [OF assms(1-5)]
  have r: "Validated_Receipt v = Inr ?r" "RestoreReceipt (rcp_encoded ?r) = Inr ?r" "rcp_encoded ?r \<noteq> []"
    using ProtectedReceipt_wf [OF assms(6)] RestoreReceipt_wf [OF assms(6)]
    by (simp_all add: Validated_Receipt_def) (simp add: marshal_receiptData_def)
  obtain payload where "encodeCheckpoint (dec_Next d) ?r = Inr payload"
    "decodeCheckpoint payload =
        (if length payload > max_payload \<or> length (st_Members (dec_Next d)) > 10000 \<or> length (st_Cooldowns (dec_Next d)) > 10000
         then Inl ''invalid decision checkpoint''
         else and_then (State_Validate (dec_Next d)) (\<lambda>_. Inr \<lparr>chk_state = dec_Next d, chk_receipt = ?r\<rparr>))"
    using checkpoint_roundtrip [OF s(1) r(2,3)] by blast
  then show ?thesis using s r(1) by (intro conjI exI [of _ payload] exI [of _ ?r]) simp_all
qed

theorem decision_survives_storage_witness:
  "\<exists>d payload r. Select ''pool'' example_ctx example_policy example_pool None example_now = Inr d
    \<and> length (st_Members (dec_Next d)) = 1 \<and> st_Cooldowns (dec_Next d) = []
    \<and> encodeCheckpoint (dec_Next d) r = Inr payload
    \<and> decodeCheckpoint payload =
        (if length payload > max_payload then Inl ''invalid decision checkpoint''
         else if list_all (\<lambda>c. c = byte 0) (policyFingerprint example_policy) then Inl ''invalid selection policy fingerprint''
         else Inr \<lparr>chk_state = dec_Next d, chk_receipt = r\<rparr>)"
proof -
  obtain d where d: "Select ''pool'' example_ctx example_policy example_pool None example_now = Inr d"
    "length (st_Members (dec_Next d)) = 1"
    by (rule example_decision [of None]) (auto simp: previous_ok_def)
  have "storable_context example_ctx"
    by (simp add: storable_context_def example_ctx_def sample_key_def NewContext_def TargetRevision_Reveal_def) code_simp
  moreover have "storable_time example_now" "storable_time (example_now + pol_Cooldown example_policy)"
    by (simp_all add: storable_time_def example_now_def hour_def in_int64_def min_int64_def max_int64_def DefaultPolicy_def minute_def)
  moreover have "Validated_wf example_artifact" by (rule example_artifact_wf)
  ultimately obtain payload r where "encodeCheckpoint (dec_Next d) r = Inr payload"
    "decodeCheckpoint payload =
        (if length payload > max_payload \<or> length (st_Cooldowns (dec_Next d)) > 10000 then Inl ''invalid decision checkpoint''
         else if list_all (\<lambda>c. c = byte 0) (policyFingerprint example_policy) then Inl ''invalid selection policy fingerprint''
         else Inr \<lparr>chk_state = dec_Next d, chk_receipt = r\<rparr>)"
    using decision_survives_storage [OF d(1), of example_artifact] by auto
  moreover have "st_Cooldowns (dec_Next d) = []"
    unfolding Select_fields(4) [OF d(1)] chosen_in_def Let_def choose_ranked_cooldowns
    by (simp add: prev_members_def prev_cooldowns_def usable_previous_def)
  ultimately show ?thesis using d by (intro exI [of _ d] exI [of _ payload] exI [of _ r]) simp
qed

end
